(* ===== verification/Crdt_Prelude.thy ===== *)
theory Crdt_Prelude
  imports Main "HOL-Library.Word"
begin

section \<open>Shared vocabulary of the development\<close>

text \<open>
  This theory holds what every component shares: the faults a C function can run into and the
  result type that carries them, C's integer conversions, the 64-bit limits, and generic lemmas on
  lists, maps and words. No definition here models a function of the repository.
\<close>

named_theorems res_simps \<open>unfolding rules of the fault monad\<close>
named_theorems vc_defs \<open>definitions of the vector clock operations\<close>

subsection \<open>Faults and results\<close>

text \<open>
  A C function that trips an \<^verbatim>\<open>assert\<close> aborts the process; one that follows a null pointer,
  writes past an array, reads an indeterminate object, uses a released object or shifts by a negative
  amount has no defined behaviour. Each of these is
  a value of \<open>fault\<close>, so that the absence of faults is a theorem and not a modelling convention.
\<close>

datatype fault = AssertFail | OutOfBounds | NullDeref | UninitRead | BadShift | UseAfterFree

type_synonym 'a res = "fault + 'a"

definition bindE :: "'a res \<Rightarrow> ('a \<Rightarrow> 'b res) \<Rightarrow> 'b res" where
  "bindE m f = (case m of Inl e \<Rightarrow> Inl e | Inr x \<Rightarrow> f x)"

lemma bindE_Inl [simp, res_simps]: "bindE (Inl e) f = Inl e"
  by (simp add: bindE_def)

lemma bindE_Inr [simp, res_simps]: "bindE (Inr x) f = f x"
  by (simp add: bindE_def)

lemma bindE_eq_Inr: "bindE m f = Inr y \<longleftrightarrow> (\<exists>x. m = Inr x \<and> f x = Inr y)"
  by (cases m) auto

lemma bindE_eq_Inl: "bindE m f = Inl e \<longleftrightarrow> m = Inl e \<or> (\<exists>x. m = Inr x \<and> f x = Inl e)"
  by (cases m) auto

lemma bindE_cong [fundef_cong]:
  "m = m' \<Longrightarrow> (\<And>x. m' = Inr x \<Longrightarrow> f x = f' x) \<Longrightarrow> bindE m f = bindE m' f'"
  by (cases m') auto

lemma bindE_assoc: "bindE (bindE m f) g = bindE m (\<lambda>x. bindE (f x) g)"
  by (cases m) auto

definition assertE :: "bool \<Rightarrow> unit res" where
  "assertE b = (if b then Inr () else Inl AssertFail)"

lemma assertE_True [simp, res_simps]: "assertE True = Inr ()"
  by (simp add: assertE_def)

lemma assertE_False [simp, res_simps]: "assertE False = Inl AssertFail"
  by (simp add: assertE_def)

lemma bindE_assertE: "b \<Longrightarrow> bindE (assertE b) f = f ()"
  by simp

text \<open>A loop over a list that stops at the first fault, and one that collects results.\<close>

fun foldE :: "('a \<Rightarrow> 's \<Rightarrow> 's res) \<Rightarrow> 'a list \<Rightarrow> 's \<Rightarrow> 's res" where
  "foldE f [] s = Inr s"
| "foldE f (x # xs) s = bindE (f x s) (foldE f xs)"

fun mapE :: "('a \<Rightarrow> 'b res) \<Rightarrow> 'a list \<Rightarrow> 'b list res" where
  "mapE f [] = Inr []"
| "mapE f (x # xs) = bindE (f x) (\<lambda>y. bindE (mapE f xs) (\<lambda>ys. Inr (y # ys)))"

lemma foldE_append: "foldE f (xs @ ys) s = bindE (foldE f xs s) (foldE f ys)"
proof (induction xs arbitrary: s)
  case Nil
  then show ?case by simp
next
  case (Cons x xs)
  then show ?case by (cases "f x s") simp_all
qed

lemma foldE_invariant:
  assumes "\<And>x s. x \<in> set xs \<Longrightarrow> P s \<Longrightarrow> \<exists>s'. f x s = Inr s' \<and> P s'" and "P s"
  shows "\<exists>s'. foldE f xs s = Inr s' \<and> P s'"
  using assms
proof (induction xs arbitrary: s)
  case Nil
  then show ?case by simp
next
  case (Cons x xs)
  from Cons.prems obtain s1 where s1: "f x s = Inr s1" "P s1" by (meson list.set_intros(1))
  with Cons.IH [of s1] Cons.prems(1) show ?case by auto
qed

lemma mapE_Inr: "(\<And>x. x \<in> set xs \<Longrightarrow> f x = Inr (g x)) \<Longrightarrow> mapE f xs = Inr (map g xs)"
  by (induction xs) simp_all

subsection \<open>C integers\<close>

text \<open>
  A conversion to the signed 8-bit \<^verbatim>\<open>char\<close> of the supported platforms keeps the low eight bits and
  reads them as two's complement. \<^verbatim>\<open>long long\<close> values are \<open>int\<close>s within the limits below; where the
  source computes on \<^verbatim>\<open>unsigned long long\<close> the model writes the wrap-around out or uses a word.
\<close>

definition to_char :: "int \<Rightarrow> int" where
  "to_char x = sint (word_of_int x :: 8 word)"

abbreviation LLONG_MAX :: int where "LLONG_MAX \<equiv> 9223372036854775807"
abbreviation LLONG_MIN :: int where "LLONG_MIN \<equiv> - 9223372036854775808"
abbreviation ULLONG_MAX :: int where "ULLONG_MAX \<equiv> 18446744073709551615"

lemma to_char_small [simp]: "0 \<le> x \<Longrightarrow> x < 128 \<Longrightarrow> to_char x = x"
  unfolding to_char_def
  by (simp add: signed_of_int signed_take_bit_int_eq_self)

lemma to_char_bounds: "- 128 \<le> to_char x \<and> to_char x < 128"
  using sint_range_size [of "word_of_int x :: 8 word"] by (simp add: to_char_def word_size)

subsection \<open>Words\<close>

lemma uint_word4_bounds: "0 \<le> uint (w :: 4 word)" "uint (w :: 4 word) < 16"
  using uint_bounded [of w] by simp_all

lemma uint_word56_bounds: "0 \<le> uint (w :: 56 word)" "uint (w :: 56 word) < 2 ^ 56"
  using uint_bounded [of w] by simp_all

lemma uint_word4_pos: "w \<noteq> 0 \<Longrightarrow> 0 < uint (w :: 4 word)"
  using uint_0_iff [of w] uint_word4_bounds(1) [of w] by linarith

lemma uint_eq_iff_word: "uint (v :: 'a::len word) = uint w \<longleftrightarrow> v = w"
  by (simp add: word_uint_eq_iff)

subsection \<open>Association lists with distinct keys\<close>

lemma distinct_map_filter_fst: "distinct (map f xs) \<Longrightarrow> distinct (map f (filter P xs))"
  by (simp add: distinct_map inj_on_def)

end
