(* ===== verification/Vector_Clock.thy ===== *)
theory Vector_Clock
  imports Crdt_Prelude
begin

section \<open>Vector clocks: data and operations\<close>

text \<open>
  The model of \<^verbatim>\<open>src/src/ctrip_vector_clock.h\<close> and of the operations of
  \<^verbatim>\<open>src/src/ctrip_vector_clock.c\<close> that do not convert to or from text.

  A \<^verbatim>\<open>VectorClockUnit\<close> packs a 56-bit logic clock and a 4-bit group id (gid) into one machine word.
  A \<^verbatim>\<open>VectorClock\<close> is a tagged word: a 4-bit length and either one unit stored inline or the address
  of an array of units. The model keeps what the operations read, the sequence of units, so inline
  and array clocks are lists and \<open>get_len\<close> is the length of the list. The four option bits of a unit
  share storage with the length of an inline clock and are read by nothing else; they are left out.

  Pointers into a clock are indices. \<open>get_clock_unit_by_index\<close> reproduces the bounds test of the
  header: an index above the length is the null pointer, an index equal to the length is one past the
  array, and any accepted index of an inline clock is the one unit. An array of units fresh from
  \<^verbatim>\<open>zmalloc\<close> is modelled as zero units; every operation of the file writes each slot before it reads it.
  Freeing is not modelled.
\<close>

unbundle bit_operations_syntax

subsection \<open>Units\<close>

record VectorClockUnit =
  vcu_clock :: "56 word"
  vcu_gid :: "4 word"

type_synonym clk = VectorClockUnit
type_synonym VectorClock = "clk list"

definition get_gid :: "clk \<Rightarrow> int" where
  "get_gid c = uint (vcu_gid c)"

definition set_gid :: "clk \<Rightarrow> int \<Rightarrow> clk res" where
  "set_gid c g = bindE (assertE (g < 16 \<and> g > 0)) (\<lambda>_. Inr (c\<lparr>vcu_gid := word_of_int g\<rparr>))"

definition get_logic_clock :: "clk \<Rightarrow> int" where
  "get_logic_clock c = uint (vcu_clock c)"

definition set_logic_clock :: "clk \<Rightarrow> int \<Rightarrow> clk" where
  "set_logic_clock c t = c\<lparr>vcu_clock := word_of_int t\<rparr>"

definition VCU0 :: clk where
  "VCU0 = \<lparr>vcu_clock = 0, vcu_gid = 0\<rparr>"

definition init_clock :: "int \<Rightarrow> int \<Rightarrow> clk" where
  "init_clock g t = VCU0\<lparr>vcu_gid := word_of_int g, vcu_clock := word_of_int t\<rparr>"

definition isNullVectorClockUnit :: "clk \<Rightarrow> bool" where
  "isNullVectorClockUnit u \<longleftrightarrow> vcu_clock u = 0"

definition check_gid :: "int \<Rightarrow> bool" where
  "check_gid g \<longleftrightarrow> g > 0 \<and> g < 16"

subsection \<open>Length, lookup and slots\<close>

definition get_len :: "VectorClock \<Rightarrow> nat" where
  "get_len vc = length vc"

definition isNullVectorClock :: "VectorClock \<Rightarrow> bool" where
  "isNullVectorClock vc \<longleftrightarrow> get_len vc = 0"

definition ismulti :: "VectorClock \<Rightarrow> bool" where
  "ismulti vc \<longleftrightarrow> get_len vc > 1"

definition newVectorClock :: "int \<Rightarrow> VectorClock res" where
  "newVectorClock numVcUnits =
     (if numVcUnits = 0 then Inr []
      else bindE (assertE (to_char numVcUnits < 16 \<and> to_char numVcUnits > 0))
             (\<lambda>_. Inr (replicate (nat (to_char numVcUnits)) VCU0)))"

definition get_clock_unit_by_index :: "VectorClock \<Rightarrow> nat \<Rightarrow> nat res" where
  "get_clock_unit_by_index vc i =
     (if i > get_len vc then Inl NullDeref
      else if get_len vc = 1 then Inr 0
      else if get_len vc = 0 then Inl NullDeref
      else if i = get_len vc then Inl OutOfBounds
      else Inr i)"

definition set_clock_unit_by_index :: "VectorClock \<Rightarrow> nat \<Rightarrow> clk \<Rightarrow> VectorClock res" where
  "set_clock_unit_by_index vc i c =
     bindE (get_clock_unit_by_index vc i) (\<lambda>p.
     bindE (set_gid (vc ! p) (get_gid c)) (\<lambda>u.
     Inr (vc[p := set_logic_clock u (get_logic_clock c)])))"

text \<open>The scan of \<open>get_clock_unit\<close>: the index of the first unit of the gid from \<open>i\<close> on.\<close>

fun scan_gid :: "clk list \<Rightarrow> int \<Rightarrow> nat \<Rightarrow> nat option" where
  "scan_gid [] g i = None"
| "scan_gid (c # cs) g i = (if get_gid c = g then Some i else scan_gid cs g (Suc i))"

definition get_clock_unit :: "VectorClock \<Rightarrow> int \<Rightarrow> nat option" where
  "get_clock_unit vc g =
     (if get_len vc = 1 \<and> get_gid (vc ! 0) = g then Some 0 else scan_gid vc g 0)"

definition getVectorClockUnit :: "VectorClock \<Rightarrow> int \<Rightarrow> clk" where
  "getVectorClockUnit vc g =
     (if isNullVectorClock vc then VCU0
      else case get_clock_unit vc (to_char g) of None \<Rightarrow> VCU0 | Some p \<Rightarrow> vc ! p)"

text \<open>The result of \<open>get_vcu_from_vc\<close> is the clock and the index written through the out parameter.\<close>

definition get_vcu_from_vc :: "VectorClock \<Rightarrow> int \<Rightarrow> int \<times> int" where
  "get_vcu_from_vc vc g =
     (case scan_gid vc g 0 of
        Some i \<Rightarrow> (get_logic_clock (vc ! i), int i)
      | None \<Rightarrow> (0, - 1))"

subsection \<open>Sorting, copying and adding units\<close>

definition sort_vector_clock_unit :: "clk \<Rightarrow> clk \<Rightarrow> int" where
  "sort_vector_clock_unit a b =
     (if get_gid a > get_gid b then 1 else if get_gid a = get_gid b then 0 else - 1)"

fun insort_by :: "('a \<Rightarrow> 'a \<Rightarrow> int) \<Rightarrow> 'a \<Rightarrow> 'a list \<Rightarrow> 'a list" where
  "insort_by f x [] = [x]"
| "insort_by f x (y # ys) = (if f x y \<le> 0 then x # y # ys else y # insort_by f x ys)"

text \<open>The C library's \<^verbatim>\<open>qsort\<close>, for which only the sorted rearrangement of the array matters.\<close>

fun qsort_by :: "('a \<Rightarrow> 'a \<Rightarrow> int) \<Rightarrow> 'a list \<Rightarrow> 'a list" where
  "qsort_by f [] = []"
| "qsort_by f (x # xs) = insort_by f x (qsort_by f xs)"

definition sortVectorClock :: "VectorClock \<Rightarrow> VectorClock" where
  "sortVectorClock vc = (if get_len vc = 1 then vc else qsort_by sort_vector_clock_unit vc)"

text \<open>
  The copy loops write the units of one clock into another from a slot on:
  \<open>copy_units target i units\<close> is the loop that sets slot \<open>i\<close>, \<open>i + 1\<close>, \<dots> of \<open>target\<close>.
\<close>

fun copy_units :: "VectorClock \<Rightarrow> nat \<Rightarrow> clk list \<Rightarrow> VectorClock res" where
  "copy_units target i [] = Inr target"
| "copy_units target i (c # cs) =
     bindE (set_clock_unit_by_index target i c) (\<lambda>t. copy_units t (Suc i) cs)"

definition addVectorClockUnit :: "VectorClock \<Rightarrow> int \<Rightarrow> int \<Rightarrow> VectorClock res" where
  "addVectorClockUnit vc g t =
     (case get_clock_unit vc (to_char g) of
        Some p \<Rightarrow> bindE (set_gid (vc ! p) (to_char g)) (\<lambda>u. Inr (vc[p := set_logic_clock u t]))
      | None \<Rightarrow>
          bindE (newVectorClock (int (get_len vc) + 1)) (\<lambda>target.
          bindE (copy_units target 0 vc) (\<lambda>target.
          bindE (if get_len vc < get_len target
                 then set_clock_unit_by_index target (get_len vc) (init_clock (to_char g) t)
                 else Inr target) (\<lambda>target.
          Inr (sortVectorClock target)))))"

definition dupVectorClock :: "VectorClock \<Rightarrow> VectorClock res" where
  "dupVectorClock vc =
     bindE (newVectorClock (int (get_len vc))) (\<lambda>dup.
     if get_len vc > 1 then Inr vc
     else if get_len vc = 1 then set_clock_unit_by_index dup 0 (vc ! 0)
     else Inr dup)"

definition incrLogicClock :: "VectorClock \<Rightarrow> int \<Rightarrow> int \<Rightarrow> VectorClock" where
  "incrLogicClock vc g delta =
     (case get_clock_unit vc (to_char g) of
        None \<Rightarrow> vc
      | Some p \<Rightarrow> vc[p := set_logic_clock (vc ! p) (get_logic_clock (vc ! p) + delta)])"

subsection \<open>Merging\<close>

text \<open>The bitmap of \<open>count_all_gid_num\<close> is a 32-bit word; the result is the number of gids in it.\<close>

fun count_gids :: "clk list \<Rightarrow> 32 word \<times> int \<Rightarrow> 32 word \<times> int" where
  "count_gids [] s = s"
| "count_gids (c # cs) (gid_bit_map, gid_num) =
     (let g = nat (get_gid c)
      in if drop_bit g gid_bit_map AND 1 = 0
         then count_gids cs (gid_bit_map OR push_bit g 1, gid_num + 1)
         else count_gids cs (gid_bit_map, gid_num))"

definition count_all_gid_num :: "VectorClock \<Rightarrow> VectorClock \<Rightarrow> int" where
  "count_all_gid_num dst src = snd (count_gids dst (count_gids src (0, 0)))"

datatype merge_flag = CLOCK_UNIT_MAX | CLOCK_UNIT_ALIGN

definition commonMergeFunction ::
    "VectorClock \<Rightarrow> VectorClock \<Rightarrow> int \<Rightarrow> merge_flag \<Rightarrow> VectorClock res" where
  "commonMergeFunction dst src g flag =
     (case get_clock_unit src (to_char g) of
        None \<Rightarrow> Inr dst
      | Some sp \<Rightarrow>
          (case get_clock_unit dst (to_char g) of
             None \<Rightarrow>
               bindE (newVectorClock (int (get_len dst) + 1)) (\<lambda>result.
               bindE (copy_units result 0 dst) (\<lambda>result.
               bindE (set_clock_unit_by_index result (get_len dst)
                        (init_clock (to_char g) (get_logic_clock (src ! sp)))) (\<lambda>result.
               Inr (sortVectorClock result))))
           | Some dp \<Rightarrow>
               (let logic_clock =
                      (case flag of
                         CLOCK_UNIT_MAX \<Rightarrow>
                           (if get_logic_clock (src ! sp) > get_logic_clock (dst ! dp)
                            then get_logic_clock (src ! sp) else get_logic_clock (dst ! dp))
                       | CLOCK_UNIT_ALIGN \<Rightarrow> get_logic_clock (src ! sp))
                in bindE (set_gid (dst ! dp) (to_char g)) (\<lambda>u.
                   Inr (dst[dp := set_logic_clock u logic_clock])))))"

definition mergeLogicClock :: "VectorClock \<Rightarrow> VectorClock \<Rightarrow> int \<Rightarrow> VectorClock res" where
  "mergeLogicClock dst src g = commonMergeFunction dst src g CLOCK_UNIT_MAX"

definition updateProcessVectorClock ::
    "VectorClock \<Rightarrow> VectorClock \<Rightarrow> int \<Rightarrow> int \<Rightarrow> VectorClock res" where
  "updateProcessVectorClock dst src g currentGid =
     (if g = currentGid then commonMergeFunction dst src g CLOCK_UNIT_ALIGN
      else commonMergeFunction dst src g CLOCK_UNIT_MAX)"

text \<open>
  The three loops of \<open>vectorClockMerge\<close> over the two sorted unit sequences. The sequences still to be
  read are the first two arguments; \<open>k\<close> is the next slot of \<open>target\<close>.
\<close>

fun merge_loop :: "clk list \<Rightarrow> clk list \<Rightarrow> VectorClock \<Rightarrow> nat \<Rightarrow> VectorClock res" where
  "merge_loop (a # as) (b # bs) target k =
     (if get_gid a = get_gid b then
        bindE (set_clock_unit_by_index target k
                 (init_clock (get_gid a)
                    (if get_logic_clock a > get_logic_clock b
                     then get_logic_clock a else get_logic_clock b)))
              (\<lambda>target. merge_loop as bs target (Suc k))
      else if get_gid a > get_gid b then
        bindE (set_clock_unit_by_index target k b) (\<lambda>target. merge_loop (a # as) bs target (Suc k))
      else
        bindE (set_clock_unit_by_index target k a) (\<lambda>target. merge_loop as (b # bs) target (Suc k)))"
| "merge_loop as [] target k = copy_units target k as"
| "merge_loop [] bs target k = copy_units target k bs"

text \<open>
  The result holds the merged clock and the two arguments as the call leaves them: the arrays behind
  multi-unit arguments are sorted in place.
\<close>

definition vectorClockMerge ::
    "VectorClock \<Rightarrow> VectorClock \<Rightarrow> (VectorClock \<times> VectorClock \<times> VectorClock) res" where
  "vectorClockMerge vclock1 vclock2 =
     (if isNullVectorClock vclock1 \<and> isNullVectorClock vclock2 then
        bindE (newVectorClock 0) (\<lambda>r. Inr (r, vclock1, vclock2))
      else if isNullVectorClock vclock1 then
        bindE (dupVectorClock vclock2) (\<lambda>r. Inr (r, vclock1, vclock2))
      else if isNullVectorClock vclock2 then
        bindE (dupVectorClock vclock1) (\<lambda>r. Inr (r, vclock1, vclock2))
      else
        (let gid_num = count_all_gid_num vclock1 vclock2
         in if gid_num > 1 then
              bindE (newVectorClock gid_num) (\<lambda>target.
              bindE (merge_loop (sortVectorClock vclock1) (sortVectorClock vclock2) target 0) (\<lambda>r.
              Inr (r, sortVectorClock vclock1, sortVectorClock vclock2)))
            else
              bindE (dupVectorClock vclock2) (\<lambda>target.
              let t2 = get_logic_clock (vclock2 ! 0); t1 = get_logic_clock (vclock1 ! 0)
              in Inr (target[0 := set_logic_clock (target ! 0) (if t2 > t1 then t2 else t1)],
                      vclock1, vclock2))))"

definition cleanVectorClock :: "VectorClock \<Rightarrow> VectorClock" where
  "cleanVectorClock vc = map (\<lambda>c. set_logic_clock c 0) vc"

text \<open>
  \<open>resetVectorClock\<close> takes its argument by value and the result is the caller's clock after the call:
  an array is zeroed in place, but the unit of an inline clock lies in the callee's copy of the word.
\<close>

definition resetVectorClock :: "VectorClock \<Rightarrow> VectorClock" where
  "resetVectorClock vc = (if get_len vc = 1 then vc else map (\<lambda>c. set_logic_clock c 0) vc)"

fun zero_units :: "VectorClock \<Rightarrow> nat \<Rightarrow> clk list \<Rightarrow> VectorClock res" where
  "zero_units target k [] = Inr target"
| "zero_units target k (c # cs) =
     bindE (set_clock_unit_by_index target k (init_clock (get_gid c) 0))
           (\<lambda>target. zero_units target (Suc k) cs)"

fun mergeMin_loop :: "clk list \<Rightarrow> clk list \<Rightarrow> VectorClock \<Rightarrow> nat \<Rightarrow> VectorClock res" where
  "mergeMin_loop (a # as) (b # bs) target k =
     (if get_gid a = get_gid b then
        bindE (set_clock_unit_by_index target k
                 (init_clock (get_gid a)
                    (if get_logic_clock a > get_logic_clock b
                     then get_logic_clock b else get_logic_clock a)))
              (\<lambda>target. mergeMin_loop as bs target (Suc k))
      else if get_gid a > get_gid b then
        bindE (set_clock_unit_by_index target k (init_clock (get_gid b) 0))
              (\<lambda>target. mergeMin_loop (a # as) bs target (Suc k))
      else
        bindE (set_clock_unit_by_index target k (init_clock (get_gid a) 0))
              (\<lambda>target. mergeMin_loop as (b # bs) target (Suc k)))"
| "mergeMin_loop as [] target k = zero_units target k as"
| "mergeMin_loop [] bs target k = zero_units target k bs"

definition mergeMinVectorClock ::
    "VectorClock \<Rightarrow> VectorClock \<Rightarrow> (VectorClock \<times> VectorClock \<times> VectorClock) res" where
  "mergeMinVectorClock vclock1 vclock2 =
     (if isNullVectorClock vclock1 \<and> isNullVectorClock vclock2 then
        bindE (newVectorClock 0) (\<lambda>r. Inr (r, vclock1, vclock2))
      else if isNullVectorClock vclock1 then
        bindE (dupVectorClock vclock2) (\<lambda>r. Inr (cleanVectorClock r, vclock1, vclock2))
      else if isNullVectorClock vclock2 then
        bindE (dupVectorClock vclock1) (\<lambda>r. Inr (cleanVectorClock r, vclock1, vclock2))
      else
        (let gid_nums = count_all_gid_num vclock1 vclock2
         in if gid_nums > 1 then
              bindE (newVectorClock gid_nums) (\<lambda>target.
              bindE (mergeMin_loop (sortVectorClock vclock1) (sortVectorClock vclock2) target 0) (\<lambda>r.
              Inr (r, sortVectorClock vclock1, sortVectorClock vclock2)))
            else
              bindE (dupVectorClock vclock2) (\<lambda>target.
              let t2 = get_logic_clock (vclock2 ! 0); t1 = get_logic_clock (vclock1 ! 0)
              in Inr (target[0 := set_logic_clock (target ! 0) (if t2 > t1 then t1 else t2)],
                      vclock1, vclock2))))"

subsection \<open>Comparing, projecting and purging\<close>

definition isVectorClockMonoIncr :: "VectorClock \<Rightarrow> VectorClock \<Rightarrow> bool" where
  "isVectorClockMonoIncr current future =
     (if isNullVectorClock current \<or> isNullVectorClock future then False
      else if get_len current > get_len future then False
      else list_all
             (\<lambda>vcu1. case get_clock_unit future (get_gid vcu1) of
                        None \<Rightarrow> get_logic_clock vcu1 = 0
                      | Some p \<Rightarrow> \<not> get_logic_clock (future ! p) < get_logic_clock vcu1)
             current)"

fun units_equal :: "clk list \<Rightarrow> clk list \<Rightarrow> bool" where
  "units_equal (c1 # as) (c2 # bs) =
     (if get_gid c1 \<noteq> get_gid c2 \<or> get_logic_clock c1 \<noteq> get_logic_clock c2 then False
      else units_equal as bs)"
| "units_equal _ _ = True"

definition VectorClockEqual :: "VectorClock \<Rightarrow> VectorClock \<Rightarrow> bool" where
  "VectorClockEqual a b =
     (if isNullVectorClock a then isNullVectorClock b
      else if isNullVectorClock b then False
      else if get_len a \<noteq> get_len b then False
      else units_equal a b)"

definition getMonoVectorClock :: "VectorClock \<Rightarrow> int \<Rightarrow> VectorClock res" where
  "getMonoVectorClock src g =
     bindE (newVectorClock 1) (\<lambda>dst.
     case get_clock_unit src (to_char g) of
       None \<Rightarrow> newVectorClock 0
     | Some p \<Rightarrow>
         bindE (get_clock_unit_by_index dst 0) (\<lambda>f.
         bindE (set_gid (set_logic_clock (dst ! f) (get_logic_clock (src ! p))) (get_gid (src ! p)))
               (\<lambda>u. Inr (dst[f := u]))))"

definition purge_keeps :: "VectorClock \<Rightarrow> clk \<Rightarrow> bool" where
  "purge_keeps src vcu1 =
     (case get_clock_unit src (get_gid vcu1) of
        None \<Rightarrow> get_logic_clock vcu1 \<noteq> 0
      | Some p \<Rightarrow> get_logic_clock (src ! p) < get_logic_clock vcu1)"

definition purgeVectorClock :: "VectorClock \<Rightarrow> VectorClock \<Rightarrow> VectorClock res" where
  "purgeVectorClock targe src =
     (if isNullVectorClock targe then Inr targe
      else if isNullVectorClock src then Inr targe
      else
        (let c = filter (purge_keeps src) targe
         in bindE (newVectorClock (int (length c))) (\<lambda>result.
            bindE (copy_units result 0 c) (\<lambda>result.
            Inr (sortVectorClock result)))))"

end
