(* ===== verification/Vector_Clock_Facts.thy ===== *)
theory Vector_Clock_Facts
  imports Vector_Clock
begin

section \<open>Vector clocks: well-formedness and the clock map\<close>

text \<open>
  The invariant of a vector clock (gids between 1 and 15, no gid twice), the finite map from gids to
  logic clocks a vector clock stands for, and the lemmas that turn the slot-by-slot loops of
  \<open>Vector_Clock\<close> into list equations. The theorems about the operations are in
  \<open>Vector_Clock_Lattice\<close> and \<open>Vector_Clock_Ops\<close>.
\<close>

subsection \<open>The invariant and the clock map\<close>

abbreviation gids :: "VectorClock \<Rightarrow> 4 word set" where
  "gids vc \<equiv> vcu_gid ` set vc"

definition vc_wf :: "VectorClock \<Rightarrow> bool" where
  "vc_wf vc \<longleftrightarrow> distinct (map vcu_gid vc) \<and> 0 \<notin> gids vc"

definition vc_sorted :: "VectorClock \<Rightarrow> bool" where
  "vc_sorted vc \<longleftrightarrow> sorted_wrt (\<lambda>a b. vcu_gid a < vcu_gid b) vc \<and> 0 \<notin> gids vc"

definition vc_map :: "VectorClock \<Rightarrow> 4 word \<rightharpoonup> 56 word" where
  "vc_map vc = map_of (map (\<lambda>c. (vcu_gid c, vcu_clock c)) vc)"

definition vc_time :: "VectorClock \<Rightarrow> 4 word \<Rightarrow> 56 word" where
  "vc_time vc g = (case vc_map vc g of None \<Rightarrow> 0 | Some t \<Rightarrow> t)"

lemma vc_wf_Nil [simp]: "vc_wf []"
  by (simp add: vc_wf_def)

lemma vc_wf_Cons: "vc_wf (c # cs) \<longleftrightarrow> vcu_gid c \<noteq> 0 \<and> vcu_gid c \<notin> gids cs \<and> vc_wf cs"
  by (auto simp: vc_wf_def)

lemma vc_sorted_Nil [simp]: "vc_sorted []"
  by (simp add: vc_sorted_def)

lemma vc_sorted_Cons:
  "vc_sorted (c # cs) \<longleftrightarrow> vcu_gid c \<noteq> 0 \<and> (\<forall>d \<in> set cs. vcu_gid c < vcu_gid d) \<and> vc_sorted cs"
  by (auto simp: vc_sorted_def)

lemma vc_sorted_imp_wf: "vc_sorted vc \<Longrightarrow> vc_wf vc"
  by (induction vc) (auto simp: vc_sorted_Cons vc_wf_Cons)

lemma vc_map_Nil [simp]: "vc_map [] = Map.empty"
  by (simp add: vc_map_def)

lemma vc_map_Cons [simp]: "vc_map (c # cs) = (vc_map cs)(vcu_gid c \<mapsto> vcu_clock c)"
  by (simp add: vc_map_def)

lemma dom_vc_map: "dom (vc_map vc) = gids vc"
  by (simp add: vc_map_def dom_map_of_conv_image_fst image_image)

lemma vc_map_None_iff: "vc_map vc g = None \<longleftrightarrow> g \<notin> gids vc"
  using dom_vc_map [of vc] by (auto simp: domIff)

lemma vc_map_in_set:
  "distinct (map vcu_gid vc) \<Longrightarrow> c \<in> set vc \<Longrightarrow> vc_map vc (vcu_gid c) = Some (vcu_clock c)"
  by (induction vc) (auto simp: rev_image_eqI)

lemma vc_map_perm:
  assumes "distinct (map vcu_gid xs)" and "distinct (map vcu_gid ys)" and "set xs = set ys"
  shows "vc_map xs = vc_map ys"
proof (rule ext)
  fix g
  show "vc_map xs g = vc_map ys g"
  proof (cases "g \<in> gids xs")
    case True
    then obtain c where "c \<in> set xs" "g = vcu_gid c" by auto
    with assms show ?thesis by (metis vc_map_in_set)
  next
    case False
    with assms(3) show ?thesis by (metis vc_map_None_iff)
  qed
qed

lemma length_le_15: "vc_wf vc \<Longrightarrow> length vc \<le> 15"
proof -
  assume wf: "vc_wf vc"
  then have "length vc = card (gids vc)"
    by (metis vc_wf_def distinct_card length_map set_map)
  also have "\<dots> \<le> card (UNIV - {0 :: 4 word})"
    using wf by (intro card_mono) (auto simp: vc_wf_def)
  also have "\<dots> = 15"
    by (simp add: card_Diff_singleton card_word)
  finally show ?thesis .
qed

lemma clk_eq_iff: "(c :: clk) = d \<longleftrightarrow> vcu_gid c = vcu_gid d \<and> vcu_clock c = vcu_clock d"
  by auto

lemma vc_map_empty_iff: "vc_map vc = Map.empty \<longleftrightarrow> vc = []"
  by (metis dom_eq_empty_conv dom_vc_map image_is_empty set_empty)

text \<open>A sorted clock is determined by its clock map.\<close>

lemma vc_map_Cons_hd:
  assumes "vc_sorted (a # as)" and "vc_sorted (b # bs)" and "vc_map (a # as) = vc_map (b # bs)"
  shows "a = b \<and> vc_map as = vc_map bs"
proof -
  have ga: "\<forall>d \<in> set as. vcu_gid a < vcu_gid d" and gb: "\<forall>d \<in> set bs. vcu_gid b < vcu_gid d"
    using assms by (auto simp: vc_sorted_Cons)
  have "gids (a # as) = gids (b # bs)"
    using assms(3) by (metis dom_vc_map)
  moreover have "Min (gids (a # as)) = vcu_gid a" "Min (gids (b # bs)) = vcu_gid b"
    using ga gb by (auto intro!: Min_eqI simp: less_imp_le)
  ultimately have g: "vcu_gid a = vcu_gid b" by simp
  then have "vcu_clock a = vcu_clock b"
    using fun_cong [OF assms(3), of "vcu_gid a"] by simp
  with g have ab: "a = b" by simp
  have "vcu_gid a \<notin> gids as" "vcu_gid a \<notin> gids bs"
    using ga gb g by (auto simp: image_iff)
  then have "vc_map as = vc_map bs"
    using assms(3) ab by (metis fun_upd_None_if_notin_dom dom_vc_map fun_upd_upd vc_map_Cons)
  with ab show ?thesis by simp
qed

lemma vc_sorted_unique:
  "vc_sorted xs \<Longrightarrow> vc_sorted ys \<Longrightarrow> vc_map xs = vc_map ys \<Longrightarrow> xs = ys"
proof (induction xs arbitrary: ys)
  case Nil
  then show ?case by (metis vc_map_Nil vc_map_empty_iff)
next
  case (Cons a as)
  then obtain b bs where ys: "ys = b # bs"
    by (metis list.exhaust list.distinct(1) vc_map_Nil vc_map_empty_iff)
  have ab: "a = b \<and> vc_map as = vc_map bs"
    using Cons.prems unfolding ys by (rule vc_map_Cons_hd)
  have "vc_sorted as" "vc_sorted bs"
    using Cons.prems(1,2) unfolding ys by (simp_all only: vc_sorted_Cons)
  with Cons.IH ab have "as = bs" by blast
  with ab ys show ?case by simp
qed

subsection \<open>Units\<close>

lemma get_gid_eq_iff: "get_gid c = get_gid d \<longleftrightarrow> vcu_gid c = vcu_gid d"
  by (simp add: get_gid_def word_uint_eq_iff)

lemma get_gid_less_iff: "get_gid c < get_gid d \<longleftrightarrow> vcu_gid c < vcu_gid d"
  by (simp add: get_gid_def word_less_def)

lemma get_logic_clock_less_iff: "get_logic_clock c < get_logic_clock d \<longleftrightarrow> vcu_clock c < vcu_clock d"
  by (simp add: get_logic_clock_def word_less_def)

lemma get_logic_clock_0_iff: "get_logic_clock c = 0 \<longleftrightarrow> vcu_clock c = 0"
  by (simp add: get_logic_clock_def uint_0_iff)

lemma get_gid_range: "0 \<le> get_gid c" "get_gid c < 16"
  by (simp_all add: get_gid_def uint_word4_bounds)

lemma get_gid_pos_iff: "0 < get_gid c \<longleftrightarrow> vcu_gid c \<noteq> 0"
  using get_gid_range(1) [of c] by (auto simp: get_gid_def uint_word4_pos uint_0_iff)

lemma init_clock_get [simp]:
  "init_clock (get_gid c) (get_logic_clock d) = \<lparr>vcu_clock = vcu_clock d, vcu_gid = vcu_gid c\<rparr>"
  "init_clock (get_gid c) 0 = \<lparr>vcu_clock = 0, vcu_gid = vcu_gid c\<rparr>"
  by (simp_all add: init_clock_def VCU0_def get_gid_def get_logic_clock_def)

lemma set_logic_clock_get [simp]:
  "vcu_gid (set_logic_clock c t) = vcu_gid c"
  "vcu_clock (set_logic_clock c t) = word_of_int t"
  by (simp_all add: set_logic_clock_def)

lemma set_gid_ok: "0 < g \<Longrightarrow> g < 16 \<Longrightarrow> set_gid c g = Inr (c\<lparr>vcu_gid := word_of_int g\<rparr>)"
  by (simp add: set_gid_def)

lemma set_gid_get: "vcu_gid d \<noteq> 0 \<Longrightarrow> set_gid c (get_gid d) = Inr (c\<lparr>vcu_gid := vcu_gid d\<rparr>)"
  using get_gid_pos_iff [of d] get_gid_range [of d] by (simp add: set_gid_ok) (simp add: get_gid_def)

subsection \<open>Lookup\<close>

lemma scan_gid_None: "scan_gid cs g i = None \<longleftrightarrow> (\<forall>c \<in> set cs. get_gid c \<noteq> g)"
  by (induction cs arbitrary: i) auto

lemma scan_gid_Some:
  "scan_gid cs g i = Some p \<Longrightarrow> i \<le> p \<and> p - i < length cs \<and> get_gid (cs ! (p - i)) = g"
proof (induction cs arbitrary: i)
  case Nil
  then show ?case by simp
next
  case (Cons c cs)
  show ?case
  proof (cases "get_gid c = g")
    case True
    with Cons.prems show ?thesis by simp
  next
    case False
    with Cons.prems have "scan_gid cs g (Suc i) = Some p" by simp
    from Cons.IH [OF this] have *: "Suc i \<le> p" "p - Suc i < length cs" "get_gid (cs ! (p - Suc i)) = g"
      by auto
    then have "p - i = Suc (p - Suc i)" by simp
    with * show ?thesis by simp
  qed
qed

lemma get_clock_unit_scan: "get_clock_unit vc g = scan_gid vc g 0"
  by (cases vc) (auto simp: get_clock_unit_def get_len_def)

lemma get_clock_unit_None: "get_clock_unit vc (uint w) = None \<longleftrightarrow> w \<notin> gids vc"
  by (auto simp: get_clock_unit_scan scan_gid_None get_gid_def uint_eq_iff_word)

lemma get_clock_unit_Some:
  assumes "get_clock_unit vc (uint w) = Some p"
  shows "p < length vc" and "vcu_gid (vc ! p) = w" and "w \<in> gids vc"
proof -
  from scan_gid_Some [of vc "uint w" 0 p] assms
  have *: "p < length vc" "get_gid (vc ! p) = uint w"
    by (auto simp: get_clock_unit_scan)
  show "p < length vc" by (fact *(1))
  show "vcu_gid (vc ! p) = w" using *(2) by (simp add: get_gid_def uint_eq_iff_word)
  with *(1) show "w \<in> gids vc" by (metis image_eqI nth_mem)
qed

lemma get_clock_unit_cases:
  obtains (absent) "get_clock_unit vc (uint w) = None" "w \<notin> gids vc" "vc_map vc w = None"
  | (present) p where "get_clock_unit vc (uint w) = Some p" "p < length vc" "vcu_gid (vc ! p) = w"
      "w \<in> gids vc"
  using get_clock_unit_None get_clock_unit_Some vc_map_None_iff
  by (cases "get_clock_unit vc (uint w)") (metis, metis)

lemma vc_map_nth: "vc_wf vc \<Longrightarrow> p < length vc \<Longrightarrow> vc_map vc (vcu_gid (vc ! p)) = Some (vcu_clock (vc ! p))"
  by (simp add: vc_map_in_set vc_wf_def)

lemma vc_time_nth: "vc_wf vc \<Longrightarrow> p < length vc \<Longrightarrow> vc_time vc (vcu_gid (vc ! p)) = vcu_clock (vc ! p)"
  by (simp add: vc_time_def vc_map_nth)

lemma vc_time_absent: "g \<notin> gids vc \<Longrightarrow> vc_time vc g = 0"
  by (simp add: vc_time_def vc_map_None_iff [THEN iffD2])

lemma valid_gid_word: "0 < g \<Longrightarrow> g < 16 \<Longrightarrow> uint (word_of_int g :: 4 word) = g \<and> to_char g = g"
  by (simp add: uint_word_of_int)

subsection \<open>Replacing one unit\<close>

lemma gids_update_same:
  "p < length vc \<Longrightarrow> vcu_gid c = vcu_gid (vc ! p) \<Longrightarrow> map vcu_gid (vc[p := c]) = map vcu_gid vc"
  by (metis list_update_id map_update)

lemma vc_wf_update:
  assumes "vc_wf vc" and "p < length vc" and "vcu_gid c = vcu_gid (vc ! p)"
  shows "vc_wf (vc[p := c])"
proof -
  have m: "map vcu_gid (vc[p := c]) = map vcu_gid vc"
    using assms(2,3) by (rule gids_update_same)
  then have "gids (vc[p := c]) = gids vc" by (metis set_map)
  with m assms(1) show ?thesis by (simp add: vc_wf_def)
qed

lemma vc_sorted_update:
  assumes "vc_sorted vc" and "p < length vc" and "vcu_gid c = vcu_gid (vc ! p)"
  shows "vc_sorted (vc[p := c])"
proof -
  have m: "map vcu_gid (vc[p := c]) = map vcu_gid vc"
    using assms(2,3) by (rule gids_update_same)
  then have "gids (vc[p := c]) = gids vc" by (metis set_map)
  with m assms(1) show ?thesis
    by (simp add: vc_sorted_def sorted_wrt_map [symmetric, of "(<)" vcu_gid])
qed

lemma vc_map_update:
  assumes "vc_wf vc" and "p < length vc" and "vcu_gid c = vcu_gid (vc ! p)"
  shows "vc_map (vc[p := c]) = (vc_map vc)(vcu_gid c \<mapsto> vcu_clock c)"
  using assms
proof (induction vc arbitrary: p)
  case Nil
  then show ?case by simp
next
  case (Cons d ds)
  show ?case
  proof (cases p)
    case 0
    with Cons.prems show ?thesis by (auto simp: fun_eq_iff)
  next
    case (Suc q)
    have "vcu_gid c \<in> gids ds" using Cons.prems Suc by simp
    then have "vcu_gid c \<noteq> vcu_gid d"
      using Cons.prems(1) by (auto simp: vc_wf_Cons)
    moreover have "vc_map (ds[q := c]) = (vc_map ds)(vcu_gid c \<mapsto> vcu_clock c)"
      using Cons.prems Suc by (intro Cons.IH) (simp_all add: vc_wf_Cons)
    ultimately show ?thesis using Suc by (auto simp: fun_eq_iff)
  qed
qed

subsection \<open>Sorting\<close>

lemma insort_by_unit: "insort_by sort_vector_clock_unit c cs = insort_key vcu_gid c cs"
  by (induction cs)
     (auto simp: sort_vector_clock_unit_def get_gid_def word_less_def word_le_def
           uint_eq_iff_word not_less)

lemma sortVectorClock_eq: "sortVectorClock vc = sort_key vcu_gid vc"
proof -
  have "qsort_by sort_vector_clock_unit vc = sort_key vcu_gid vc"
    by (induction vc) (simp_all add: insort_by_unit)
  moreover have "get_len vc = 1 \<Longrightarrow> sort_key vcu_gid vc = vc"
    by (cases vc) (auto simp: get_len_def)
  ultimately show ?thesis by (simp add: sortVectorClock_def)
qed

lemma set_sortVectorClock [simp]: "set (sortVectorClock vc) = set vc"
  by (simp add: sortVectorClock_eq)

lemma length_sortVectorClock [simp]: "length (sortVectorClock vc) = length vc"
  by (simp add: sortVectorClock_eq)

lemma vc_sorted_sortVectorClock: "vc_wf vc \<Longrightarrow> vc_sorted (sortVectorClock vc)"
proof -
  assume wf: "vc_wf vc"
  have "sorted (map vcu_gid (sort_key vcu_gid vc))" by simp
  moreover have "distinct (map vcu_gid (sort_key vcu_gid vc))"
    using wf by (simp add: vc_wf_def distinct_map)
  ultimately have "sorted_wrt (<) (map vcu_gid (sort_key vcu_gid vc))"
    by (simp add: strict_sorted_iff)
  with wf show ?thesis
    by (simp add: vc_sorted_def vc_wf_def sortVectorClock_eq sorted_wrt_map)
qed

lemma sortVectorClock_sorted: "vc_sorted vc \<Longrightarrow> sortVectorClock vc = vc"
proof -
  assume "vc_sorted vc"
  then have "sorted (map vcu_gid vc)"
    by (simp add: vc_sorted_def sorted_wrt_map [symmetric, of "(<)" vcu_gid] strict_sorted_iff)
  then show ?thesis by (simp add: sortVectorClock_eq sorted_sort_id sort_key_id_if_sorted)
qed

lemma vc_map_sortVectorClock [simp]: "vc_wf vc \<Longrightarrow> vc_map (sortVectorClock vc) = vc_map vc"
  using vc_sorted_sortVectorClock [of vc, THEN vc_sorted_imp_wf]
  by (intro vc_map_perm) (simp_all add: vc_wf_def)

lemma vc_wf_sortVectorClock: "vc_wf vc \<Longrightarrow> vc_wf (sortVectorClock vc)"
  by (simp add: vc_sorted_imp_wf vc_sorted_sortVectorClock)

subsection \<open>Allocation and copying\<close>

lemma newVectorClock_0 [simp]: "newVectorClock 0 = Inr []"
  by (simp add: newVectorClock_def)

lemma newVectorClock_ok:
  "0 < n \<Longrightarrow> n \<le> 15 \<Longrightarrow> newVectorClock n = Inr (replicate (nat n) VCU0)"
  by (simp add: newVectorClock_def)

lemma newVectorClock_ok0:
  "0 \<le> n \<Longrightarrow> n \<le> 15 \<Longrightarrow> newVectorClock n = Inr (replicate (nat n) VCU0)"
  by (cases "n = 0") (simp_all add: newVectorClock_ok)

lemma get_clock_unit_by_index_ok: "i < length vc \<Longrightarrow> get_clock_unit_by_index vc i = Inr i"
  by (auto simp: get_clock_unit_by_index_def get_len_def)

lemma set_clock_unit_by_index_ok:
  "i < length vc \<Longrightarrow> vcu_gid c \<noteq> 0 \<Longrightarrow> set_clock_unit_by_index vc i c = Inr (vc[i := c])"
  by (cases "vc ! i"; cases c) (simp add: set_clock_unit_by_index_def get_clock_unit_by_index_ok
      set_gid_get set_logic_clock_def get_logic_clock_def)

lemma copy_units_ok:
  assumes "k + length cs \<le> length target" and "0 \<notin> gids cs"
  shows "copy_units target k cs = Inr (take k target @ cs @ drop (k + length cs) target)"
  using assms
proof (induction cs arbitrary: target k)
  case Nil
  then show ?case by simp
next
  case (Cons c cs)
  have "copy_units target k (c # cs) = copy_units (target[k := c]) (Suc k) cs"
    using Cons.prems by (simp add: set_clock_unit_by_index_ok)
  also have "\<dots> = Inr (take (Suc k) (target[k := c]) @ cs @ drop (Suc k + length cs) (target[k := c]))"
    using Cons by simp
  also have "take (Suc k) (target[k := c]) = take k target @ [c]"
    using Cons.prems by (simp add: take_Suc_conv_app_nth take_update_cancel)
  finally show ?case by simp
qed

lemma copy_units_fill:
  "length cs = length target \<Longrightarrow> 0 \<notin> gids cs \<Longrightarrow> copy_units target 0 cs = Inr cs"
  by (simp add: copy_units_ok)

lemma dupVectorClock_ok: "vc_wf vc \<Longrightarrow> dupVectorClock vc = Inr vc"
proof -
  assume wf: "vc_wf vc"
  then have l: "length vc \<le> 15" by (rule length_le_15)
  show ?thesis
  proof (cases "length vc = 1")
    case True
    then obtain c where "vc = [c]" by (auto simp: length_Suc_conv)
    with wf show ?thesis
      by (simp add: dupVectorClock_def get_len_def newVectorClock_ok set_clock_unit_by_index_ok
          vc_wf_Cons)
  next
    case False
    with l show ?thesis
      by (cases vc) (simp_all add: dupVectorClock_def get_len_def newVectorClock_ok)
  qed
qed

text \<open>
  The shared tail of \<open>addVectorClockUnit\<close> and \<open>commonMergeFunction\<close>: allocate one more unit, copy,
  set the last slot and sort.
\<close>

definition grown :: "VectorClock \<Rightarrow> clk \<Rightarrow> VectorClock" where
  "grown vc c = sortVectorClock (vc @ [c])"

lemma grow_ok:
  assumes "vc_wf vc" and "vcu_gid c \<noteq> 0" and "vcu_gid c \<notin> gids vc"
  shows "bindE (newVectorClock (int (get_len vc) + 1)) (\<lambda>target.
         bindE (copy_units target 0 vc) (\<lambda>target.
         bindE (set_clock_unit_by_index target (get_len vc) c) (\<lambda>target.
         Inr (sortVectorClock target)))) = Inr (grown vc c)"
proof -
  have "vc_wf (c # vc)" using assms by (simp add: vc_wf_Cons)
  then have l: "length vc < 15" using length_le_15 [of "c # vc"] by simp
  have "newVectorClock (int (get_len vc) + 1) = Inr (replicate (length vc + 1) VCU0)"
    using l by (simp add: newVectorClock_ok get_len_def nat_add_distrib)
  moreover have "replicate (length vc + 1) VCU0 = replicate (length vc) VCU0 @ [VCU0]"
    by (simp add: replicate_append_same)
  moreover have "copy_units (replicate (length vc) VCU0 @ [VCU0]) 0 vc = Inr (vc @ [VCU0])"
    using assms(1) copy_units_ok [of 0 vc "replicate (length vc) VCU0 @ [VCU0]"]
    by (simp add: vc_wf_def)
  ultimately show ?thesis
    using assms(2) by (simp add: get_len_def set_clock_unit_by_index_ok grown_def del: replicate_Suc)
qed

lemma grown_facts:
  assumes "vc_wf vc" and "vcu_gid c \<noteq> 0" and "vcu_gid c \<notin> gids vc"
  shows "vc_sorted (grown vc c)" and "vc_map (grown vc c) = (vc_map vc)(vcu_gid c \<mapsto> vcu_clock c)"
proof -
  have wf: "vc_wf (vc @ [c])" using assms by (auto simp: vc_wf_def)
  then show "vc_sorted (grown vc c)" by (simp add: grown_def vc_sorted_sortVectorClock)
  have "vc_map (grown vc c) = vc_map (vc @ [c])" using wf by (simp add: grown_def)
  also have "\<dots> = vc_map (c # vc)"
    using wf assms by (intro vc_map_perm) (auto simp: vc_wf_def)
  finally show "vc_map (grown vc c) = (vc_map vc)(vcu_gid c \<mapsto> vcu_clock c)" by simp
qed

subsection \<open>Counting gids\<close>

lemma bit_gid_bit_map: "drop_bit g (m :: 32 word) AND 1 = 0 \<longleftrightarrow> \<not> bit m g"
  by (simp add: bit_iff_odd_drop_bit and_one_eq odd_iff_mod_2_eq_one flip: even_iff_mod_2_eq_zero)

lemma bit_or_push: "g < 16 \<Longrightarrow> bit ((m :: 32 word) OR 2 ^ g) n \<longleftrightarrow> bit m n \<or> n = g"
  by (auto simp: bit_or_iff bit_exp_iff)

lemma count_gids_snd:
  assumes "\<And>g. g < 16 \<Longrightarrow> bit m g \<longleftrightarrow> word_of_nat g \<in> S" and "finite S"
  shows "\<exists>m'. count_gids cs (m, n) = (m', n + int (card (gids cs - S)))
             \<and> (\<forall>g < 16. bit m' g \<longleftrightarrow> word_of_nat g \<in> S \<union> gids cs)"
  using assms
proof (induction cs arbitrary: m n S)
  case Nil
  then show ?case by auto
next
  case (Cons c cs)
  define g where "g = nat (get_gid c)"
  have g: "g < 16" "word_of_nat g = vcu_gid c"
    using get_gid_range [of c] by (simp_all add: g_def nat_less_iff) (simp add: get_gid_def)
  have inj: "\<And>k. k < 16 \<Longrightarrow> (word_of_nat k :: 4 word) = vcu_gid c \<longleftrightarrow> k = g"
    using g(1) unfolding g(2) [symmetric] by (simp add: word_of_nat_eq_iff take_bit_nat_eq_self)
  show ?case
  proof (cases "bit m g")
    case True
    then have "vcu_gid c \<in> S" using Cons.prems(1) g by metis
    then have "gids (c # cs) - S = gids cs - S" "S \<union> gids (c # cs) = S \<union> gids cs" by auto
    with Cons.IH [OF Cons.prems, of n] True show ?thesis
      by (simp add: Let_def bit_gid_bit_map flip: g_def)
  next
    case False
    then have notin: "vcu_gid c \<notin> S" using Cons.prems(1) g by metis
    let ?S = "insert (vcu_gid c) S"
    have bits: "\<And>k. k < 16 \<Longrightarrow> bit (m OR 2 ^ g) k \<longleftrightarrow> word_of_nat k \<in> ?S"
      using Cons.prems(1) inj g by (auto simp: bit_or_push)
    obtain m' where m': "count_gids cs (m OR 2 ^ g, n + 1)
          = (m', n + 1 + int (card (gids cs - ?S)))"
        "\<forall>k < 16. bit m' k \<longleftrightarrow> word_of_nat k \<in> ?S \<union> gids cs"
      using Cons.IH [of "m OR 2 ^ g" ?S "n + 1"] bits Cons.prems(2) by blast
    have "gids (c # cs) - S = insert (vcu_gid c) (gids cs - ?S)" using notin by auto
    then have "card (gids (c # cs) - S) = Suc (card (gids cs - ?S))" by simp
    with m' False show ?thesis
      by (simp add: Let_def bit_gid_bit_map flip: g_def)
  qed
qed

lemma count_all_gid_num_card: "count_all_gid_num dst src = int (card (gids dst \<union> gids src))"
proof -
  obtain m where m: "count_gids src (0, 0) = (m, int (card (gids src)))"
      "\<forall>g < 16. bit m g \<longleftrightarrow> word_of_nat g \<in> gids src"
    using count_gids_snd [of 0 "{}" src 0] by auto
  obtain m' where "count_gids dst (m, int (card (gids src)))
      = (m', int (card (gids src)) + int (card (gids dst - gids src)))"
    using count_gids_snd [of m "gids src" dst "int (card (gids src))"] m(2) by auto
  moreover have "card (gids dst \<union> gids src) = card (gids src) + card (gids dst - gids src)"
    using card_Un_disjoint [of "gids src" "gids dst - gids src"] by (simp add: Un_commute)
  ultimately show ?thesis using m(1) by (simp add: count_all_gid_num_def)
qed

end
