(* ===== verification/Num_Text.thy ===== *)
theory Num_Text
  imports Crdt_Prelude
begin

section \<open>Integers as decimal text\<close>

text \<open>
  The integer conversions of \<^verbatim>\<open>src/src/util.c\<close> (\<open>digits10\<close>, \<open>sdigits10\<close>, \<open>ll2string\<close>, \<open>string2ll\<close>,
  \<open>string2l\<close>) and \<open>lllen\<close> of \<^verbatim>\<open>src/src/ctrip_vector_clock.c\<close>, against the reference rendering \<open>show_nat\<close> and
  \<open>show_int\<close>. A \<^verbatim>\<open>long long\<close> is an \<open>int\<close> between \<open>LLONG_MIN\<close> and \<open>LLONG_MAX\<close>; the unsigned
  intermediate values never leave the range of \<^verbatim>\<open>unsigned long long\<close>, which the overflow tests of the
  source ensure. A buffer is a list of characters, a byte string a \<open>string\<close>.
\<close>

subsection \<open>Reference rendering\<close>

definition digit_char :: "nat \<Rightarrow> char" where
  "digit_char d = char_of (48 + d)"

fun show_nat :: "nat \<Rightarrow> string" where
  "show_nat n = (if n < 10 then [digit_char n] else show_nat (n div 10) @ [digit_char (n mod 10)])"

declare show_nat.simps [simp del]

definition show_int :: "int \<Rightarrow> string" where
  "show_int i = (if i < 0 then CHR ''-'' # show_nat (nat (- i)) else show_nat (nat i))"

subsection \<open>Counting digits\<close>

function digits10 :: "nat \<Rightarrow> nat" where
  "digits10 v =
     (if v < 10 then 1
      else if v < 100 then 2
      else if v < 1000 then 3
      else if v < 1000000000000 then
        (if v < 100000000 then
           (if v < 1000000 then
              (if v < 10000 then 4 else 5 + of_bool (v \<ge> 100000))
            else 7 + of_bool (v \<ge> 10000000))
         else if v < 10000000000 then 9 + of_bool (v \<ge> 1000000000)
         else 11 + of_bool (v \<ge> 100000000000))
      else 12 + digits10 (v div 1000000000000))"
  by pat_completeness auto
termination
  by (relation "measure id") auto

declare digits10.simps [simp del]

definition sdigits10 :: "int \<Rightarrow> nat" where
  "sdigits10 v =
     (if v < 0 then digits10 (if v \<noteq> LLONG_MIN then nat (- v) else nat LLONG_MAX + 1) + 1
      else digits10 (nat v))"

text \<open>The digit loop of \<open>lllen\<close>; C division truncates, and the argument is not negative here.\<close>

fun lllen_loop :: "nat \<Rightarrow> nat \<Rightarrow> nat" where
  "lllen_loop v len = (if v div 10 = 0 then len + 1 else lllen_loop (v div 10) (len + 1))"

declare lllen_loop.simps [simp del]

definition lllen :: "int \<Rightarrow> nat" where
  "lllen v = (if v < 0 then lllen_loop (nat (- v)) 1 else lllen_loop (nat v) 0)"

subsection \<open>Printing\<close>

definition digits_table :: string where
  "digits_table =
     ''0001020304050607080910111213141516171819'' @
     ''2021222324252627282930313233343536373839'' @
     ''4041424344454647484950515253545556575859'' @
     ''6061626364656667686970717273747576777879'' @
     ''8081828384858687888990919293949596979899''"

fun ll2string_loop :: "nat \<Rightarrow> nat \<Rightarrow> string \<Rightarrow> nat \<times> nat \<times> string" where
  "ll2string_loop value next dst =
     (if value \<ge> 100 then
        (let i = (value mod 100) * 2
         in ll2string_loop (value div 100) (next - 2)
              (dst[next := digits_table ! (i + 1), next - 1 := digits_table ! i]))
      else (value, next, dst))"

declare ll2string_loop.simps [simp del]

text \<open>
  \<open>ll2string dst svalue\<close> is the buffer and the return value after the call on a buffer \<open>dst\<close>, whose
  length is the argument \<^verbatim>\<open>dstlen\<close>. Index \<open>length\<close> receives the terminating zero byte.
\<close>

definition ll2string :: "string \<Rightarrow> int \<Rightarrow> string \<times> nat" where
  "ll2string dst svalue =
     (let negative = svalue < 0;
          value = (if svalue < 0
                   then (if svalue \<noteq> LLONG_MIN then nat (- svalue) else nat LLONG_MAX + 1)
                   else nat svalue);
          len = digits10 value + of_bool negative
      in if len \<ge> length dst then (dst, 0)
         else
           (let dst = dst[len := CHR 0x00];
                (value, next, dst) = ll2string_loop value (len - 1) dst;
                dst = (if value < 10 then dst[next := char_of (48 + value)]
                       else dst[next := digits_table ! (value * 2 + 1),
                                next - 1 := digits_table ! (value * 2)]);
                dst = (if negative then dst[0 := CHR ''-''] else dst)
            in (dst, len)))"

subsection \<open>Parsing\<close>

definition digit_in :: "nat \<Rightarrow> char \<Rightarrow> bool" where
  "digit_in lo c \<longleftrightarrow> lo + 48 \<le> (of_char c :: nat) \<and> (of_char c :: nat) \<le> 57"

abbreviation digit_val :: "char \<Rightarrow> nat" where
  "digit_val c \<equiv> of_char c - 48"

fun string2ll_loop :: "string \<Rightarrow> nat \<Rightarrow> (nat \<times> string) option" where
  "string2ll_loop [] v = Some (v, [])"
| "string2ll_loop (c # p) v =
     (if digit_in 0 c then
        (if v > nat ULLONG_MAX div 10 then None
         else if v * 10 > nat ULLONG_MAX - digit_val c then None
         else string2ll_loop p (v * 10 + digit_val c))
      else Some (v, c # p))"

definition string2ll :: "string \<Rightarrow> int option" where
  "string2ll s =
     (case s of
        [] \<Rightarrow> None
      | c0 # s' \<Rightarrow>
          if length s = 1 \<and> c0 = CHR ''0'' then Some 0
          else
            (let negative = (c0 = CHR ''-''); p = (if negative then s' else s)
             in case p of
                  [] \<Rightarrow> None
                | c # p' \<Rightarrow>
                    if digit_in 1 c then
                      (case string2ll_loop p' (digit_val c) of
                         None \<Rightarrow> None
                       | Some (v, rest) \<Rightarrow>
                           if rest \<noteq> [] then None
                           else if negative then
                             (if v > nat (- (LLONG_MIN + 1)) + 1 then None else Some (- int v))
                           else if v > nat LLONG_MAX then None else Some (int v))
                    else if c = CHR ''0'' \<and> length s = 1 then Some 0
                    else None))"

text \<open>On the supported platforms \<^verbatim>\<open>long\<close> and \<^verbatim>\<open>long long\<close> have the same range.\<close>

definition string2l :: "string \<Rightarrow> int option" where
  "string2l s =
     (case string2ll s of
        None \<Rightarrow> None
      | Some llval \<Rightarrow> if llval < LLONG_MIN \<or> llval > LLONG_MAX then None else Some llval)"

subsection \<open>Lengths of decimal renderings\<close>

lemma show_nat_small: "n < 10 \<Longrightarrow> show_nat n = [digit_char n]"
  by (simp add: show_nat.simps)

lemma show_nat_large: "10 \<le> n \<Longrightarrow> show_nat n = show_nat (n div 10) @ [digit_char (n mod 10)]"
  by (subst show_nat.simps) simp

lemma show_nat_nonempty [simp]: "show_nat n \<noteq> []"
  by (subst show_nat.simps) simp

lemma length_show_nat_le: "n < 10 ^ k \<Longrightarrow> 0 < k \<Longrightarrow> length (show_nat n) \<le> k"
proof (induction k arbitrary: n)
  case 0
  then show ?case by simp
next
  case (Suc k)
  show ?case
  proof (cases "n < 10")
    case True
    then show ?thesis by (simp add: show_nat_small)
  next
    case False
    then have "0 < k" using Suc.prems(1) by (cases k) simp_all
    moreover have "n div 10 < 10 ^ k" using Suc.prems(1) by (simp add: div_less_iff_less_mult mult.commute)
    ultimately show ?thesis using Suc.IH False by (simp add: show_nat_large)
  qed
qed

lemma pow10_Suc_le: "10 ^ Suc k \<le> (n :: nat) \<Longrightarrow> 10 \<le> n"
proof -
  assume "10 ^ Suc k \<le> n"
  moreover have "10 * 1 \<le> 10 * (10 :: nat) ^ k" by (intro mult_le_mono2 one_le_power) simp
  ultimately show ?thesis unfolding power_Suc by linarith
qed

lemma length_show_nat_ge: "10 ^ k \<le> n \<Longrightarrow> k < length (show_nat n)"
proof (induction k arbitrary: n)
  case 0
  then show ?case by simp
next
  case (Suc k)
  from Suc.prems have n: "10 \<le> n" by (rule pow10_Suc_le)
  have "10 ^ k \<le> n div 10" using Suc.prems by (simp add: less_eq_div_iff_mult_less_eq mult.commute)
  with Suc.IH n show ?case by (simp add: show_nat_large)
qed

lemma length_show_nat_eq: "10 ^ k \<le> n \<Longrightarrow> n < 10 ^ Suc k \<Longrightarrow> length (show_nat n) = Suc k"
  using length_show_nat_le [of n "Suc k"] length_show_nat_ge [of k n] by simp

lemma length_show_nat_div: "10 ^ k \<le> n \<Longrightarrow> length (show_nat n) = k + length (show_nat (n div 10 ^ k))"
proof (induction k arbitrary: n)
  case 0
  then show ?case by simp
next
  case (Suc k)
  from Suc.prems have n: "10 \<le> n" by (rule pow10_Suc_le)
  have "10 ^ k \<le> n div 10" using Suc.prems by (simp add: less_eq_div_iff_mult_less_eq mult.commute)
  then show ?case
    using Suc.IH [of "n div 10"] n by (simp add: show_nat_large div_mult2_eq)
qed

lemmas length_show_nat_range =
  length_show_nat_eq [of 1, simplified] length_show_nat_eq [of 2, simplified]
  length_show_nat_eq [of 3, simplified] length_show_nat_eq [of 4, simplified]
  length_show_nat_eq [of 5, simplified] length_show_nat_eq [of 6, simplified]
  length_show_nat_eq [of 7, simplified] length_show_nat_eq [of 8, simplified]
  length_show_nat_eq [of 9, simplified] length_show_nat_eq [of 10, simplified]
  length_show_nat_eq [of 11, simplified]

lemma digits10_length: "digits10 v = length (show_nat v)"
proof (induction v rule: digits10.induct)
  case (1 v)
  show ?case
  proof (cases "v < 1000000000000")
    case True
    then show ?thesis
      by (subst digits10.simps)
         (simp add: of_bool_def not_less not_le show_nat_small length_show_nat_range)
  next
    case False
    then have "digits10 v = 12 + length (show_nat (v div 1000000000000))"
      using 1 by (subst digits10.simps) simp
    with False length_show_nat_div [of 12 v] show ?thesis by simp
  qed
qed

lemma sdigits10_length: "LLONG_MIN \<le> v \<Longrightarrow> sdigits10 v = length (show_int v)"
  by (auto simp: sdigits10_def show_int_def digits10_length)

lemma lllen_loop_length: "lllen_loop v len = len + length (show_nat v)"
proof (induction v arbitrary: len rule: show_nat.induct)
  case (1 v)
  show ?case
  proof (cases "v < 10")
    case True
    then show ?thesis by (subst lllen_loop.simps) (simp add: show_nat_small)
  next
    case False
    then have "v div 10 \<noteq> 0" by simp
    with False 1 show ?thesis by (subst lllen_loop.simps) (simp add: show_nat_large)
  qed
qed

lemma lllen_length: "lllen v = length (show_int v)"
  by (simp add: lllen_def show_int_def lllen_loop_length)

subsection \<open>Printing is the reference rendering\<close>

lemma digits_table_nth:
  assumes "i < 100"
  shows "digits_table ! (i * 2) = digit_char (i div 10)"
    and "digits_table ! (i * 2 + 1) = digit_char (i mod 10)"
proof -
  have "list_all (\<lambda>i. digits_table ! (i * 2) = digit_char (i div 10)
                  \<and> digits_table ! (i * 2 + 1) = digit_char (i mod 10)) [0..<100]"
    by code_simp
  with assms show "digits_table ! (i * 2) = digit_char (i div 10)"
    and "digits_table ! (i * 2 + 1) = digit_char (i mod 10)"
    by (auto simp: list_all_iff)
qed

lemma show_nat_100:
  assumes "100 \<le> n"
  shows "show_nat n = show_nat (n div 100) @ [digit_char (n mod 100 div 10), digit_char (n mod 100 mod 10)]"
proof -
  have "n div 10 div 10 = n div 100" "n div 10 mod 10 = n mod 100 div 10" "n mod 100 mod 10 = n mod 10"
    using div_mult2_eq [of n 10 10] mod_mult2_eq [of n 10 10] by simp_all
  moreover have "10 \<le> n div 10" using assms by simp
  ultimately show ?thesis
    using assms by (simp add: show_nat_large [of n] show_nat_large [of "n div 10"])
qed

definition ll2string_tail :: "nat \<times> nat \<times> string \<Rightarrow> string" where
  "ll2string_tail =
     (\<lambda>(value, next, dst).
        if value < 10 then dst[next := char_of (48 + value)]
        else dst[next := digits_table ! (value * 2 + 1), next - 1 := digits_table ! (value * 2)])"

lemma update_two:
  assumes "0 < e" and "e < length d"
  shows "d[e := y, e - Suc 0 := x] = take (e - Suc 0) d @ x # y # drop (Suc e) d"
proof -
  obtain k where e: "e = Suc k" using assms(1) by (cases e) auto
  with assms(2) have "d = take k d @ d ! k # d ! Suc k # drop (Suc (Suc k)) d"
    by (simp add: Cons_nth_drop_Suc)
  then have "d[e := y, e - Suc 0 := x]
      = (take k d @ d ! k # d ! Suc k # drop (Suc (Suc k)) d)[Suc k := y, k := x]"
    using e by simp
  also have "\<dots> = take k d @ x # y # drop (Suc (Suc k)) d"
    using assms(2) e by (simp add: list_update_append)
  finally show ?thesis using e by simp
qed

lemma ll2string_writes:
  assumes "length (show_nat n) \<le> Suc e" and "e < length dst"
  shows "ll2string_tail (ll2string_loop n e dst)
       = take (Suc e - length (show_nat n)) dst @ show_nat n @ drop (Suc e) dst"
  using assms
proof (induction n e dst rule: ll2string_loop.induct)
  case (1 n e dst)
  show ?case
  proof (cases "100 \<le> n")
    case True
    let ?i = "n mod 100 * 2"
    let ?x = "digit_char (n mod 100 div 10)" and ?y = "digit_char (n mod 100 mod 10)"
    have len: "length (show_nat n) = length (show_nat (n div 100)) + 2"
      using True by (simp add: show_nat_100)
    have e: "2 \<le> e" using "1.prems"(1) len by (cases "show_nat (n div 100)") auto
    let ?d = "take (e - 1) dst @ ?x # ?y # drop (Suc e) dst"
    have d: "dst[e := digits_table ! (?i + 1), e - 1 := digits_table ! ?i] = ?d"
      using e "1.prems"(2) digits_table_nth [of "n mod 100"] by (simp add: update_two)
    have "ll2string_tail (ll2string_loop n e dst) = ll2string_tail (ll2string_loop (n div 100) (e - 2) ?d)"
      using True d by (subst ll2string_loop.simps) (simp add: Let_def)
    also have "\<dots> = take (Suc (e - 2) - length (show_nat (n div 100))) ?d
        @ show_nat (n div 100) @ drop (Suc (e - 2)) ?d"
      using "1.IH" [OF True refl] d len e "1.prems" by simp
    also have "drop (Suc (e - 2)) ?d = ?x # ?y # drop (Suc e) dst"
      using e "1.prems"(2) by (simp add: Suc_diff_Suc numeral_2_eq_2)
    also have "take (Suc (e - 2) - length (show_nat (n div 100))) ?d
        = take (Suc e - length (show_nat n)) dst"
      using len e "1.prems" by (simp add: Suc_diff_le min_absorb2)
    finally show ?thesis using True by (simp add: show_nat_100)
  next
    case False
    then have l: "ll2string_loop n e dst = (n, e, dst)" by (subst ll2string_loop.simps) simp
    show ?thesis
    proof (cases "n < 10")
      case True
      then show ?thesis
        using l "1.prems" by (simp add: ll2string_tail_def show_nat_small digit_char_def upd_conv_take_nth_drop)
    next
      case n10: False
      then have sn: "show_nat n = [digit_char (n div 10), digit_char (n mod 10)]"
        using False by (simp add: show_nat_large show_nat_small)
      with l n10 False "1.prems" digits_table_nth [of n] show ?thesis
        by (simp add: ll2string_tail_def update_two)
    qed
  qed
qed

lemma ll2string_small:
  "length dst \<le> length (show_int v) \<Longrightarrow> LLONG_MIN \<le> v \<Longrightarrow> ll2string dst v = (dst, 0)"
  by (auto simp: ll2string_def show_int_def digits10_length Let_def)

lemma ll2string_body:
  assumes "length (show_nat n) + k < length dst"
  shows "ll2string_tail (ll2string_loop n (length (show_nat n) + k - Suc 0)
           (dst[length (show_nat n) + k := z]))
       = take k dst @ show_nat n @ z # drop (Suc (length (show_nat n) + k)) dst"
proof -
  let ?m = "length (show_nat n)"
  have "0 < ?m" by simp
  then have "ll2string_tail (ll2string_loop n (?m + k - Suc 0) (dst[?m + k := z]))
      = take k (dst[?m + k := z]) @ show_nat n @ drop (?m + k) (dst[?m + k := z])"
    using ll2string_writes [of n "?m + k - 1" "dst[?m + k := z]"] assms by simp
  moreover have "drop (?m + k) (dst[?m + k := z]) = z # drop (Suc (?m + k)) dst"
    using assms by (simp add: drop_update_swap flip: Cons_nth_drop_Suc)
  ultimately show ?thesis by simp
qed

lemma ll2string_writes_int:
  assumes "length (show_int v) < length dst" and "LLONG_MIN \<le> v"
  shows "ll2string dst v
       = (show_int v @ CHR 0x00 # drop (Suc (length (show_int v))) dst, length (show_int v))"
proof (cases "v < 0")
  case True
  then have "(if v \<noteq> LLONG_MIN then nat (- v) else nat LLONG_MAX + 1) = nat (- v)" by simp
  moreover have "take (Suc 0) dst \<noteq> []" using assms(1) by auto
  ultimately show ?thesis
    using True assms(1) ll2string_body [of "nat (- v)" 1 dst "CHR 0x00"]
    by (auto simp: ll2string_def Let_def digits10_length show_int_def ll2string_tail_def
        case_prod_unfold neq_Nil_conv split: if_splits)
next
  case False
  then show ?thesis
    using assms(1) ll2string_body [of "nat v" 0 dst "CHR 0x00"]
    by (auto simp: ll2string_def Let_def digits10_length show_int_def ll2string_tail_def
        case_prod_unfold split: if_splits)
qed

subsection \<open>Parsing inverts printing, and nothing else parses\<close>

definition num_of :: "nat \<Rightarrow> string \<Rightarrow> nat" where
  "num_of = foldl (\<lambda>v c. v * 10 + digit_val c)"

lemma num_of_simps [simp]:
  "num_of v [] = v" "num_of v (c # p) = num_of (v * 10 + digit_val c) p"
  "num_of v (p @ [c]) = num_of v p * 10 + digit_val c"
  by (simp_all add: num_of_def)

lemma num_of_ge: "v \<le> num_of v p"
proof (induction p arbitrary: v)
  case (Cons c p)
  have "v \<le> v * 10 + digit_val c" by simp
  also have "\<dots> \<le> num_of (v * 10 + digit_val c) p" by (rule Cons.IH)
  finally show ?case by simp
qed simp

lemma digit_val_le: "digit_in lo c \<Longrightarrow> digit_val c \<le> 9"
  unfolding digit_in_def by linarith

lemma string2ll_loop_iff:
  assumes "v \<le> nat ULLONG_MAX"
  shows "string2ll_loop p v = Some (w, []) \<longleftrightarrow>
           (\<forall>c \<in> set p. digit_in 0 c) \<and> w = num_of v p \<and> w \<le> nat ULLONG_MAX"
  using assms
proof (induction p arbitrary: v)
  case Nil
  then show ?case by auto
next
  case (Cons c p)
  have d: "digit_in 0 c \<Longrightarrow> digit_val c \<le> 9" by (rule digit_val_le)
  let ?ok = "v \<le> nat ULLONG_MAX div 10 \<and> v * 10 \<le> nat ULLONG_MAX - digit_val c"
  have ok: "digit_in 0 c \<Longrightarrow> ?ok \<longleftrightarrow> v * 10 + digit_val c \<le> nat ULLONG_MAX"
    using d by linarith
  show ?case
  proof (cases "digit_in 0 c \<and> ?ok")
    case True
    then show ?thesis using Cons.IH [of "v * 10 + digit_val c"] ok by (simp add: not_less)
  next
    case False
    then show ?thesis
      using ok num_of_ge [of "v * 10 + digit_val c" p] by (auto simp: not_less)
  qed
qed

lemma of_char_digit_char: "d < 10 \<Longrightarrow> (of_char (digit_char d) :: nat) = 48 + d"
  by (simp add: digit_char_def of_char_of)

lemma digit_in_digit_char: "d < 10 \<Longrightarrow> digit_in lo (digit_char d) \<longleftrightarrow> lo \<le> d"
  by (simp add: digit_in_def of_char_digit_char)

lemma digit_in_mono: "digit_in lo c \<Longrightarrow> lo' \<le> lo \<Longrightarrow> digit_in lo' c"
  by (auto simp: digit_in_def)

lemma digit_char_val: "digit_in 0 c \<Longrightarrow> digit_char (digit_val c) = c"
  by (simp add: digit_in_def digit_char_def)

lemma show_nat_snoc: "0 < v \<Longrightarrow> d < 10 \<Longrightarrow> show_nat (v * 10 + d) = show_nat v @ [digit_char d]"
  by (simp add: show_nat_large)

lemma num_of_show_nat: "\<exists>c p. show_nat n = c # p \<and> num_of (digit_val c) p = n
    \<and> (\<forall>c \<in> set p. digit_in 0 c) \<and> digit_in 0 c \<and> (0 < n \<longrightarrow> digit_in 1 c)"
proof (induction n rule: show_nat.induct)
  case (1 n)
  show ?case
  proof (cases "n < 10")
    case True
    then show ?thesis by (simp add: show_nat_small of_char_digit_char digit_in_digit_char)
  next
    case False
    then obtain c p where cp: "show_nat (n div 10) = c # p" "num_of (digit_val c) p = n div 10"
        "\<forall>c \<in> set p. digit_in 0 c" "digit_in 0 c" "digit_in 1 c"
      using 1 by auto
    moreover have "digit_val (digit_char (n mod 10)) = n mod 10" by (simp add: of_char_digit_char)
    ultimately show ?thesis
      using False by (simp add: show_nat_large digit_in_digit_char)
  qed
qed

lemma num_of_pos: "digit_in 1 c \<Longrightarrow> 0 < num_of (digit_val c) p"
  using num_of_ge [of "digit_val c" p] unfolding digit_in_def by linarith

lemma show_nat_num_of:
  assumes "digit_in 1 c" and "\<forall>c \<in> set p. digit_in 0 c"
  shows "show_nat (num_of (digit_val c) p) = c # p"
  using assms(2)
proof (induction p rule: rev_induct)
  case Nil
  then show ?case
    using assms(1) digit_val_le [OF assms(1)]
    by (simp add: show_nat_small digit_char_val digit_in_mono [of 1 c 0])
next
  case (snoc d p)
  have "0 < num_of (digit_val c) p" using assms(1) by (rule num_of_pos)
  moreover have "digit_val d < 10" using digit_val_le [of 0 d] snoc.prems by simp
  moreover have "digit_char (digit_val d) = d" using snoc.prems by (simp add: digit_char_val)
  ultimately show ?case using snoc by (simp only: num_of_simps show_nat_snoc) simp
qed

lemma show_int_ne: "show_int v \<noteq> []"
  using num_of_show_nat [of "nat v"] by (auto simp: show_int_def)

lemma show_nat_digits: "c \<in> set (show_nat n) \<Longrightarrow> digit_in 0 c"
  using num_of_show_nat [of n] by auto

lemma show_int_digits: "0 \<le> v \<Longrightarrow> c \<in> set (show_int v) \<Longrightarrow> digit_in 0 c"
  by (simp add: show_int_def show_nat_digits)

lemma digit_char_0: "digit_char 0 = CHR ''0''"
  by code_simp

lemma digit_in_minus: "\<not> digit_in lo (CHR ''-'')"
  by (simp add: digit_in_def)

lemma string2ll_show_int:
  assumes "LLONG_MIN \<le> v" and "v \<le> LLONG_MAX"
  shows "string2ll (show_int v) = Some v"
proof (cases "v = 0")
  case True
  then show ?thesis by (simp add: show_int_def show_nat_small string2ll_def digit_char_0)
next
  case False
  define n where "n = nat \<bar>v\<bar>"
  obtain c p where cp: "show_nat n = c # p" "num_of (digit_val c) p = n"
      "\<forall>c \<in> set p. digit_in 0 c" "digit_in 1 c"
    using num_of_show_nat [of n] False by (auto simp: n_def)
  have "digit_val c \<le> nat ULLONG_MAX" using digit_val_le [OF cp(4)] by simp
  moreover have "n \<le> nat ULLONG_MAX" using assms by (simp add: n_def)
  ultimately have loop: "string2ll_loop p (digit_val c) = Some (n, [])"
    using cp by (simp add: string2ll_loop_iff)
  have "c \<noteq> CHR ''0''" "c \<noteq> CHR ''-''" using cp(4) by (auto simp: digit_in_def)
  with cp(1,4) loop assms False show ?thesis
    by (cases "v < 0") (auto simp: show_int_def string2ll_def Let_def n_def nat_le_eq_zle)
qed

lemma string2ll_Some:
  assumes "string2ll s = Some v"
  shows "LLONG_MIN \<le> v \<and> v \<le> LLONG_MAX \<and> s = show_int v"
proof -
  obtain c0 s' where s: "s = c0 # s'" using assms by (cases s) (auto simp: string2ll_def)
  show ?thesis
  proof (cases "s = ''0''")
    case True
    then show ?thesis using assms by (simp add: string2ll_def show_int_def show_nat_small digit_char_0)
  next
    case False
    define p where "p = (if c0 = CHR ''-'' then s' else s)"
    obtain c p' w where cp: "p = c # p'" "digit_in 1 c" "string2ll_loop p' (digit_val c) = Some (w, [])"
        "v = (if c0 = CHR ''-'' then - int w else int w)"
        "if c0 = CHR ''-'' then int w \<le> 9223372036854775808 else int w \<le> LLONG_MAX"
      using assms False s
      by (auto simp: string2ll_def Let_def p_def split: list.splits if_splits option.splits prod.splits)
    have "digit_val c \<le> nat ULLONG_MAX" using digit_val_le [OF cp(2)] by simp
    with cp(3) have w: "w = num_of (digit_val c) p'" "\<forall>c \<in> set p'. digit_in 0 c"
      by (simp_all add: string2ll_loop_iff)
    have sn: "show_nat w = p" using show_nat_num_of [OF cp(2) w(2)] cp(1) w(1) by simp
    have "0 < w" using num_of_pos [OF cp(2)] w(1) by simp
    with sn cp(4,5) s show ?thesis by (auto simp: show_int_def p_def split: if_splits)
  qed
qed

lemma string2ll_iff:
  "string2ll s = Some v \<longleftrightarrow> LLONG_MIN \<le> v \<and> v \<le> LLONG_MAX \<and> s = show_int v"
  using string2ll_show_int string2ll_Some by blast

subsection \<open>Properties\<close>

text \<open>
  C30. \<open>string2ll\<close> accepts exactly the canonical decimal form of the 64-bit signed integers: no spaces,
  no plus sign, no leading zero, no minus zero, nothing out of range, and it returns the value printed.
\<close>

theorem string2ll_accepts_exactly:
  "string2ll s = Some v \<longleftrightarrow> LLONG_MIN \<le> v \<and> v \<le> LLONG_MAX \<and> s = show_int v"
  by (rule string2ll_iff)

text \<open>
  C31. On a buffer with room for the digits and the terminator, \<open>ll2string\<close> writes the decimal form and
  a zero byte, leaves the rest of the buffer alone and returns the number of characters, which is
  \<open>sdigits10\<close>; \<open>string2ll\<close> reads the written prefix back as the same number.
\<close>

theorem ll2string_string2ll:
  assumes "LLONG_MIN \<le> v" and "v \<le> LLONG_MAX" and "sdigits10 v < length dst"
  shows "ll2string dst v
           = (show_int v @ CHR 0x00 # drop (Suc (length (show_int v))) dst, sdigits10 v)
       \<and> string2ll (take (snd (ll2string dst v)) (fst (ll2string dst v))) = Some v"
  using assms ll2string_writes_int [of v dst]
  by (simp add: sdigits10_length string2ll_show_int)

theorem ll2string_string2ll_witness:
  "string2ll (take (snd (ll2string ''??????????'' (- 1305))) (fst (ll2string ''??????????'' (- 1305))))
     = Some (- 1305)"
proof -
  have "sdigits10 (- 1305) < length ''??????????''"
    by (simp add: sdigits10_def digits10.simps)
  then show ?thesis
    by (intro ll2string_string2ll [THEN conjunct2]) simp_all
qed

end
