(* ===== verification/Sds_Strings.thy ===== *)
theory Sds_Strings
  imports Crdt_Prelude
begin

section \<open>Dynamic strings\<close>

text \<open>
  The text operations of \<^verbatim>\<open>src/src/sds.c\<close>: trimming, ranges, case folding, comparison, splitting and
  joining, and the quoted form that \<open>sdscatrepr\<close> writes and \<open>sdssplitargs\<close> reads. An \<^verbatim>\<open>sds\<close> string is a
  list of bytes; its length header, capacity and terminating zero byte are representation. A zero
  terminated C string is the list of the bytes before the terminator. Allocation does not fail.
\<close>

definition strchr :: "string \<Rightarrow> char \<Rightarrow> bool" where
  "strchr cset c \<longleftrightarrow> c \<in> set cset \<or> c = CHR 0x00"

subsection \<open>Trimming and ranges\<close>

text \<open>The second loop of \<open>sdstrim\<close> drops bytes at the end while more than one byte is left.\<close>

function trim_back :: "(char \<Rightarrow> bool) \<Rightarrow> string \<Rightarrow> string" where
  "trim_back p s = (if length s > 1 \<and> p (last s) then trim_back p (butlast s) else s)"
  by pat_completeness auto
termination
  by (relation "measure (\<lambda>(p, s). length s)") auto

declare trim_back.simps [simp del]

definition sdstrim :: "string \<Rightarrow> string \<Rightarrow> string" where
  "sdstrim s cset = trim_back (strchr cset) (dropWhile (strchr cset) s)"

definition sdsrange :: "string \<Rightarrow> int \<Rightarrow> int \<Rightarrow> string" where
  "sdsrange s start end1 =
     (let len = int (length s)
      in if len = 0 then s
         else
           (let start = (if start < 0 then (if len + start < 0 then 0 else len + start) else start);
                end1 = (if end1 < 0 then (if len + end1 < 0 then 0 else len + end1) else end1);
                newlen = (if start > end1 then 0 else end1 - start + 1);
                (start, newlen) =
                  (if newlen \<noteq> 0 then
                     (if start \<ge> len then (start, 0)
                      else if end1 \<ge> len then
                        (start, if start > len - 1 then 0 else len - 1 - start + 1)
                      else (start, newlen))
                   else (0, newlen))
            in take (nat newlen) (if start \<noteq> 0 \<and> newlen \<noteq> 0 then drop (nat start) s else s)))"

subsection \<open>Case and comparison\<close>

definition c_tolower :: "char \<Rightarrow> char" where
  "c_tolower c = (let n = of_char c :: nat in if 65 \<le> n \<and> n \<le> 90 then char_of (n + 32) else c)"

definition c_toupper :: "char \<Rightarrow> char" where
  "c_toupper c = (let n = of_char c :: nat in if 97 \<le> n \<and> n \<le> 122 then char_of (n - 32) else c)"

definition sdstolower :: "string \<Rightarrow> string" where
  "sdstolower s = map c_tolower s"

definition sdstoupper :: "string \<Rightarrow> string" where
  "sdstoupper s = map c_toupper s"

text \<open>\<^verbatim>\<open>memcmp\<close> on as many bytes as both lists have: the sign of the first difference.\<close>

fun memcmp :: "string \<Rightarrow> string \<Rightarrow> int" where
  "memcmp (a # as) (b # bs) =
     (let x = of_char a :: nat; y = of_char b in if x < y then - 1 else if y < x then 1 else memcmp as bs)"
| "memcmp _ _ = 0"

definition sdscmp :: "string \<Rightarrow> string \<Rightarrow> int" where
  "sdscmp s1 s2 =
     (let l1 = length s1; l2 = length s2; minlen = (if l1 < l2 then l1 else l2);
          cmp = memcmp (take minlen s1) (take minlen s2)
      in if cmp = 0 then (if l1 > l2 then 1 else if l1 < l2 then - 1 else 0) else cmp)"

subsection \<open>Splitting and joining\<close>

text \<open>
  The loop of \<open>sdssplitlen\<close> at position \<open>j\<close>: \<open>cur\<close> holds the bytes between \<open>start\<close> and \<open>j\<close>, \<open>rest\<close> those
  from \<open>j\<close> on. The loop stops where fewer than \<open>seplen\<close> bytes are left and the remainder joins the
  last token.
\<close>

function split_loop :: "string \<Rightarrow> string \<Rightarrow> string \<Rightarrow> string list" where
  "split_loop sep cur rest =
     (if sep = [] \<or> length rest < length sep then [cur @ rest]
      else if take (length sep) rest = sep then cur # split_loop sep [] (drop (length sep) rest)
      else split_loop sep (cur @ [hd rest]) (tl rest))"
  by pat_completeness auto
termination
  by (relation "measure (\<lambda>(sep, cur, rest). length rest)")
     (auto simp: Suc_le_eq simp flip: length_greater_0_conv)

declare split_loop.simps [simp del]

definition sdssplitlen :: "string \<Rightarrow> string \<Rightarrow> string list option" where
  "sdssplitlen s sep =
     (if length sep < 1 then None
      else if length s = 0 then Some []
      else Some (split_loop sep [] s))"

fun sdsjoinsds :: "string list \<Rightarrow> string \<Rightarrow> string" where
  "sdsjoinsds [] sep = []"
| "sdsjoinsds [x] sep = x"
| "sdsjoinsds (x # y # xs) sep = x @ sep @ sdsjoinsds (y # xs) sep"

fun mapchar :: "string \<Rightarrow> string \<Rightarrow> char \<Rightarrow> char" where
  "mapchar (f # from1) (t # to) c = (if c = f then t else mapchar from1 to c)"
| "mapchar _ _ c = c"

definition sdsmapchars :: "string \<Rightarrow> string \<Rightarrow> string \<Rightarrow> string" where
  "sdsmapchars s from1 to = map (mapchar from1 to) s"

subsection \<open>Quoted representation\<close>

definition isspace :: "char \<Rightarrow> bool" where
  "isspace c \<longleftrightarrow> c = CHR '' '' \<or> (9 \<le> (of_char c :: nat) \<and> (of_char c :: nat) \<le> 13)"

definition isprint :: "char \<Rightarrow> bool" where
  "isprint c \<longleftrightarrow> 32 \<le> (of_char c :: nat) \<and> (of_char c :: nat) \<le> 126"

text \<open>One digit of the \<^verbatim>\<open>%02x\<close> conversion of \<^verbatim>\<open>printf\<close>.\<close>

definition hex_char :: "nat \<Rightarrow> char" where
  "hex_char n = (if n < 10 then char_of (48 + n) else char_of (87 + n))"

definition repr_char :: "char \<Rightarrow> string" where
  "repr_char c =
     (if c = CHR 0x5C \<or> c = CHR 0x22 then [CHR 0x5C, c]
      else if c = CHR 0x0A then [CHR 0x5C, CHR ''n'']
      else if c = CHR 0x0D then [CHR 0x5C, CHR ''r'']
      else if c = CHR 0x09 then [CHR 0x5C, CHR ''t'']
      else if c = CHR 0x07 then [CHR 0x5C, CHR ''a'']
      else if c = CHR 0x08 then [CHR 0x5C, CHR ''b'']
      else if isprint c then [c]
      else [CHR 0x5C, CHR ''x'', hex_char (of_char c div 16), hex_char (of_char c mod 16)])"

definition sdscatrepr :: "string \<Rightarrow> string \<Rightarrow> string" where
  "sdscatrepr s p = s @ [CHR 0x22] @ concat (map repr_char p) @ [CHR 0x22]"

definition is_hex_digit :: "char \<Rightarrow> bool" where
  "is_hex_digit c \<longleftrightarrow>
     (let n = of_char c :: nat
      in (48 \<le> n \<and> n \<le> 57) \<or> (97 \<le> n \<and> n \<le> 102) \<or> (65 \<le> n \<and> n \<le> 70))"

definition hex_digit_to_int :: "char \<Rightarrow> nat" where
  "hex_digit_to_int c =
     (let n = of_char c :: nat
      in if 48 \<le> n \<and> n \<le> 57 then n - 48
         else if 97 \<le> n \<and> n \<le> 102 then n - 87
         else if 65 \<le> n \<and> n \<le> 70 then n - 55
         else 0)"

definition unescape :: "char \<Rightarrow> char" where
  "unescape c =
     (if c = CHR ''n'' then CHR 0x0A else if c = CHR ''r'' then CHR 0x0D
      else if c = CHR ''t'' then CHR 0x09 else if c = CHR ''b'' then CHR 0x08
      else if c = CHR ''a'' then CHR 0x07 else c)"

text \<open>A closing quote must be followed by a space or by the end of the line.\<close>

definition closes :: "string \<Rightarrow> bool" where
  "closes p \<longleftrightarrow> (case p of [] \<Rightarrow> True | c # _ \<Rightarrow> isspace c)"

datatype quoting = NoQuote | InQuote | InSingle

text \<open>
  The inner loop of \<open>sdssplitargs\<close> reads one token: the result is the token and the line after it, or
  none on an error. \<open>current\<close> is the token so far.
\<close>

fun get_token :: "quoting \<Rightarrow> string \<Rightarrow> string \<Rightarrow> (string \<times> string) option" where
  "get_token InQuote current p =
     (case p of
        [] \<Rightarrow> None
      | c # p1 \<Rightarrow>
          if c = CHR 0x5C then
            (case p1 of
               [] \<Rightarrow> get_token InQuote (current @ [c]) []
             | e # p2 \<Rightarrow>
                 (case p2 of
                    h1 # h2 # p4 \<Rightarrow>
                      if e = CHR ''x'' \<and> is_hex_digit h1 \<and> is_hex_digit h2
                      then get_token InQuote
                             (current @ [char_of (hex_digit_to_int h1 * 16 + hex_digit_to_int h2)]) p4
                      else get_token InQuote (current @ [unescape e]) p2
                  | _ \<Rightarrow> get_token InQuote (current @ [unescape e]) p2))
          else if c = CHR 0x22 then (if closes p1 then Some (current, p1) else None)
          else get_token InQuote (current @ [c]) p1)"
| "get_token InSingle current p =
     (case p of
        [] \<Rightarrow> None
      | c # p1 \<Rightarrow>
          if c = CHR 0x5C \<and> p1 \<noteq> [] \<and> hd p1 = CHR 0x27
          then get_token InSingle (current @ [CHR 0x27]) (tl p1)
          else if c = CHR 0x27 then (if closes p1 then Some (current, p1) else None)
          else get_token InSingle (current @ [c]) p1)"
| "get_token NoQuote current p =
     (case p of
        [] \<Rightarrow> Some (current, [])
      | c # p1 \<Rightarrow>
          if c = CHR '' '' \<or> c = CHR 0x0A \<or> c = CHR 0x0D \<or> c = CHR 0x09 then Some (current, p1)
          else if c = CHR 0x22 then get_token InQuote current p1
          else if c = CHR 0x27 then get_token InSingle current p1
          else get_token NoQuote (current @ [c]) p1)"

declare get_token.simps [simp del]

lemma get_token_length: "get_token q current p = Some (t, r) \<Longrightarrow> length r \<le> length p - 1"
proof (induction "length p" arbitrary: q current p rule: less_induct)
  case less
  have IH: "length r \<le> length p - 1"
    if "get_token q' c' p' = Some (t, r)" "length p' < length p" for q' c' p'
    using less.hyps [OF that(2,1)] that(2) by linarith
  show ?case
  proof (cases q)
    case InQuote
    then show ?thesis
      using less.prems
      by (auto simp: get_token.simps(1) [of current p] split: list.splits if_splits dest!: IH)
  next
    case InSingle
    then show ?thesis
      using less.prems
      by (auto simp: get_token.simps(2) [of current p] split: list.splits if_splits dest!: IH)
  next
    case NoQuote
    then show ?thesis
      using less.prems
      by (auto simp: get_token.simps(3) [of current p] split: list.splits if_splits dest!: IH)
  qed
qed

function splitargs_loop :: "string list \<Rightarrow> string \<Rightarrow> string list option" where
  "splitargs_loop vector p =
     (case dropWhile isspace p of
        [] \<Rightarrow> Some vector
      | c # p1 \<Rightarrow>
          (case get_token NoQuote [] (c # p1) of
             None \<Rightarrow> None
           | Some (t, r) \<Rightarrow> splitargs_loop (vector @ [t]) r))"
  by pat_completeness auto
termination
proof (relation "measure (\<lambda>(v, p). length p)")
  fix vector p c p1 a t r
  assume "dropWhile isspace p = c # p1" and "get_token NoQuote [] (c # p1) = Some a" and "(t, r) = a"
  then show "((vector @ [t], r), vector, p) \<in> measure (\<lambda>(v, p). length p)"
    using get_token_length [of NoQuote "[]" "c # p1" t r] length_dropWhile_le [of isspace p] by auto
qed simp

declare splitargs_loop.simps [simp del]

definition sdssplitargs :: "string \<Rightarrow> string list option" where
  "sdssplitargs line = splitargs_loop [] (takeWhile (\<lambda>c. c \<noteq> CHR 0x00) line)"

subsection \<open>Splitting and joining are inverse\<close>

lemma split_loop_ne: "split_loop sep cur rest \<noteq> []"
proof (induction sep cur rest rule: split_loop.induct)
  case (1 sep cur rest)
  then show ?case by (subst split_loop.simps) simp
qed

lemma sdsjoinsds_Cons: "xs \<noteq> [] \<Longrightarrow> sdsjoinsds (x # xs) sep = x @ sep @ sdsjoinsds xs sep"
  by (cases xs) simp_all

lemma join_split_loop: "sdsjoinsds (split_loop sep cur rest) sep = cur @ rest"
proof (induction sep cur rest rule: split_loop.induct)
  case (1 sep cur rest)
  show ?case
  proof (cases "sep = [] \<or> length rest < length sep")
    case True
    then show ?thesis by (subst split_loop.simps) simp
  next
    case False
    note F = this
    show ?thesis
    proof (cases "take (length sep) rest = sep")
      case True
      have "sep @ drop (length sep) rest = rest" using append_take_drop_id [of "length sep" rest] True by simp
      with 1(1) F True show ?thesis
        by (subst split_loop.simps) (simp add: sdsjoinsds_Cons split_loop_ne)
    next
      case False
      have "hd rest # tl rest = rest" using F by (cases rest) auto
      with 1(2) F False show ?thesis by (subst split_loop.simps) simp
    qed
  qed
qed

text \<open>With a separator of one byte no token contains it, and joining such tokens is undone exactly.\<close>

fun split1 :: "char \<Rightarrow> string \<Rightarrow> string \<Rightarrow> string list" where
  "split1 d cur [] = [cur]"
| "split1 d cur (c # cs) = (if c = d then cur # split1 d [] cs else split1 d (cur @ [c]) cs)"

lemma split_loop_one: "split_loop [d] cur rest = split1 d cur rest"
proof (induction rest arbitrary: cur)
  case Nil
  then show ?case by (subst split_loop.simps) simp
next
  case (Cons c cs)
  then show ?case by (subst split_loop.simps) simp
qed

lemma split1_no_sep: "d \<notin> set cur \<Longrightarrow> t \<in> set (split1 d cur rest) \<Longrightarrow> d \<notin> set t"
  by (induction d cur rest rule: split1.induct) (auto split: if_splits)

lemma split1_append: "d \<notin> set x \<Longrightarrow> split1 d cur (x @ rest) = split1 d (cur @ x) rest"
  by (induction x arbitrary: cur) auto

lemma split1_join:
  assumes "xs \<noteq> []" and "\<forall>x \<in> set xs. d \<notin> set x"
  shows "split1 d [] (sdsjoinsds xs [d]) = xs"
  using assms
proof (induction xs rule: induct_list012)
  case (2 x)
  then show ?case using split1_append [of d x "[]" "[]"] by simp
next
  case (3 x y xs)
  then show ?case using split1_append [of d x "[]"] by simp
qed simp

subsection \<open>The quoted form is read back\<close>

lemma of_char_less: "of_char c < (256 :: nat)"
  using of_char_mod_256 [of c, where 'a = nat] mod_less_divisor [of 256 "of_char c"] by simp

lemma hex_char_digits:
  assumes "n < 16"
  shows "is_hex_digit (hex_char n)" "hex_digit_to_int (hex_char n) = n"
  using assms by (auto simp: is_hex_digit_def hex_digit_to_int_def hex_char_def Let_def)

lemma hex_byte: "char_of ((of_char c div 16) * 16 + of_char c mod 16 :: nat) = c"
  by (simp add: div_mult_mod_eq)

lemma get_token_repr_char: "get_token InQuote cur (repr_char c @ p) = get_token InQuote (cur @ [c]) p"
proof -
  have "get_token InQuote cur (CHR 0x5C # e # p) = get_token InQuote (cur @ [unescape e]) p"
    if "e \<noteq> CHR ''x''" for e
    using that by (subst get_token.simps) (simp split: list.splits)
  note esc = this
  have hex: "get_token InQuote cur (CHR 0x5C # CHR ''x'' # hex_char a # hex_char b # p)
      = get_token InQuote (cur @ [char_of (a * 16 + b)]) p" if "a < 16" "b < 16" for a b
    using that by (subst get_token.simps) (simp add: hex_char_digits)
  have plain: "get_token InQuote cur (c # p) = get_token InQuote (cur @ [c]) p"
    if "c \<noteq> CHR 0x5C" "c \<noteq> CHR 0x22"
    using that by (subst get_token.simps) simp
  have "of_char c div 16 < (16 :: nat)" using of_char_less [of c] by linarith
  with hex [of "of_char c div 16" "of_char c mod 16"] hex_byte [of c] plain show ?thesis
    by (auto simp: repr_char_def esc unescape_def)
qed

lemma get_token_repr:
  "closes r \<Longrightarrow> get_token InQuote cur (concat (map repr_char s) @ CHR 0x22 # r) = Some (cur @ s, r)"
proof (induction s arbitrary: cur)
  case Nil
  then show ?case by (subst get_token.simps) simp
next
  case (Cons c s)
  then show ?case by (simp add: get_token_repr_char)
qed

lemma splitargs_loop_space: "isspace c \<Longrightarrow> splitargs_loop v (c # p) = splitargs_loop v p"
  by (subst (1 2) splitargs_loop.simps) simp

lemma splitargs_loop_step:
  assumes "closes r"
  shows "splitargs_loop v (sdscatrepr [] x @ r) = splitargs_loop (v @ [x]) r"
proof -
  have "get_token NoQuote [] (sdscatrepr [] x @ r) = Some (x, r)"
    using get_token_repr [OF assms, of "[]" x] by (subst get_token.simps) (simp add: sdscatrepr_def)
  moreover have "dropWhile isspace (sdscatrepr [] x @ r) = sdscatrepr [] x @ r"
    by (simp add: sdscatrepr_def isspace_def)
  moreover have "sdscatrepr [] x @ r = CHR 0x22 # tl (sdscatrepr [] x @ r)"
    by (simp add: sdscatrepr_def)
  ultimately show ?thesis
    by (subst splitargs_loop.simps) (metis (no_types, lifting) list.simps(5) option.simps(5) case_prod_conv)
qed

lemma splitargs_loop_repr:
  "splitargs_loop v (sdsjoinsds (map (sdscatrepr []) args) '' '') = Some (v @ args)"
proof (induction args arbitrary: v rule: induct_list012)
  case 1
  then show ?case by (subst splitargs_loop.simps) simp
next
  case (2 x)
  then show ?case
    using splitargs_loop_step [of "[]" v x] by (simp add: closes_def splitargs_loop.simps [of _ "[]"])
next
  case (3 x y xs)
  let ?rest = "sdsjoinsds (map (sdscatrepr []) (y # xs)) '' ''"
  have "splitargs_loop v (sdscatrepr [] x @ CHR '' '' # ?rest) = splitargs_loop (v @ [x]) (CHR '' '' # ?rest)"
    by (rule splitargs_loop_step) (simp add: closes_def isspace_def)
  then show ?case
    using "3.IH"(2) [of "v @ [x]"] splitargs_loop_space [of "CHR '' ''"] by (simp add: isspace_def)
qed

lemma repr_no_nul: "CHR 0x00 \<notin> set (sdscatrepr [] s)"
proof -
  have hex: "CHR 0x00 \<noteq> hex_char n" if "n < 16" for n
  proof
    assume "CHR 0x00 = hex_char n"
    then have "is_hex_digit (CHR 0x00)" using hex_char_digits(1) [OF that] by simp
    then show False by (simp add: is_hex_digit_def)
  qed
  have "CHR 0x00 \<notin> set (repr_char c)" for c
  proof -
    have "of_char c div 16 < (16 :: nat)" using of_char_less [of c] by linarith
    then show ?thesis
      using hex [of "of_char c div 16"] hex [of "of_char c mod 16"]
      by (cases "c = CHR 0x00") (simp_all add: repr_char_def isprint_def)
  qed
  then show ?thesis by (auto simp: sdscatrepr_def)
qed

lemma set_sdsjoinsds: "set (sdsjoinsds xs sep) \<subseteq> \<Union> (set ` set xs) \<union> set sep"
  by (induction xs sep rule: sdsjoinsds.induct) auto

subsection \<open>Properties\<close>

text \<open>
  C28. Every list of byte strings survives quoting: writing each with \<open>sdscatrepr\<close>, joining with blanks
  and reading the line with \<open>sdssplitargs\<close> gives the list back, whatever bytes the strings hold.
\<close>

theorem sdssplitargs_sdscatrepr:
  "sdssplitargs (sdsjoinsds (map (sdscatrepr []) args) '' '') = Some args"
proof -
  let ?line = "sdsjoinsds (map (sdscatrepr []) args) '' ''"
  have "CHR 0x00 \<notin> set ?line"
    using set_sdsjoinsds [of "map (sdscatrepr []) args" "'' ''"] repr_no_nul by auto
  then have "takeWhile (\<lambda>c. c \<noteq> CHR 0x00) ?line = ?line" by (auto simp: takeWhile_eq_all_conv)
  then show ?thesis by (simp only: sdssplitargs_def splitargs_loop_repr append_Nil)
qed

text \<open>
  \<open>sdssplitlen\<close> and \<open>sdsjoinsds\<close> are inverse: the tokens of a non-empty string joined with the
  separator give the string back, and for a one-byte separator splitting a join of tokens without that
  byte gives exactly those tokens.
\<close>

theorem sdssplitlen_sdsjoinsds:
  "(s \<noteq> [] \<longrightarrow> sep \<noteq> [] \<longrightarrow> (\<exists>ts. sdssplitlen s sep = Some ts \<and> sdsjoinsds ts sep = s))
   \<and> (xs \<noteq> [] \<longrightarrow> xs \<noteq> [[]] \<longrightarrow> (\<forall>x \<in> set xs. d \<notin> set x) \<longrightarrow> sdssplitlen (sdsjoinsds xs [d]) [d] = Some xs)"
proof -
  have "sdsjoinsds xs [d] \<noteq> []" if "xs \<noteq> []" "xs \<noteq> [[]]"
    using that by (cases "(xs, [d])" rule: sdsjoinsds.cases) auto
  then show ?thesis
    using split1_join [of xs d]
    by (auto simp: sdssplitlen_def join_split_loop split_loop_one Suc_le_eq)
qed

theorem sdssplitlen_sdsjoinsds_witness:
  "(\<exists>ts. sdssplitlen ''1:5;2:7'' '';'' = Some ts \<and> sdsjoinsds ts '';'' = ''1:5;2:7'')
   \<and> sdssplitlen (sdsjoinsds [''1:5'', ''2:7''] '';'') '';'' = Some [''1:5'', ''2:7'']"
  using sdssplitlen_sdsjoinsds [of "''1:5;2:7''" "'';''" "[''1:5'', ''2:7'']" "CHR '';''"] by simp

lemma sdscmp_Cons:
  "sdscmp (x # as) (y # bs) =
     (if of_char x < (of_char y :: nat) then - 1
      else if of_char y < (of_char x :: nat) then 1 else sdscmp as bs)"
  by (simp add: sdscmp_def Let_def)

lemma sdscmp_order:
  "(sdscmp a b = 0 \<longleftrightarrow> a = b)
   \<and> (sdscmp a b < 0 \<longleftrightarrow> (a, b) \<in> lexord {(x, y). of_char x < (of_char y :: nat)})
   \<and> sdscmp b a = - sdscmp a b"
proof (induction a arbitrary: b)
  case Nil
  then show ?case by (cases b) (simp_all add: sdscmp_def)
next
  case (Cons x as)
  show ?case
  proof (cases b)
    case Nil
    then show ?thesis by (simp add: sdscmp_def)
  next
    case (Cons y bs)
    then show ?thesis
      using Cons.IH [of bs] of_char_eq_iff [of x y, where 'a = nat] by (auto simp: sdscmp_Cons)
  qed
qed

text \<open>\<open>sdscmp\<close> is the lexicographic order of unsigned bytes: it is 0 exactly on equal strings,
  negative exactly when the first string comes first, and exchanging the arguments negates it.\<close>

theorem sdscmp_lexicographic:
  "(sdscmp a b = 0 \<longleftrightarrow> a = b)
   \<and> (sdscmp a b < 0 \<longleftrightarrow> (a, b) \<in> lexord {(x, y). of_char x < (of_char y :: nat)})
   \<and> sdscmp b a = - sdscmp a b"
  by (rule sdscmp_order)

lemma sdsrange_take_drop:
  "sdsrange s i j =
     (let n = int (length s); idx = (\<lambda>k. if k < 0 then max 0 (n + k) else k)
      in take (nat (idx j - idx i + 1)) (drop (nat (idx i)) s))"
  by (auto simp: sdsrange_def Let_def max_def split: if_splits)

text \<open>\<open>sdsrange\<close> keeps exactly the bytes between the two inclusive indices, a negative index
  counting from the end and being cut off at 0, whatever the indices are.\<close>

theorem sdsrange_slice:
  "sdsrange s i j =
     (let n = int (length s); idx = (\<lambda>k. if k < 0 then max 0 (n + k) else k)
      in take (nat (idx j - idx i + 1)) (drop (nat (idx i)) s))"
  by (rule sdsrange_take_drop)

lemma trim_back_decomp:
  "\<exists>b. s = trim_back p s @ b \<and> (\<forall>c \<in> set b. p c)
       \<and> (length (trim_back p s) > 1 \<longrightarrow> \<not> p (last (trim_back p s)))
       \<and> (s \<noteq> [] \<longrightarrow> trim_back p s \<noteq> [] \<and> hd (trim_back p s) = hd s)"
proof (induction p s rule: trim_back.induct)
  case (1 p s)
  show ?case
  proof (cases "length s > 1 \<and> p (last s)")
    case True
    with 1 obtain b where b: "butlast s = trim_back p (butlast s) @ b" "\<forall>c \<in> set b. p c"
        "length (trim_back p (butlast s)) > 1 \<longrightarrow> \<not> p (last (trim_back p (butlast s)))"
        "butlast s \<noteq> [] \<longrightarrow> trim_back p (butlast s) \<noteq> [] \<and> hd (trim_back p (butlast s)) = hd (butlast s)"
      by blast
    have "s = butlast s @ [last s]" using True by (cases s rule: rev_cases) auto
    with b(1) have s: "s = trim_back p (butlast s) @ b @ [last s]" by (metis append.assoc)
    have t: "trim_back p s = trim_back p (butlast s)" using True by (subst trim_back.simps) simp
    have "butlast s \<noteq> []" "hd (butlast s) = hd s"
      using True by (cases s rule: rev_cases; auto)+
    with b t True s show ?thesis by (intro exI [of _ "b @ [last s]"]) auto
  next
    case False
    then have "trim_back p s = s" by (subst trim_back.simps) (simp only: if_False)
    with False show ?thesis by auto
  qed
qed

text \<open>\<open>sdstrim\<close> removes bytes of the set (and zero bytes) from both ends, and only those: the
  result is empty or starts and ends with a byte that is not in the set.\<close>

theorem sdstrim_ends:
  "\<exists>a b. s = a @ sdstrim s cset @ b \<and> (\<forall>c \<in> set (a @ b). strchr cset c)
     \<and> (sdstrim s cset = []
        \<or> \<not> strchr cset (hd (sdstrim s cset)) \<and> \<not> strchr cset (last (sdstrim s cset)))"
proof -
  let ?p = "strchr cset" and ?d = "dropWhile (strchr cset) s"
  obtain b where b: "?d = trim_back ?p ?d @ b" "\<forall>c \<in> set b. ?p c"
      "length (trim_back ?p ?d) > 1 \<longrightarrow> \<not> ?p (last (trim_back ?p ?d))"
      "?d \<noteq> [] \<longrightarrow> trim_back ?p ?d \<noteq> [] \<and> hd (trim_back ?p ?d) = hd ?d"
    using trim_back_decomp [of ?d ?p] by blast
  have "?d \<noteq> [] \<longrightarrow> \<not> ?p (hd ?d)" using hd_dropWhile by blast
  moreover have "t \<noteq> [] \<longrightarrow> \<not> 1 < length t \<longrightarrow> last t = hd t" for t :: string
    by (cases t) auto
  ultimately have "trim_back ?p ?d = [] \<or> \<not> ?p (hd (trim_back ?p ?d)) \<and> \<not> ?p (last (trim_back ?p ?d))"
    using b by (metis append_Nil2 append_is_Nil_conv)
  moreover have "s = takeWhile ?p s @ trim_back ?p ?d @ b"
    using b(1) takeWhile_dropWhile_id [of ?p s] by metis
  moreover have "\<forall>c \<in> set (takeWhile ?p s @ b). ?p c" using b(2) set_takeWhileD by fastforce
  ultimately show ?thesis unfolding sdstrim_def by blast
qed

theorem sdstrim_ends_witness:
  "\<exists>a b. ''--a-b-'' = a @ sdstrim ''--a-b-'' ''-'' @ b \<and> (\<forall>c \<in> set (a @ b). strchr ''-'' c)"
  using sdstrim_ends [of "''--a-b-''" "''-''"] by blast

end
