(* ===== verification/Vector_Clock_Text.thy ===== *)
theory Vector_Clock_Text
  imports Vector_Clock_Facts Num_Text Sds_Strings
begin

section \<open>Vector clocks as text\<close>

text \<open>
  The conversions of \<^verbatim>\<open>src/src/ctrip_vector_clock.c\<close> between a clock and its text form
  \<^verbatim>\<open>gid:clock;gid:clock\<close>: one pair of functions on dynamic strings and one on C strings that tokenises
  in place with \<^verbatim>\<open>strtok\<close>. A number that does not parse leaves the local variable that should receive it
  unset, which is the fault \<open>UninitRead\<close> of the model; writing more tokens than the token array holds is
  \<open>OutOfBounds\<close>.
\<close>

subsection \<open>Dynamic strings\<close>

definition parse_unit_fields :: "string \<Rightarrow> string \<Rightarrow> clk res" where
  "parse_unit_fields a b =
     (case (string2ll a, string2ll b) of
        (Some ll_gid, Some ll_time) \<Rightarrow> Inr (init_clock (to_char ll_gid) ll_time)
      | _ \<Rightarrow> Inl UninitRead)"

definition sdsToVectorClockUnit :: "string \<Rightarrow> clk res" where
  "sdsToVectorClockUnit vcUnitStr =
     (case sdssplitlen vcUnitStr '':'' of
        Some [a, b] \<Rightarrow> parse_unit_fields a b
      | _ \<Rightarrow> Inr VCU0)"

text \<open>The loop that parses token \<open>i\<close> and stores it in slot \<open>i\<close>.\<close>

fun parse_units :: "(string \<Rightarrow> clk res) \<Rightarrow> VectorClock \<Rightarrow> nat \<Rightarrow> string list \<Rightarrow> VectorClock res" where
  "parse_units parse result i [] = Inr result"
| "parse_units parse result i (u # us) =
     bindE (parse u) (\<lambda>c.
     bindE (set_clock_unit_by_index result i c) (\<lambda>result. parse_units parse result (Suc i) us))"

definition sdsToVectorClock :: "string \<Rightarrow> VectorClock res" where
  "sdsToVectorClock vcStr =
     (case sdssplitlen vcStr '';'' of
        None \<Rightarrow> newVectorClock 0
      | Some [] \<Rightarrow> newVectorClock 0
      | Some vcUnits \<Rightarrow>
          (let vcUnits = butlast vcUnits @ [sdstrim (last vcUnits) []];
               clockNum = (if length (last vcUnits) < 1 then length vcUnits - 1 else length vcUnits)
           in bindE (newVectorClock (int clockNum)) (\<lambda>result.
              parse_units sdsToVectorClockUnit result 0 (take clockNum vcUnits))))"

definition unit_text :: "clk \<Rightarrow> string" where
  "unit_text c = show_int (get_gid c) @ '':'' @ show_int (get_logic_clock c)"

fun units_text :: "clk list \<Rightarrow> string" where
  "units_text [] = []"
| "units_text [c] = unit_text c"
| "units_text (c # d # cs) = unit_text c @ '';'' @ units_text (d # cs)"

definition vectorClockToSds :: "VectorClock \<Rightarrow> string" where
  "vectorClockToSds vc = (if isNullVectorClock vc \<or> get_len vc < 1 then [] else units_text vc)"

subsection \<open>C strings\<close>

text \<open>The tokens \<^verbatim>\<open>strtok\<close> yields: the maximal runs of bytes other than the separator.\<close>

fun strtok_all :: "char \<Rightarrow> string \<Rightarrow> string \<Rightarrow> string list" where
  "strtok_all d cur [] = (if cur = [] then [] else [cur])"
| "strtok_all d cur (c # cs) =
     (if c = d then (if cur = [] then strtok_all d [] cs else cur # strtok_all d [] cs)
      else strtok_all d (cur @ [c]) cs)"

text \<open>\<open>split src separator capacity\<close> also carries the size of the caller's token array.\<close>

definition split :: "string \<Rightarrow> char \<Rightarrow> nat \<Rightarrow> string list res" where
  "split src separator capacity =
     (let toks = strtok_all separator [] src
      in if length toks > capacity then Inl OutOfBounds else Inr toks)"

definition trim :: "string \<Rightarrow> string" where
  "trim str = trim_back isspace (dropWhile isspace str)"

definition stringToVectorClockUnit :: "string \<Rightarrow> clk res" where
  "stringToVectorClockUnit vcUnitStr =
     bindE (split vcUnitStr (CHR '':'') 2) (\<lambda>vcUnits.
     case vcUnits of
       [a, b] \<Rightarrow> parse_unit_fields a b
     | _ \<Rightarrow> Inr VCU0)"

definition stringToVectorClock :: "string \<Rightarrow> VectorClock res" where
  "stringToVectorClock buf =
     bindE (split (takeWhile (\<lambda>c. c \<noteq> CHR 0x00) buf) (CHR '';'') 32) (\<lambda>vcUnits.
     if vcUnits = [] then newVectorClock 0
     else
       (let vcUnits = butlast vcUnits @ [trim (last vcUnits)];
            clockNum = (if length (last vcUnits) < 1 then length vcUnits - 1 else length vcUnits)
        in bindE (newVectorClock (int clockNum)) (\<lambda>result.
           parse_units stringToVectorClockUnit result 0 (take clockNum vcUnits))))"

text \<open>
  \<open>vectorClockToString\<close> is the text written before the terminator; the value the C function returns is
  its length.
\<close>

fun tail_text :: "clk list \<Rightarrow> string" where
  "tail_text [] = []"
| "tail_text (c # cs) = '';'' @ unit_text c @ tail_text cs"

definition vectorClockToString :: "VectorClock \<Rightarrow> string" where
  "vectorClockToString vc =
     (if isNullVectorClock vc \<or> get_len vc < 1 then []
      else unit_text (vc ! 0) @ tail_text (tl vc))"

definition vectorClockToStringLen :: "VectorClock \<Rightarrow> nat" where
  "vectorClockToStringLen vc =
     (if isNullVectorClock vc \<or> get_len vc < 1 then 0
      else (if get_gid (vc ! 0) \<ge> 10 then 3 else 2) + lllen (get_logic_clock (vc ! 0))
           + sum_list (map (\<lambda>c. (if get_gid c \<ge> 10 then 4 else 3) + lllen (get_logic_clock c)) (tl vc)))"

subsection \<open>The characters of a printed unit\<close>

lemma get_nonneg: "0 \<le> get_gid c" "0 \<le> get_logic_clock c"
  by (simp_all add: get_gid_def get_logic_clock_def)

lemma unit_text_fields:
  "CHR '':'' \<notin> set (show_int (get_gid c))" "CHR '':'' \<notin> set (show_int (get_logic_clock c))"
  using get_nonneg [of c] show_int_digits [of _ "CHR '':''"] by (auto simp: digit_in_def)

lemma unit_text_no_sep: "CHR '';'' \<notin> set (unit_text c)"
  using get_nonneg [of c] show_int_digits [of _ "CHR '';''"] by (auto simp: unit_text_def digit_in_def)

lemma unit_text_chars: "x \<in> set (unit_text c) \<Longrightarrow> \<not> isspace x \<and> x \<noteq> CHR 0x00"
  using get_nonneg [of c] show_int_digits [of _ x]
  by (auto simp: unit_text_def digit_in_def isspace_def)

lemma unit_text_ne: "unit_text c \<noteq> []"
  by (simp add: unit_text_def)

subsection \<open>Parsing what was printed\<close>

lemma string2ll_gid: "string2ll (show_int (get_gid c)) = Some (get_gid c)"
  using uint_word4_bounds [of "vcu_gid c"] unfolding get_gid_def by (intro string2ll_show_int; linarith)

lemma string2ll_clock: "string2ll (show_int (get_logic_clock c)) = Some (get_logic_clock c)"
  using uint_word56_bounds [of "vcu_clock c"] unfolding get_logic_clock_def
  by (intro string2ll_show_int) (linarith, simp)

lemma parse_unit_fields_ok:
  "parse_unit_fields (show_int (get_gid c)) (show_int (get_logic_clock c)) = Inr c"
proof -
  have "to_char (get_gid c) = get_gid c"
    using uint_word4_bounds [of "vcu_gid c"] by (intro to_char_small) (simp_all add: get_gid_def)
  then have "init_clock (to_char (get_gid c)) (get_logic_clock c) = c"
    by (simp add: init_clock_def VCU0_def clk_eq_iff) (simp add: get_gid_def get_logic_clock_def)
  then show ?thesis
    by (simp add: parse_unit_fields_def string2ll_gid string2ll_clock)
qed

lemma sdsToVectorClockUnit_ok: "sdsToVectorClockUnit (unit_text c) = Inr c"
  using split1_join [of "[show_int (get_gid c), show_int (get_logic_clock c)]" "CHR '':''"]
    unit_text_fields [of c]
  by (simp add: sdsToVectorClockUnit_def sdssplitlen_def split_loop_one parse_unit_fields_ok unit_text_ne
      flip: unit_text_def) (simp add: unit_text_def parse_unit_fields_ok)

lemma strtok_all_append: "d \<notin> set x \<Longrightarrow> strtok_all d cur (x @ rest) = strtok_all d (cur @ x) rest"
  by (induction x arbitrary: cur) auto

lemma strtok_all_join:
  assumes "\<forall>x \<in> set xs. d \<notin> set x \<and> x \<noteq> []"
  shows "strtok_all d [] (sdsjoinsds xs [d]) = xs"
  using assms
proof (induction xs rule: induct_list012)
  case (2 x)
  then show ?case using strtok_all_append [of d x "[]" "[]"] by simp
next
  case (3 x y xs)
  then show ?case using strtok_all_append [of d x "[]"] by simp
qed simp

lemma stringToVectorClockUnit_ok: "stringToVectorClockUnit (unit_text c) = Inr c"
proof -
  have "strtok_all (CHR '':'') [] (unit_text c) = [show_int (get_gid c), show_int (get_logic_clock c)]"
    using strtok_all_join [of "[show_int (get_gid c), show_int (get_logic_clock c)]" "CHR '':''"]
      unit_text_fields [of c] show_int_ne
    by (simp add: unit_text_def)
  then show ?thesis
    by (simp add: stringToVectorClockUnit_def split_def parse_unit_fields_ok)
qed

lemma parse_units_ok:
  "(\<And>c. parse (unit_text c) = Inr c) \<Longrightarrow>
   parse_units parse target k (map unit_text cs) = copy_units target k cs"
  by (induction cs arbitrary: target k) simp_all

lemma units_text_join: "units_text cs = sdsjoinsds (map unit_text cs) '';''"
  by (induction cs rule: units_text.induct) simp_all

lemma vectorClockToString_units: "vectorClockToString vc = units_text vc"
proof -
  have "unit_text c @ tail_text cs = units_text (c # cs)" for c cs
    by (induction cs arbitrary: c) simp_all
  then show ?thesis
    by (cases vc) (simp_all add: vectorClockToString_def isNullVectorClock_def get_len_def)
qed

lemma trim_back_none: "\<forall>c \<in> set s. \<not> p c \<Longrightarrow> trim_back p (dropWhile p s) = s"
proof -
  assume *: "\<forall>c \<in> set s. \<not> p c"
  then have "dropWhile p s = s" by (cases s) auto
  moreover have "\<not> (length s > 1 \<and> p (last s))" using * by (cases s rule: rev_cases) auto
  then have "trim_back p s = s" by (subst trim_back.simps) (simp only: if_False)
  ultimately show ?thesis by simp
qed

lemma trim_unit_text:
  "sdstrim (unit_text c) [] = unit_text c" "trim (unit_text c) = unit_text c"
  unfolding sdstrim_def trim_def
  by (intro trim_back_none; use unit_text_chars [of _ c] in \<open>auto simp: strchr_def\<close>)+

lemma parse_printed_units:
  assumes "vc_wf vc" and "vc \<noteq> []" and "\<And>c. parse (unit_text c) = Inr c"
  shows "bindE (newVectorClock (int (length vc)))
           (\<lambda>result. parse_units parse result 0 (map unit_text vc)) = Inr vc"
  using assms length_le_15 [OF assms(1)]
  by (simp add: newVectorClock_ok0 parse_units_ok copy_units_fill vc_wf_def)

lemma printed_tokens:
  assumes "vc \<noteq> []" and "\<And>c. trim' (unit_text c) = unit_text c"
  shows "butlast (map unit_text vc) @ [trim' (last (map unit_text vc))] = map unit_text vc"
    and "\<not> length (last (map unit_text vc)) < 1"
  using assms by (cases vc rule: rev_cases; simp add: unit_text_ne Suc_le_eq)+

lemma sdsToVectorClock_tokens:
  assumes "sdssplitlen s '';'' = Some us" and "us \<noteq> []"
    and "butlast us @ [sdstrim (last us) []] = us" and "\<not> length (last us) < 1"
  shows "sdsToVectorClock s = bindE (newVectorClock (int (length us)))
           (\<lambda>result. parse_units sdsToVectorClockUnit result 0 us)"
proof -
  have "sdsToVectorClock s =
      (let vcUnits = butlast us @ [sdstrim (last us) []];
           clockNum = (if length (last vcUnits) < 1 then length vcUnits - 1 else length vcUnits)
       in bindE (newVectorClock (int clockNum)) (\<lambda>result.
          parse_units sdsToVectorClockUnit result 0 (take clockNum vcUnits)))"
    unfolding sdsToVectorClock_def assms(1) using assms(2) by (cases us) (simp_all only: option.case list.case simp_thms)
  then show ?thesis unfolding assms(3) Let_def using assms(4) by simp
qed

lemma sdsToVectorClock_printed:
  assumes "vc_wf vc"
  shows "sdsToVectorClock (units_text vc) = Inr vc"
proof (cases "vc = []")
  case True
  then show ?thesis by (simp add: sdsToVectorClock_def sdssplitlen_def newVectorClock_ok0)
next
  case False
  note tok = printed_tokens [OF False, of "\<lambda>s. sdstrim s []", OF trim_unit_text(1)]
  have "split1 (CHR '';'') [] (units_text vc) = map unit_text vc"
    unfolding units_text_join by (rule split1_join) (use False unit_text_no_sep in auto)
  moreover have "units_text vc \<noteq> []"
    using False by (cases vc rule: units_text.cases) (simp_all add: unit_text_ne)
  ultimately have "sdssplitlen (units_text vc) '';'' = Some (map unit_text vc)"
    by (simp add: sdssplitlen_def split_loop_one Suc_le_eq)
  from sdsToVectorClock_tokens [OF this _ tok] show ?thesis
    using False parse_printed_units [OF assms False sdsToVectorClockUnit_ok] by simp
qed

lemma stringToVectorClock_printed:
  assumes "vc_wf vc"
  shows "stringToVectorClock (units_text vc) = Inr vc"
proof (cases "vc = []")
  case True
  then show ?thesis by (simp add: stringToVectorClock_def split_def newVectorClock_ok0)
next
  case False
  note tok = printed_tokens [OF False, of trim, OF trim_unit_text(2)]
  have "CHR 0x00 \<notin> set (units_text vc)"
    using set_sdsjoinsds [of "map unit_text vc" "'';''"] unit_text_chars
    unfolding units_text_join by auto
  then have nul: "takeWhile (\<lambda>c. c \<noteq> CHR 0x00) (units_text vc) = units_text vc"
    by (auto simp: takeWhile_eq_all_conv)
  have "strtok_all (CHR '';'') [] (units_text vc) = map unit_text vc"
    unfolding units_text_join by (rule strtok_all_join) (use unit_text_no_sep unit_text_ne in auto)
  then have "split (units_text vc) (CHR '';'') 32 = Inr (map unit_text vc)"
    using length_le_15 [OF assms] by (simp add: split_def)
  then show ?thesis
    using False tok parse_printed_units [OF assms False stringToVectorClockUnit_ok]
    unfolding stringToVectorClock_def nul by (simp add: Let_def)
qed

lemma length_show_gid: "length (show_int (get_gid c)) = (if get_gid c \<ge> 10 then 2 else 1)"
proof -
  define n where "n = nat (get_gid c)"
  have "n < 16" "int n = get_gid c"
    using uint_word4_bounds [of "vcu_gid c"] unfolding n_def get_gid_def by linarith+
  moreover have "length (show_nat n) = (if n \<ge> 10 then 2 else 1)"
    using \<open>n < 16\<close> by (cases "n < 10") (simp_all add: show_nat_small show_nat_large)
  ultimately show ?thesis by (auto simp: show_int_def simp flip: n_def)
qed

lemma length_unit_text:
  "length (unit_text c) = (if get_gid c \<ge> 10 then 3 else 2) + lllen (get_logic_clock c)"
  by (simp add: unit_text_def lllen_length length_show_gid)

subsection \<open>Properties\<close>

text \<open>
  C19. Text round trip: both parsers read the text either printer writes for a well-formed clock back
  as the same clock, units in the same order, without a fault.
\<close>

theorem vector_clock_text_round_trip:
  assumes "vc_wf vc"
  shows "sdsToVectorClock (vectorClockToSds vc) = Inr vc
       \<and> stringToVectorClock (vectorClockToString vc) = Inr vc
       \<and> vectorClockToSds vc = vectorClockToString vc"
proof -
  have "vectorClockToSds vc = units_text vc"
    by (cases vc) (simp_all add: vectorClockToSds_def isNullVectorClock_def get_len_def)
  then show ?thesis
    using assms by (simp add: vectorClockToString_units sdsToVectorClock_printed stringToVectorClock_printed)
qed

theorem vector_clock_text_round_trip_witness:
  "sdsToVectorClock (vectorClockToSds [init_clock 3 8, init_clock 12 407])
     = Inr [init_clock 3 8, init_clock 12 407]"
proof -
  have "vc_wf [init_clock 3 8, init_clock 12 407]" by code_simp
  from vector_clock_text_round_trip [OF this] show ?thesis by blast
qed

text \<open>
  \<open>vectorClockToStringLen\<close> is exactly the number of bytes \<open>vectorClockToString\<close> writes before the
  terminator, for every clock.
\<close>

theorem vectorClockToStringLen_exact:
  "vectorClockToStringLen vc = length (vectorClockToString vc)"
proof -
  have "length (tail_text cs)
      = sum_list (map (\<lambda>c. (if get_gid c \<ge> 10 then 4 else 3) + lllen (get_logic_clock c)) cs)" for cs
    by (induction cs) (simp_all add: length_unit_text)
  then show ?thesis
    by (simp add: vectorClockToStringLen_def vectorClockToString_def length_unit_text)
qed

lemma string2ll_samples:
  "string2ll ''x'' = None" "string2ll ''1'' = Some 1" "string2ll ''5'' = Some 5"
  "string2ll ''6'' = Some 6" "string2ll ''17'' = Some 17"
  by (simp_all add: string2ll_def digit_in_def)

lemma unit_samples:
  "sdsToVectorClockUnit ''x:5'' = Inl UninitRead" "sdsToVectorClockUnit ''1'' = Inr VCU0"
  "sdsToVectorClockUnit ''17:5'' = Inr (init_clock 1 5)"
  "sdsToVectorClockUnit ''1:5'' = Inr (init_clock 1 5)" "sdsToVectorClockUnit ''1:6'' = Inr (init_clock 1 6)"
proof -
  have s: "sdssplitlen ''x:5'' '':'' = Some [''x'', ''5'']" "sdssplitlen ''1'' '':'' = Some [''1'']"
    "sdssplitlen ''17:5'' '':'' = Some [''17'', ''5'']" "sdssplitlen ''1:5'' '':'' = Some [''1'', ''5'']"
    "sdssplitlen ''1:6'' '':'' = Some [''1'', ''6'']" by code_simp+
  have "init_clock 17 5 = init_clock 1 5" by code_simp
  with s show "sdsToVectorClockUnit ''x:5'' = Inl UninitRead" "sdsToVectorClockUnit ''1'' = Inr VCU0"
    "sdsToVectorClockUnit ''17:5'' = Inr (init_clock 1 5)"
    "sdsToVectorClockUnit ''1:5'' = Inr (init_clock 1 5)" "sdsToVectorClockUnit ''1:6'' = Inr (init_clock 1 6)"
    by (simp_all add: sdsToVectorClockUnit_def parse_unit_fields_def string2ll_samples)
qed


end
