(* ===== verification/Vector_Clock_Lattice.thy ===== *)
theory Vector_Clock_Lattice
  imports Vector_Clock_Facts "HOL-Library.Option_ord"
begin

section \<open>Vector clocks: merge is a join, minimum merge is a meet\<close>

text \<open>
  \<open>vectorClockMerge\<close> and \<open>mergeMinVectorClock\<close> are proved equal to the list merges \<open>join_units\<close> and
  \<open>meet_units\<close> of the sorted arguments, which compute the pointwise maximum and minimum of the clock
  maps. Two interfaces carry the consequences: \<open>state_join\<close> for a replica state that is determined by
  what it maps each key to and is merged pointwise by maximum (so any order, grouping and repetition
  of merges gives the same state), and \<open>clock_meet\<close> for clocks combined pointwise by minimum.
\<close>

subsection \<open>Interfaces\<close>

locale state_join =
  fixes inv :: "'c \<Rightarrow> bool"
    and obs :: "'c \<Rightarrow> 'g \<Rightarrow> 'v::linorder"
    and join :: "'c \<Rightarrow> 'c \<Rightarrow> 'c"
  assumes inv_join: "inv a \<Longrightarrow> inv b \<Longrightarrow> inv (join a b)"
    and obs_join: "inv a \<Longrightarrow> inv b \<Longrightarrow> obs (join a b) g = max (obs a g) (obs b g)"
    and obs_inj: "inv a \<Longrightarrow> inv b \<Longrightarrow> obs a = obs b \<Longrightarrow> a = b"
begin

lemma join_comm: "inv a \<Longrightarrow> inv b \<Longrightarrow> join a b = join b a"
  by (intro obs_inj inv_join) (auto simp: fun_eq_iff obs_join max.commute)

lemma join_assoc: "inv a \<Longrightarrow> inv b \<Longrightarrow> inv c \<Longrightarrow> join (join a b) c = join a (join b c)"
  by (intro obs_inj inv_join) (auto simp: fun_eq_iff obs_join inv_join max.assoc)

lemma join_idem: "inv a \<Longrightarrow> join a a = a"
  by (intro obs_inj inv_join) (auto simp: fun_eq_iff obs_join)

lemma inv_foldl: "inv a \<Longrightarrow> \<forall>x \<in> set xs. inv x \<Longrightarrow> inv (foldl join a xs)"
  by (induction xs arbitrary: a) (auto simp: inv_join)

lemma obs_foldl:
  "inv a \<Longrightarrow> \<forall>x \<in> set xs. inv x \<Longrightarrow>
   obs (foldl join a xs) g = Max (insert (obs a g) ((\<lambda>x. obs x g) ` set xs))"
proof (induction xs arbitrary: a)
  case Nil
  then show ?case by simp
next
  case (Cons x xs)
  have "obs (foldl join a (x # xs)) g
      = Max (insert (max (obs a g) (obs x g)) ((\<lambda>x. obs x g) ` set xs))"
    using Cons by (simp add: inv_join obs_join)
  then show ?case
    by (cases "set xs = {}") (simp_all add: max.assoc insert_commute)
qed

text \<open>Replicas that have merged the same set of states are equal, whatever order and repetition.\<close>

lemma foldl_set_eq:
  assumes "inv a" and "\<forall>x \<in> set xs. inv x" and "set xs = set ys"
  shows "foldl join a xs = foldl join a ys"
proof (rule obs_inj)
  show "inv (foldl join a xs)" "inv (foldl join a ys)"
    using assms by (auto intro!: inv_foldl)
  show "obs (foldl join a xs) = obs (foldl join a ys)"
    using assms by (auto simp: fun_eq_iff obs_foldl)
qed

lemma obs_le_join: "inv a \<Longrightarrow> inv b \<Longrightarrow> obs a g \<le> obs (join a b) g \<and> obs b g \<le> obs (join a b) g"
  by (simp add: obs_join)

end

locale clock_meet =
  fixes inv :: "'c \<Rightarrow> bool"
    and time :: "'c \<Rightarrow> 'g \<Rightarrow> 't::linorder"
    and meet :: "'c \<Rightarrow> 'c \<Rightarrow> 'c"
  assumes inv_meet: "inv a \<Longrightarrow> inv b \<Longrightarrow> inv (meet a b)"
    and time_meet: "inv a \<Longrightarrow> inv b \<Longrightarrow> time (meet a b) g = min (time a g) (time b g)"
begin

lemma inv_foldl_meet: "inv a \<Longrightarrow> \<forall>x \<in> set xs. inv x \<Longrightarrow> inv (foldl meet a xs)"
  by (induction xs arbitrary: a) (auto simp: inv_meet)

lemma time_foldl_meet:
  "inv a \<Longrightarrow> \<forall>x \<in> set xs. inv x \<Longrightarrow>
   time (foldl meet a xs) g = Min (insert (time a g) ((\<lambda>x. time x g) ` set xs))"
proof (induction xs arbitrary: a)
  case Nil
  then show ?case by simp
next
  case (Cons x xs)
  have "time (foldl meet a (x # xs)) g
      = Min (insert (min (time a g) (time x g)) ((\<lambda>x. time x g) ` set xs))"
    using Cons by (simp add: inv_meet time_meet)
  then show ?case
    by (cases "set xs = {}") (simp_all add: min.assoc insert_commute)
qed

lemma foldl_meet_lower:
  "inv a \<Longrightarrow> \<forall>x \<in> set xs. inv x \<Longrightarrow> b = a \<or> b \<in> set xs \<Longrightarrow> time (foldl meet a xs) g \<le> time b g"
  by (auto simp: time_foldl_meet)

lemma foldl_meet_greatest:
  "inv a \<Longrightarrow> \<forall>x \<in> set xs. inv x \<Longrightarrow> t \<le> time a g \<Longrightarrow> \<forall>x \<in> set xs. t \<le> time x g \<Longrightarrow>
   t \<le> time (foldl meet a xs) g"
  by (auto simp: time_foldl_meet)

end

subsection \<open>The join of sorted unit lists\<close>

fun join_units :: "clk list \<Rightarrow> clk list \<Rightarrow> clk list" where
  "join_units (a # as) (b # bs) =
     (if vcu_gid a = vcu_gid b then
        \<lparr>vcu_clock = max (vcu_clock a) (vcu_clock b), vcu_gid = vcu_gid a\<rparr> # join_units as bs
      else if vcu_gid b < vcu_gid a then b # join_units (a # as) bs
      else a # join_units as (b # bs))"
| "join_units as [] = as"
| "join_units [] bs = bs"

lemma init_clock_max:
  "init_clock (get_gid a) (if get_logic_clock a > get_logic_clock b
                           then get_logic_clock a else get_logic_clock b)
   = \<lparr>vcu_clock = max (vcu_clock a) (vcu_clock b), vcu_gid = vcu_gid a\<rparr>"
  by (auto simp: get_logic_clock_less_iff max_def)

lemma init_clock_min:
  "init_clock (get_gid a) (if get_logic_clock a > get_logic_clock b
                           then get_logic_clock b else get_logic_clock a)
   = \<lparr>vcu_clock = min (vcu_clock a) (vcu_clock b), vcu_gid = vcu_gid a\<rparr>"
  by (auto simp: get_logic_clock_less_iff min_def)

lemma merge_loop_join: "merge_loop as bs target k = copy_units target k (join_units as bs)"
  by (induction as bs target k rule: merge_loop.induct)
     (auto simp: init_clock_max get_gid_eq_iff get_gid_less_iff intro!: bindE_cong)

lemma gids_join_units: "gids (join_units as bs) = gids as \<union> gids bs"
  by (induction as bs rule: join_units.induct) auto

lemma ball_gids: "(\<forall>d \<in> set x. g < vcu_gid d) \<longleftrightarrow> (\<forall>h \<in> gids x. g < h)"
  by auto

lemma vc_sorted_join_units: "vc_sorted as \<Longrightarrow> vc_sorted bs \<Longrightarrow> vc_sorted (join_units as bs)"
proof (induction as bs rule: join_units.induct)
  case (1 a as b bs)
  have lt: "\<And>g x y. (\<forall>d \<in> set (join_units x y). g < vcu_gid d) \<longleftrightarrow>
      (\<forall>d \<in> set x. g < vcu_gid d) \<and> (\<forall>d \<in> set y. g < vcu_gid d)"
    by (simp only: ball_gids gids_join_units ball_Un)
  consider "vcu_gid a = vcu_gid b" | "vcu_gid b < vcu_gid a" | "vcu_gid a < vcu_gid b"
    by (metis neqE)
  then show ?case
    using 1 by cases (auto simp: vc_sorted_Cons lt)
qed simp_all

lemma vc_map_None_less: "\<forall>d \<in> set vc. g < vcu_gid d \<Longrightarrow> vc_map vc g = None"
  by (auto simp: vc_map_None_iff)

lemma vc_map_join_units:
  "vc_sorted as \<Longrightarrow> vc_sorted bs \<Longrightarrow> vc_map (join_units as bs) g = max (vc_map as g) (vc_map bs g)"
proof (induction as bs rule: join_units.induct)
  case (1 a as b bs)
  consider "vcu_gid a = vcu_gid b" | "vcu_gid b < vcu_gid a" | "vcu_gid a < vcu_gid b"
    by (metis neqE)
  then show ?case
  proof cases
    case 1
    with "1.IH"(1) "1.prems" show ?thesis
      by (auto simp: vc_sorted_Cons max_def)
  next
    case 2
    then have "vc_map (a # as) (vcu_gid b) = None"
      using "1.prems"(1) by (intro vc_map_None_less) (auto simp: vc_sorted_Cons)
    with 2 "1.IH"(2) "1.prems" show ?thesis
      by (auto simp: vc_sorted_Cons max_def)
  next
    case 3
    then have "vc_map (b # bs) (vcu_gid a) = None"
      using "1.prems"(2) by (intro vc_map_None_less) (auto simp: vc_sorted_Cons)
    with 3 "1.IH"(3) "1.prems" show ?thesis
      by (auto simp: vc_sorted_Cons max_def)
  qed
qed (simp_all add: max_def less_eq_option_None_is_None)

lemma length_gids: "vc_wf vc \<Longrightarrow> length vc = card (gids vc)"
  by (metis vc_wf_def distinct_card length_map set_map)

definition vc_join :: "VectorClock \<Rightarrow> VectorClock \<Rightarrow> VectorClock" where
  "vc_join a b = join_units (sortVectorClock a) (sortVectorClock b)"

lemma vc_sorted_vc_join: "vc_wf a \<Longrightarrow> vc_wf b \<Longrightarrow> vc_sorted (vc_join a b)"
  by (simp add: vc_join_def vc_sorted_join_units vc_sorted_sortVectorClock)

lemma vc_map_vc_join: "vc_wf a \<Longrightarrow> vc_wf b \<Longrightarrow> vc_map (vc_join a b) g = max (vc_map a g) (vc_map b g)"
  by (simp add: vc_join_def vc_map_join_units vc_sorted_sortVectorClock)

interpretation vcj: state_join vc_sorted vc_map vc_join
  by unfold_locales
     (auto simp: vc_sorted_imp_wf vc_sorted_vc_join vc_map_vc_join vc_sorted_unique)

text \<open>With more than one gid between two non-empty clocks the three loops run; with one, they do not.\<close>

lemma one_gid_singletons:
  assumes "vc_wf a" and "vc_wf b" and "a \<noteq> []" and "b \<noteq> []" and "card (gids a \<union> gids b) \<le> 1"
  obtains c d where "a = [c]" "b = [d]" "vcu_gid c = vcu_gid d" "vcu_gid c \<noteq> 0"
proof -
  have "card (gids a) \<le> 1" "card (gids b) \<le> 1"
    using assms(5) by (meson card_mono finite_UnI List.finite_set finite_imageI le_trans Un_upper1 Un_upper2)+
  then have "length a = 1" "length b = 1"
    using assms by (simp_all add: length_gids [symmetric] le_Suc_eq)
  then obtain c d where cd: "a = [c]" "b = [d]"
    by (auto simp: length_Suc_conv)
  with assms(5) have "vcu_gid c = vcu_gid d"
    by (cases "vcu_gid c = vcu_gid d") auto
  with cd assms(1) that show thesis by (auto simp: vc_wf_Cons)
qed

lemma card_gids_bounds:
  assumes "vc_wf a" and "vc_wf b"
  shows "card (gids a \<union> gids b) \<le> 15"
proof -
  have "card (gids a \<union> gids b) \<le> card (UNIV - {0 :: 4 word})"
    using assms by (intro card_mono) (auto simp: vc_wf_def)
  then show ?thesis by (simp add: card_Diff_singleton card_word)
qed

lemma vectorClockMerge_loops:
  assumes "vc_wf a" and "vc_wf b" and "a \<noteq> []" and "b \<noteq> []" and "1 < card (gids a \<union> gids b)"
  shows "vectorClockMerge a b = Inr (vc_join a b, sortVectorClock a, sortVectorClock b)"
proof -
  have len: "length (vc_join a b) = card (gids a \<union> gids b)"
    using assms(1,2)
    by (simp add: length_gids vc_sorted_imp_wf vc_sorted_vc_join) (simp add: vc_join_def gids_join_units)
  have nz: "0 \<notin> gids (vc_join a b)"
    using vc_sorted_vc_join [OF assms(1,2)] by (simp add: vc_sorted_def)
  have "newVectorClock (count_all_gid_num a b) = Inr (replicate (card (gids a \<union> gids b)) VCU0)"
    using assms(5) card_gids_bounds [OF assms(1,2)]
    by (simp add: newVectorClock_ok count_all_gid_num_card)
  then show ?thesis
    using assms(3,4,5) len nz
    by (simp add: vectorClockMerge_def isNullVectorClock_def get_len_def Let_def
        count_all_gid_num_card merge_loop_join flip: vc_join_def)
       (simp add: copy_units_fill)
qed

lemma vectorClockMerge_one:
  assumes "vcu_gid c = vcu_gid d" and "vcu_gid d \<noteq> 0"
  shows "vectorClockMerge [c] [d] = Inr (vc_join [c] [d], [c], [d])"
proof -
  have wf: "vc_wf [d]" using assms by (simp add: vc_wf_Cons)
  have "word_of_int (if get_logic_clock c < get_logic_clock d then get_logic_clock d
                     else get_logic_clock c) = max (vcu_clock c) (vcu_clock d)"
    by (simp add: get_logic_clock_less_iff max_def) (auto simp: get_logic_clock_def)
  then show ?thesis
    using assms
    by (simp add: vectorClockMerge_def isNullVectorClock_def get_len_def count_all_gid_num_card
        dupVectorClock_ok [OF wf] vc_join_def sortVectorClock_eq Let_def clk_eq_iff)
qed

lemma join_units_Nil [simp]: "join_units [] bs = bs"
  by (cases bs) simp_all

lemma vectorClockMerge_Nil:
  "vc_wf a \<Longrightarrow> vectorClockMerge a [] = Inr (a, a, [])"
  "vc_wf a \<Longrightarrow> vectorClockMerge [] a = Inr (a, [], a)"
  by (auto simp: vectorClockMerge_def isNullVectorClock_def get_len_def dupVectorClock_ok)

lemma vectorClockMerge_ok:
  assumes "vc_wf a" and "vc_wf b"
  shows "\<exists>r a' b'. vectorClockMerge a b = Inr (r, a', b') \<and> vc_wf r
         \<and> sortVectorClock r = vc_join a b
         \<and> (a \<noteq> [] \<and> b \<noteq> [] \<longrightarrow> r = vc_join a b)
         \<and> set a' = set a \<and> set b' = set b \<and> vc_wf a' \<and> vc_wf b'"
proof (cases "a = [] \<or> b = []")
  case True
  then show ?thesis
    using assms vectorClockMerge_Nil [of a] vectorClockMerge_Nil [of b]
    by (auto simp: vc_join_def sortVectorClock_eq)
next
  case False
  then have ne: "a \<noteq> []" "b \<noteq> []" by auto
  have js: "sortVectorClock (vc_join a b) = vc_join a b" "vc_wf (vc_join a b)"
    using vc_sorted_vc_join [OF assms] by (simp_all add: sortVectorClock_sorted vc_sorted_imp_wf)
  show ?thesis
  proof (cases "1 < card (gids a \<union> gids b)")
    case True
    with vectorClockMerge_loops [OF assms ne] js assms show ?thesis
      by (simp add: vc_wf_sortVectorClock)
  next
    case False
    then obtain c d where "a = [c]" "b = [d]" "vcu_gid c = vcu_gid d" "vcu_gid c \<noteq> 0"
      using one_gid_singletons [OF assms ne] by (metis not_le)
    with vectorClockMerge_one [of c d] js assms show ?thesis by simp
  qed
qed

subsection \<open>The meet of sorted unit lists\<close>

abbreviation zeroed :: "clk \<Rightarrow> clk" where
  "zeroed c \<equiv> \<lparr>vcu_clock = 0, vcu_gid = vcu_gid c\<rparr>"

fun meet_units :: "clk list \<Rightarrow> clk list \<Rightarrow> clk list" where
  "meet_units (a # as) (b # bs) =
     (if vcu_gid a = vcu_gid b then
        \<lparr>vcu_clock = min (vcu_clock a) (vcu_clock b), vcu_gid = vcu_gid a\<rparr> # meet_units as bs
      else if vcu_gid b < vcu_gid a then zeroed b # meet_units (a # as) bs
      else zeroed a # meet_units as (b # bs))"
| "meet_units as [] = map zeroed as"
| "meet_units [] bs = map zeroed bs"

lemma zero_units_copy: "zero_units target k cs = copy_units target k (map zeroed cs)"
  by (induction cs arbitrary: target k) (auto intro!: bindE_cong)

lemma mergeMin_loop_meet: "mergeMin_loop as bs target k = copy_units target k (meet_units as bs)"
  by (induction as bs target k rule: mergeMin_loop.induct)
     (auto simp: init_clock_min get_gid_eq_iff get_gid_less_iff zero_units_copy intro!: bindE_cong)

lemma gids_zeroed [simp]: "vcu_gid ` zeroed ` set cs = gids cs"
  by (simp add: image_image)

lemma gids_meet_units: "gids (meet_units as bs) = gids as \<union> gids bs"
  by (induction as bs rule: meet_units.induct) (auto simp: image_image)

lemma vc_sorted_zeroed: "vc_sorted vc \<Longrightarrow> vc_sorted (map zeroed vc)"
  by (induction vc) (auto simp: vc_sorted_Cons)

lemma vc_map_zeroed: "vc_map (map zeroed vc) g = (if g \<in> gids vc then Some 0 else None)"
  by (induction vc) auto

lemma vc_time_zeroed [simp]: "vc_time (map zeroed vc) g = 0"
  by (simp add: vc_time_def vc_map_zeroed)

lemma vc_sorted_meet_units: "vc_sorted as \<Longrightarrow> vc_sorted bs \<Longrightarrow> vc_sorted (meet_units as bs)"
proof (induction as bs rule: meet_units.induct)
  case (1 a as b bs)
  have lt: "\<And>g x y. (\<forall>d \<in> set (meet_units x y). g < vcu_gid d) \<longleftrightarrow>
      (\<forall>d \<in> set x. g < vcu_gid d) \<and> (\<forall>d \<in> set y. g < vcu_gid d)"
    by (simp only: ball_gids gids_meet_units ball_Un)
  consider "vcu_gid a = vcu_gid b" | "vcu_gid b < vcu_gid a" | "vcu_gid a < vcu_gid b"
    by (metis neqE)
  then show ?case
    using 1 by cases (auto simp: vc_sorted_Cons lt)
qed (simp_all add: vc_sorted_zeroed del: list.map)

lemma vc_time_Cons: "vc_time (c # cs) g = (if g = vcu_gid c then vcu_clock c else vc_time cs g)"
  by (simp add: vc_time_def)

lemma vc_time_less: "\<forall>d \<in> set vc. g < vcu_gid d \<Longrightarrow> vc_time vc g = 0"
  by (simp add: vc_time_def vc_map_None_less)

lemma vc_time_meet_units:
  "vc_sorted as \<Longrightarrow> vc_sorted bs \<Longrightarrow> vc_time (meet_units as bs) g = min (vc_time as g) (vc_time bs g)"
proof (induction as bs rule: meet_units.induct)
  case (1 a as b bs)
  consider "vcu_gid a = vcu_gid b" | "vcu_gid b < vcu_gid a" | "vcu_gid a < vcu_gid b"
    by (metis neqE)
  then show ?case
  proof cases
    case 1
    with "1.IH"(1) "1.prems" show ?thesis
      by (auto simp: vc_sorted_Cons vc_time_Cons)
  next
    case 2
    then have "vc_time (a # as) (vcu_gid b) = 0"
      using "1.prems"(1) by (intro vc_time_less) (auto simp: vc_sorted_Cons)
    with 2 "1.IH"(2) "1.prems" show ?thesis
      by (auto simp: vc_sorted_Cons vc_time_Cons)
  next
    case 3
    then have "vc_time (b # bs) (vcu_gid a) = 0"
      using "1.prems"(2) by (intro vc_time_less) (auto simp: vc_sorted_Cons)
    with 3 "1.IH"(3) "1.prems" show ?thesis
      by (auto simp: vc_sorted_Cons vc_time_Cons)
  qed
qed (simp_all add: vc_time_def vc_map_zeroed)

definition vc_meet :: "VectorClock \<Rightarrow> VectorClock \<Rightarrow> VectorClock" where
  "vc_meet a b = meet_units (sortVectorClock a) (sortVectorClock b)"

lemma vc_sorted_vc_meet: "vc_wf a \<Longrightarrow> vc_wf b \<Longrightarrow> vc_sorted (vc_meet a b)"
  by (simp add: vc_meet_def vc_sorted_meet_units vc_sorted_sortVectorClock)

lemma vc_time_sort [simp]: "vc_wf a \<Longrightarrow> vc_time (sortVectorClock a) = vc_time a"
  by (simp add: vc_time_def fun_eq_iff)

lemma vc_time_vc_meet: "vc_wf a \<Longrightarrow> vc_wf b \<Longrightarrow> vc_time (vc_meet a b) g = min (vc_time a g) (vc_time b g)"
  by (simp add: vc_meet_def vc_time_meet_units vc_sorted_sortVectorClock)

lemma gids_vc_meet: "gids (vc_meet a b) = gids a \<union> gids b"
  by (simp add: vc_meet_def gids_meet_units)

interpretation vcm: clock_meet vc_wf vc_time vc_meet
  by unfold_locales (auto simp: vc_sorted_imp_wf vc_sorted_vc_meet vc_time_vc_meet)

lemma cleanVectorClock_eq: "cleanVectorClock vc = map zeroed vc"
  by (simp add: cleanVectorClock_def set_logic_clock_def clk_eq_iff)

lemma meet_units_Nil [simp]: "meet_units [] bs = map zeroed bs"
  by (cases bs) simp_all

lemma sort_map_zeroed: "sortVectorClock (map zeroed vc) = map zeroed (sortVectorClock vc)"
proof -
  have "\<And>c cs. insort_key vcu_gid (zeroed c) (map zeroed cs) = map zeroed (insort_key vcu_gid c cs)"
    subgoal for c cs by (induction cs) auto
    done
  then have "sort_key vcu_gid (map zeroed vc) = map zeroed (sort_key vcu_gid vc)"
    by (induction vc) simp_all
  then show ?thesis by (simp add: sortVectorClock_eq)
qed

lemma mergeMinVectorClock_Nil:
  "vc_wf a \<Longrightarrow> mergeMinVectorClock a [] = Inr (map zeroed a, a, [])"
  "vc_wf a \<Longrightarrow> mergeMinVectorClock [] a = Inr (map zeroed a, [], a)"
  by (auto simp: mergeMinVectorClock_def isNullVectorClock_def get_len_def dupVectorClock_ok
      cleanVectorClock_eq)

lemma mergeMinVectorClock_loops:
  assumes "vc_wf a" and "vc_wf b" and "a \<noteq> []" and "b \<noteq> []" and "1 < card (gids a \<union> gids b)"
  shows "mergeMinVectorClock a b = Inr (vc_meet a b, sortVectorClock a, sortVectorClock b)"
proof -
  have len: "length (vc_meet a b) = card (gids a \<union> gids b)"
    using assms(1,2) by (simp add: length_gids vc_sorted_imp_wf vc_sorted_vc_meet gids_vc_meet)
  have nz: "0 \<notin> gids (vc_meet a b)"
    using vc_sorted_vc_meet [OF assms(1,2)] by (simp add: vc_sorted_def)
  have "newVectorClock (count_all_gid_num a b) = Inr (replicate (card (gids a \<union> gids b)) VCU0)"
    using assms(5) card_gids_bounds [OF assms(1,2)]
    by (simp add: newVectorClock_ok count_all_gid_num_card)
  then show ?thesis
    using assms(3,4,5) len nz
    by (simp add: mergeMinVectorClock_def isNullVectorClock_def get_len_def Let_def
        count_all_gid_num_card mergeMin_loop_meet flip: vc_meet_def)
       (simp add: copy_units_fill)
qed

lemma mergeMinVectorClock_one:
  assumes "vcu_gid c = vcu_gid d" and "vcu_gid d \<noteq> 0"
  shows "mergeMinVectorClock [c] [d] = Inr (vc_meet [c] [d], [c], [d])"
proof -
  have wf: "vc_wf [d]" using assms by (simp add: vc_wf_Cons)
  have "word_of_int (if get_logic_clock c < get_logic_clock d then get_logic_clock c
                     else get_logic_clock d) = min (vcu_clock c) (vcu_clock d)"
    by (simp add: get_logic_clock_less_iff min_def) (auto simp: get_logic_clock_def)
  then show ?thesis
    using assms
    by (simp add: mergeMinVectorClock_def isNullVectorClock_def get_len_def count_all_gid_num_card
        dupVectorClock_ok [OF wf] vc_meet_def sortVectorClock_eq Let_def clk_eq_iff)
qed

lemma mergeMinVectorClock_ok:
  assumes "vc_wf a" and "vc_wf b"
  shows "\<exists>r a' b'. mergeMinVectorClock a b = Inr (r, a', b') \<and> vc_wf r
         \<and> sortVectorClock r = vc_meet a b
         \<and> (a \<noteq> [] \<and> b \<noteq> [] \<longrightarrow> r = vc_meet a b)
         \<and> set a' = set a \<and> set b' = set b \<and> vc_wf a' \<and> vc_wf b'"
proof (cases "a = [] \<or> b = []")
  case True
  have z: "\<And>vc. vc_wf vc \<Longrightarrow> vc_wf (map zeroed vc)"
    by (simp add: vc_wf_def comp_def)
  from True show ?thesis
    using assms mergeMinVectorClock_Nil [of a] mergeMinVectorClock_Nil [of b] z
    by (auto simp: vc_meet_def sort_map_zeroed) (simp_all add: sortVectorClock_eq)
next
  case False
  then have ne: "a \<noteq> []" "b \<noteq> []" by auto
  have js: "sortVectorClock (vc_meet a b) = vc_meet a b" "vc_wf (vc_meet a b)"
    using vc_sorted_vc_meet [OF assms] by (simp_all add: sortVectorClock_sorted vc_sorted_imp_wf)
  show ?thesis
  proof (cases "1 < card (gids a \<union> gids b)")
    case True
    with mergeMinVectorClock_loops [OF assms ne] js assms show ?thesis
      by (simp add: vc_wf_sortVectorClock)
  next
    case False
    then obtain c d where "a = [c]" "b = [d]" "vcu_gid c = vcu_gid d" "vcu_gid c \<noteq> 0"
      using one_gid_singletons [OF assms ne] by (metis not_le)
    with mergeMinVectorClock_one [of c d] js assms show ?thesis by simp
  qed
qed

end
