(* ===== verification/Vector_Clock_Ops.thy ===== *)
theory Vector_Clock_Ops
  imports Vector_Clock_Lattice
begin

section \<open>Vector clocks: the remaining operations\<close>

text \<open>
  What each single-clock operation does to the clock map, that none of them faults on a well-formed
  clock and a gid between 1 and 15, and what the comparison \<open>isVectorClockMonoIncr\<close> decides.
\<close>

abbreviation gidw :: "int \<Rightarrow> 4 word" where
  "gidw g \<equiv> word_of_int g"

lemma gid_cases:
  assumes "check_gid g"
  obtains "to_char g = uint (gidw g)" "uint (gidw g) = g" "gidw g \<noteq> 0"
proof -
  have *: "uint (gidw g) = g" "to_char g = g"
    using assms valid_gid_word [of g] by (auto simp: check_gid_def)
  moreover have "gidw g \<noteq> 0" using *(1) assms by (auto simp: check_gid_def)
  ultimately show ?thesis using that by simp
qed

subsection \<open>Adding and advancing units\<close>

lemma vcu_gid_init_clock [simp]: "vcu_gid (init_clock g t) = gidw g"
  and vcu_clock_init_clock [simp]: "vcu_clock (init_clock g t) = word_of_int t"
  by (simp_all add: init_clock_def)

lemma set_gid_same:
  assumes "check_gid g" and "vcu_gid c = gidw g"
  shows "set_gid c (to_char g) = Inr c"
proof -
  have "c\<lparr>vcu_gid := gidw g\<rparr> = c" using assms(2) by (cases c) simp
  with assms(1) show ?thesis by (auto elim!: gid_cases simp: set_gid_def check_gid_def)
qed

lemma addVectorClockUnit_present:
  assumes "check_gid g" and "get_clock_unit vc (uint (gidw g)) = Some p"
  shows "addVectorClockUnit vc g t = Inr (vc[p := set_logic_clock (vc ! p) t])"
proof -
  have "vcu_gid (vc ! p) = gidw g" using get_clock_unit_Some assms(2) by blast
  with assms show ?thesis
    by (auto elim!: gid_cases simp: addVectorClockUnit_def set_gid_same [of g])
       (metis bindE_Inr set_gid_same [OF assms(1)])
qed

lemma addVectorClockUnit_absent:
  assumes "vc_wf vc" and "check_gid g" and "gidw g \<notin> gids vc"
  shows "addVectorClockUnit vc g t = Inr (grown vc (init_clock g t))"
proof -
  have none: "get_clock_unit vc (to_char g) = None"
    using assms(2,3) get_clock_unit_None [of vc "gidw g"] by (auto elim!: gid_cases)
  have eq: "init_clock (to_char g) t = init_clock g t"
    using assms(2) by (auto elim!: gid_cases)
  have "vc_wf (init_clock g t # vc)"
    using assms by (auto simp: vc_wf_Cons elim!: gid_cases)
  then have l: "length vc < 15" using length_le_15 by fastforce
  have "\<And>target. copy_units (replicate (Suc (length vc)) VCU0) 0 vc = Inr target \<Longrightarrow>
      get_len vc < get_len target"
    using assms(1) copy_units_ok [of 0 vc "replicate (Suc (length vc)) VCU0"]
    by (auto simp: vc_wf_def get_len_def)
  then show ?thesis
    using grow_ok [of vc "init_clock g t"] assms l none eq
    by (auto simp: addVectorClockUnit_def newVectorClock_ok get_len_def nat_add_distrib
        simp del: replicate_Suc elim!: gid_cases cong: bindE_cong)
qed

lemma addVectorClockUnit_ok:
  assumes "vc_wf vc" and "check_gid g"
  shows "\<exists>r. addVectorClockUnit vc g t = Inr r \<and> vc_wf r \<and> (vc_sorted vc \<longrightarrow> vc_sorted r)
           \<and> vc_map r = (vc_map vc)(gidw g \<mapsto> word_of_int t)"
proof (cases rule: get_clock_unit_cases [of vc "gidw g"])
  case absent
  with assms grown_facts [of vc "init_clock g t"] show ?thesis
    by (auto simp: addVectorClockUnit_absent vc_sorted_imp_wf elim!: gid_cases)
next
  case (present p)
  with assms show ?thesis
    by (simp add: addVectorClockUnit_present vc_wf_update vc_sorted_update vc_map_update)
qed

lemma vc_map_present:
  "vc_wf vc \<Longrightarrow> get_clock_unit vc (uint w) = Some p \<Longrightarrow> vc_map vc w = Some (vcu_clock (vc ! p))"
  using get_clock_unit_Some vc_map_nth by metis

lemma incrLogicClock_map:
  assumes "vc_wf vc" and "check_gid g"
  shows "vc_map (incrLogicClock vc g d)
       = (vc_map vc)(gidw g := map_option (\<lambda>t. t + word_of_int d) (vc_map vc (gidw g)))"
proof (cases rule: get_clock_unit_cases [of vc "gidw g"])
  case absent
  with assms show ?thesis by (auto simp: incrLogicClock_def elim!: gid_cases)
next
  case (present p)
  then have "vc_map (vc[p := set_logic_clock (vc ! p) (get_logic_clock (vc ! p) + d)])
      = (vc_map vc)(gidw g \<mapsto> vcu_clock (vc ! p) + word_of_int d)"
    using assms(1) by (simp add: vc_map_update) (simp add: get_logic_clock_def)
  with present assms show ?thesis
    by (auto simp: incrLogicClock_def vc_map_present elim!: gid_cases)
qed

lemma incrLogicClock_wf:
  "vc_wf vc \<Longrightarrow> vc_wf (incrLogicClock vc g d)"
  "vc_sorted vc \<Longrightarrow> vc_sorted (incrLogicClock vc g d)"
proof -
  have *: "\<And>p. get_clock_unit vc (to_char g) = Some p \<Longrightarrow> p < length vc"
    using scan_gid_Some by (fastforce simp: get_clock_unit_scan)
  show "vc_wf vc \<Longrightarrow> vc_wf (incrLogicClock vc g d)"
    by (auto simp: incrLogicClock_def vc_wf_update * split: option.splits)
  show "vc_sorted vc \<Longrightarrow> vc_sorted (incrLogicClock vc g d)"
    by (auto simp: incrLogicClock_def vc_sorted_update * split: option.splits)
qed

lemma map_set_logic_clock_zero: "map (\<lambda>c. set_logic_clock c 0) vc = map zeroed vc"
  by (simp add: set_logic_clock_def clk_eq_iff)

lemma vc_wf_zeroed: "vc_wf vc \<Longrightarrow> vc_wf (map zeroed vc)"
  by (simp add: vc_wf_def comp_def)

lemma resetVectorClock_facts:
  "vc_wf vc \<Longrightarrow> vc_wf (resetVectorClock vc)"
  "length vc \<noteq> 1 \<Longrightarrow> vc_time (resetVectorClock vc) g = 0"
  by (simp_all add: resetVectorClock_def get_len_def map_set_logic_clock_zero vc_wf_zeroed)

subsection \<open>Merging one gid\<close>

definition merged_unit :: "merge_flag \<Rightarrow> 56 word option \<Rightarrow> 56 word option \<Rightarrow> 56 word option" where
  "merged_unit flag d s =
     (case s of None \<Rightarrow> d
      | Some t \<Rightarrow> (case flag of CLOCK_UNIT_MAX \<Rightarrow> max d s | CLOCK_UNIT_ALIGN \<Rightarrow> s))"

lemma commonMergeFunction_ok:
  assumes "vc_wf dst" and "vc_wf src" and "check_gid g"
  shows "\<exists>r. commonMergeFunction dst src g flag = Inr r \<and> vc_wf r \<and> (vc_sorted dst \<longrightarrow> vc_sorted r)
           \<and> vc_map r = (vc_map dst)(gidw g :=
                merged_unit flag (vc_map dst (gidw g)) (vc_map src (gidw g)))"
proof (cases rule: get_clock_unit_cases [of src "gidw g"])
  case absent
  with assms show ?thesis
    by (auto simp: commonMergeFunction_def merged_unit_def elim!: gid_cases)
next
  case (present sp)
  note src = this
  have ms: "vc_map src (gidw g) = Some (vcu_clock (src ! sp))"
    using src assms(2) by (simp add: vc_map_present)
  show ?thesis
  proof (cases rule: get_clock_unit_cases [of dst "gidw g"])
    case absent
    let ?c = "init_clock g (get_logic_clock (src ! sp))"
    have "commonMergeFunction dst src g flag = Inr (grown dst ?c)"
      using assms src absent grow_ok [of dst ?c]
      by (auto simp: commonMergeFunction_def elim!: gid_cases)
    moreover have "vcu_clock ?c = vcu_clock (src ! sp)" by (simp add: get_logic_clock_def)
    ultimately show ?thesis
      using grown_facts [of dst ?c] assms absent ms
      by (auto simp: vc_sorted_imp_wf merged_unit_def max_def split: merge_flag.splits elim!: gid_cases)
  next
    case (present dp)
    let ?t = "case flag of
        CLOCK_UNIT_MAX \<Rightarrow> (if get_logic_clock (src ! sp) > get_logic_clock (dst ! dp)
                          then get_logic_clock (src ! sp) else get_logic_clock (dst ! dp))
      | CLOCK_UNIT_ALIGN \<Rightarrow> get_logic_clock (src ! sp)"
    have md: "vc_map dst (gidw g) = Some (vcu_clock (dst ! dp))"
      using present assms(1) by (simp add: vc_map_present)
    have t: "Some (word_of_int ?t) = merged_unit flag (vc_map dst (gidw g)) (vc_map src (gidw g))"
      by (auto simp: ms md merged_unit_def max_def get_logic_clock_less_iff not_less
          split: merge_flag.splits) (auto simp: get_logic_clock_def)
    have "commonMergeFunction dst src g flag = Inr (dst[dp := set_logic_clock (dst ! dp) ?t])"
      using assms(3) src present set_gid_same [of g "dst ! dp"]
      by (auto simp: commonMergeFunction_def Let_def elim!: gid_cases)
    with present assms(1) t show ?thesis
      by (simp add: vc_wf_update vc_sorted_update vc_map_update)
  qed
qed

subsection \<open>Comparison\<close>

lemma unit_not_newer_iff:
  assumes "vc_wf future"
  shows "(case get_clock_unit future (get_gid u) of
            None \<Rightarrow> get_logic_clock u = 0
          | Some p \<Rightarrow> \<not> get_logic_clock (future ! p) < get_logic_clock u)
     \<longleftrightarrow> vcu_clock u \<le> vc_time future (vcu_gid u)"
proof (cases rule: get_clock_unit_cases [of future "vcu_gid u"])
  case absent
  then show ?thesis by (simp add: get_gid_def vc_time_def get_logic_clock_0_iff)
next
  case (present p)
  with assms have "vc_time future (vcu_gid u) = vcu_clock (future ! p)"
    by (simp add: vc_time_def vc_map_present)
  with present show ?thesis
    by (simp add: get_gid_def get_logic_clock_less_iff not_less)
qed

lemma all_units_le_iff:
  assumes "vc_wf vc"
  shows "(\<forall>u \<in> set vc. vcu_clock u \<le> f (vcu_gid u)) \<longleftrightarrow> (\<forall>g. vc_time vc g \<le> f g)"
proof
  assume L: "\<forall>u \<in> set vc. vcu_clock u \<le> f (vcu_gid u)"
  show "\<forall>g. vc_time vc g \<le> f g"
  proof
    fix g
    show "vc_time vc g \<le> f g"
    proof (cases "g \<in> gids vc")
      case True
      then obtain u where "u \<in> set vc" "g = vcu_gid u" by auto
      with L assms show ?thesis by (auto simp: vc_time_def vc_map_in_set vc_wf_def)
    next
      case False
      then show ?thesis by (simp add: vc_time_absent)
    qed
  qed
next
  assume R: "\<forall>g. vc_time vc g \<le> f g"
  show "\<forall>u \<in> set vc. vcu_clock u \<le> f (vcu_gid u)"
  proof
    fix u assume "u \<in> set vc"
    then have "vc_time vc (vcu_gid u) = vcu_clock u"
      using assms by (simp add: vc_time_def vc_map_in_set vc_wf_def)
    with R show "vcu_clock u \<le> f (vcu_gid u)" by metis
  qed
qed

lemma isVectorClockMonoIncr_iff:
  assumes "vc_wf current" and "vc_wf future"
  shows "isVectorClockMonoIncr current future \<longleftrightarrow>
           current \<noteq> [] \<and> future \<noteq> [] \<and> length current \<le> length future
           \<and> (\<forall>g. vc_time current g \<le> vc_time future g)"
proof -
  have "list_all (\<lambda>u. case get_clock_unit future (get_gid u) of
            None \<Rightarrow> get_logic_clock u = 0
          | Some p \<Rightarrow> \<not> get_logic_clock (future ! p) < get_logic_clock u) current
      \<longleftrightarrow> (\<forall>g. vc_time current g \<le> vc_time future g)"
    using assms(1) by (simp add: list_all_iff unit_not_newer_iff [OF assms(2)] all_units_le_iff)
  then show ?thesis
    by (auto simp: isVectorClockMonoIncr_def isNullVectorClock_def get_len_def)
qed

lemma units_equal_iff: "length a = length b \<Longrightarrow> units_equal a b \<longleftrightarrow> a = b"
  by (induction a b rule: units_equal.induct)
     (auto simp: get_gid_eq_iff get_logic_clock_def uint_eq_iff_word clk_eq_iff)

lemma VectorClockEqual_iff: "VectorClockEqual a b \<longleftrightarrow> a = b"
  by (auto simp: VectorClockEqual_def isNullVectorClock_def get_len_def units_equal_iff)

subsection \<open>Reading, projecting and purging\<close>

lemma getVectorClockUnit_time:
  assumes "vc_wf vc" and "check_gid g"
  shows "vcu_clock (getVectorClockUnit vc g) = vc_time vc (gidw g)"
proof (cases rule: get_clock_unit_cases [of vc "gidw g"])
  case absent
  with assms show ?thesis
    by (auto simp: getVectorClockUnit_def VCU0_def vc_time_def elim!: gid_cases)
next
  case (present p)
  with assms have "vc_time vc (gidw g) = vcu_clock (vc ! p)"
    by (simp add: vc_time_def vc_map_present)
  with present assms show ?thesis
    by (auto simp: getVectorClockUnit_def isNullVectorClock_def get_len_def elim!: gid_cases)
qed

lemma get_vcu_from_vc_time:
  assumes "vc_wf vc" and "check_gid g"
  shows "fst (get_vcu_from_vc vc g) = uint (vc_time vc (gidw g))"
proof (cases rule: get_clock_unit_cases [of vc "gidw g"])
  case absent
  with assms show ?thesis
    by (auto simp: get_vcu_from_vc_def vc_time_def get_clock_unit_scan elim!: gid_cases)
next
  case (present p)
  with assms have "vc_time vc (gidw g) = vcu_clock (vc ! p)"
    by (simp add: vc_time_def vc_map_present)
  with present assms show ?thesis
    by (auto simp: get_vcu_from_vc_def get_clock_unit_scan get_logic_clock_def elim!: gid_cases)
qed

lemma getMonoVectorClock_ok:
  assumes "vc_wf src" and "check_gid g"
  shows "\<exists>r. getMonoVectorClock src g = Inr r \<and> vc_sorted r
           \<and> vc_map r = (vc_map src) |` {gidw g}"
proof (cases rule: get_clock_unit_cases [of src "gidw g"])
  case absent
  then have "vc_map src |` {gidw g} = Map.empty"
    by (auto simp: fun_eq_iff restrict_map_def)
  with absent assms show ?thesis
    by (auto simp: getMonoVectorClock_def newVectorClock_ok elim!: gid_cases)
next
  case (present p)
  have nz: "vcu_gid (src ! p) \<noteq> 0" using present assms(2) by (auto elim!: gid_cases)
  have "getMonoVectorClock src g = Inr [src ! p]"
    using present assms(2) nz
    by (auto simp: getMonoVectorClock_def newVectorClock_ok get_clock_unit_by_index_ok set_gid_get
        set_logic_clock_def clk_eq_iff elim!: gid_cases) (simp add: get_logic_clock_def)
  moreover have "vc_map src |` {gidw g} = vc_map [src ! p]"
    using present assms(1) by (auto simp: fun_eq_iff restrict_map_def vc_map_present)
  ultimately show ?thesis using nz by (auto simp: vc_sorted_Cons)
qed

lemma purge_keeps_iff: "vc_wf src \<Longrightarrow> purge_keeps src u \<longleftrightarrow> vc_time src (vcu_gid u) < vcu_clock u"
  using unit_not_newer_iff [of src u]
  by (auto simp: purge_keeps_def not_le [symmetric] split: option.splits)

lemma vc_map_filter:
  assumes "vc_wf vc"
  shows "vc_map (filter P vc) g =
           (case vc_map vc g of None \<Rightarrow> None
            | Some t \<Rightarrow> if P \<lparr>vcu_clock = t, vcu_gid = g\<rparr> then Some t else None)"
  using assms
proof (induction vc)
  case Nil
  then show ?case by simp
next
  case (Cons c cs)
  have "vc_map (filter P cs) (vcu_gid c) = None"
    using Cons.prems by (auto simp: vc_wf_Cons vc_map_None_iff)
  then show ?case
    using Cons by (cases c) (auto simp: vc_wf_Cons)
qed

lemma purgeVectorClock_ok:
  assumes "vc_wf targe" and "vc_wf src" and "targe \<noteq> []" and "src \<noteq> []"
  shows "\<exists>r. purgeVectorClock targe src = Inr r \<and> vc_sorted r
           \<and> (\<forall>g. vc_map r g = (if vc_time src g < vc_time targe g then vc_map targe g else None))"
proof -
  let ?c = "filter (purge_keeps src) targe"
  have wf: "vc_wf ?c" using assms(1) by (auto simp: vc_wf_def distinct_map_filter_fst)
  have "length ?c \<le> 15" using wf by (rule length_le_15)
  then have "purgeVectorClock targe src = Inr (sortVectorClock ?c)"
    using assms(3,4) wf
    by (simp add: purgeVectorClock_def isNullVectorClock_def get_len_def Let_def newVectorClock_ok0
        copy_units_fill vc_wf_def)
  moreover have "vc_map (sortVectorClock ?c) g
      = (if vc_time src g < vc_time targe g then vc_map targe g else None)" for g
    using wf assms(1,2)
    by (auto simp: vc_map_filter purge_keeps_iff vc_time_def split: option.splits)
  ultimately show ?thesis using wf by (simp add: vc_sorted_sortVectorClock)
qed

end
