(* ===== verification/Vector_Clock_Theorems.thy ===== *)
theory Vector_Clock_Theorems
  imports Vector_Clock_Ops
begin

section \<open>Vector clocks: the properties\<close>

text \<open>
  The statements the rest of the server relies on, each with an instance at concrete clocks. They
  rest on the facts of the interpretations \<open>vcj\<close> and \<open>vcm\<close> and on the operation lemmas of
  \<open>Vector_Clock_Ops\<close>. \<open>mk_vc\<close> builds a clock from its text-like form, a list of (gid, clock) pairs.
\<close>

definition mk_vc :: "(int \<times> int) list \<Rightarrow> VectorClock" where
  "mk_vc = map (\<lambda>(g, t). init_clock g t)"

text \<open>Merging a sequence of received clocks into a local one, one \<open>vectorClockMerge\<close> at a time.\<close>

definition merge_into :: "VectorClock \<Rightarrow> VectorClock \<Rightarrow> VectorClock res" where
  "merge_into x acc = bindE (vectorClockMerge acc x) (\<lambda>(r, _, _). Inr r)"

definition merge_min_into :: "VectorClock \<Rightarrow> VectorClock \<Rightarrow> VectorClock res" where
  "merge_min_into x acc = bindE (mergeMinVectorClock acc x) (\<lambda>(r, _, _). Inr r)"

subsection \<open>Folding merges\<close>

lemma vc_map_set_eq: "vc_wf a \<Longrightarrow> vc_wf b \<Longrightarrow> set a = set b \<Longrightarrow> vc_map a = vc_map b"
  unfolding vc_map_def
  by (rule map_of_inject_set [THEN iffD2]) (auto simp: vc_wf_def comp_def)

lemma sort_sortVectorClock [simp]: "sortVectorClock (sortVectorClock a) = sortVectorClock a"
  by (simp add: sortVectorClock_eq sort_key_id_if_sorted)

lemma vc_join_sort [simp]:
  "vc_join (sortVectorClock a) b = vc_join a b" "vc_join a (sortVectorClock b) = vc_join a b"
  by (simp_all add: vc_join_def)

lemma vc_meet_sort [simp]:
  "vc_meet (sortVectorClock a) b = vc_meet a b" "vc_meet a (sortVectorClock b) = vc_meet a b"
  by (simp_all add: vc_meet_def)

lemma merge_into_ok:
  assumes "vc_wf acc" and "vc_wf x"
  shows "\<exists>r. merge_into x acc = Inr r \<and> vc_wf r \<and> sortVectorClock r = vc_join acc x"
  using vectorClockMerge_ok [OF assms] by (auto simp: merge_into_def)

lemma foldE_merge_into:
  assumes "vc_wf a" and "\<forall>x \<in> set xs. vc_wf x"
  shows "\<exists>r. foldE merge_into xs a = Inr r \<and> vc_wf r
     \<and> sortVectorClock r = foldl vc_join (sortVectorClock a) (map sortVectorClock xs)"
  using assms
proof (induction xs arbitrary: a)
  case Nil
  then show ?case by simp
next
  case (Cons x xs)
  then obtain r where r: "merge_into x a = Inr r" "vc_wf r" "sortVectorClock r = vc_join a x"
    using merge_into_ok [of a x] by auto
  with Cons.IH [of r] Cons.prems show ?case by auto
qed

lemma uint_gidw: "check_gid g \<Longrightarrow> uint (gidw g) = g"
  by (erule gid_cases)

lemma gidw_eq_iff: "check_gid g \<Longrightarrow> check_gid h \<Longrightarrow> gidw g = gidw h \<longleftrightarrow> g = h"
  by (metis uint_gidw)

lemma gids_vc_join: "gids (vc_join a b) = gids a \<union> gids b"
  by (simp add: vc_join_def gids_join_units)

lemma vc_time_vc_join:
  assumes "vc_wf a" and "vc_wf b"
  shows "vc_time (vc_join a b) g = max (vc_time a g) (vc_time b g)"
  by (cases "vc_map a g"; cases "vc_map b g")
     (simp_all add: vc_time_def vc_map_vc_join [OF assms] max_def)

subsection \<open>Merge\<close>

text \<open>
  C13. \<open>vectorClockMerge\<close> never faults on well-formed clocks and its result maps every gid to the
  maximum of the two arguments (a missing unit is below every clock); the arguments keep their units.
\<close>

theorem vectorClockMerge_pointwise_max:
  assumes "vc_wf a" and "vc_wf b"
  shows "\<exists>r a' b'. vectorClockMerge a b = Inr (r, a', b') \<and> vc_wf r
       \<and> (\<forall>g. vc_map r g = max (vc_map a g) (vc_map b g))
       \<and> vc_map a' = vc_map a \<and> vc_map b' = vc_map b"
proof -
  from vectorClockMerge_ok [OF assms] obtain r a' b' where r:
      "vectorClockMerge a b = Inr (r, a', b')" "vc_wf r" "sortVectorClock r = vc_join a b"
      "set a' = set a" "set b' = set b" "vc_wf a'" "vc_wf b'"
    by blast
  have "vc_map r = vc_map (vc_join a b)" using vc_map_sortVectorClock [OF r(2)] r(3) by simp
  then have "vc_map r g = max (vc_map a g) (vc_map b g)" for g
    using assms by (simp only: vc_map_vc_join)
  with r assms show ?thesis using vc_map_set_eq by blast
qed

theorem vectorClockMerge_pointwise_max_witness:
  "\<exists>r a' b'. vectorClockMerge (mk_vc [(2, 5), (1, 3)]) (mk_vc [(1, 4), (3, 1)]) = Inr (r, a', b')
     \<and> vc_map r 1 = Some 4 \<and> vc_map r 2 = Some 5 \<and> vc_map r 3 = Some 1"
proof -
  have "vc_wf (mk_vc [(2, 5), (1, 3)])" "vc_wf (mk_vc [(1, 4), (3, 1)])" by code_simp+
  from vectorClockMerge_pointwise_max [OF this] obtain r a' b' where r:
      "vectorClockMerge (mk_vc [(2, 5), (1, 3)]) (mk_vc [(1, 4), (3, 1)]) = Inr (r, a', b')"
      "\<forall>g. vc_map r g = max (vc_map (mk_vc [(2, 5), (1, 3)]) g) (vc_map (mk_vc [(1, 4), (3, 1)]) g)"
    by blast
  moreover have "max (vc_map (mk_vc [(2, 5), (1, 3)]) 1) (vc_map (mk_vc [(1, 4), (3, 1)]) 1) = Some 4"
    "max (vc_map (mk_vc [(2, 5), (1, 3)]) 2) (vc_map (mk_vc [(1, 4), (3, 1)]) 2) = Some 5"
    "max (vc_map (mk_vc [(2, 5), (1, 3)]) 3) (vc_map (mk_vc [(1, 4), (3, 1)]) 3) = Some 1"
    by code_simp+
  ultimately show ?thesis by metis
qed

text \<open>
  C14. Convergence: two replicas that start from one clock and merge the same clocks, in any order and
  any number of times, both succeed and end with clocks that \<open>VectorClockEqual\<close> accepts after sorting.
\<close>

theorem merges_converge:
  assumes "vc_wf a" and "\<forall>x \<in> set xs. vc_wf x" and "set xs = set ys"
  shows "\<exists>r s. foldE merge_into xs a = Inr r \<and> foldE merge_into ys a = Inr s
       \<and> vc_wf r \<and> vc_wf s \<and> VectorClockEqual (sortVectorClock r) (sortVectorClock s)"
proof -
  have ys: "\<forall>x \<in> set ys. vc_wf x" using assms(2,3) by simp
  have "foldl vc_join (sortVectorClock a) (map sortVectorClock xs)
      = foldl vc_join (sortVectorClock a) (map sortVectorClock ys)"
    by (rule vcj.foldl_set_eq) (use assms in \<open>auto simp: vc_sorted_sortVectorClock\<close>)
  with foldE_merge_into [OF assms(1,2)] foldE_merge_into [OF assms(1) ys] show ?thesis
    by (auto simp: VectorClockEqual_iff)
qed

theorem merges_converge_witness:
  "\<exists>r s. foldE merge_into [mk_vc [(2, 7)], mk_vc [(1, 9), (3, 2)]] (mk_vc [(1, 3)]) = Inr r
     \<and> foldE merge_into [mk_vc [(1, 9), (3, 2)], mk_vc [(2, 7)], mk_vc [(1, 9), (3, 2)]]
         (mk_vc [(1, 3)]) = Inr s
     \<and> VectorClockEqual (sortVectorClock r) (sortVectorClock s)"
proof -
  have a: "vc_wf (mk_vc [(1, 3)])" "vc_wf (mk_vc [(2, 7)])" "vc_wf (mk_vc [(1, 9), (3, 2)])"
    by code_simp+
  have w: "\<forall>x \<in> set [mk_vc [(2, 7)], mk_vc [(1, 9), (3, 2)]]. vc_wf x" using a by simp
  have "set [mk_vc [(2, 7)], mk_vc [(1, 9), (3, 2)]]
      = set [mk_vc [(1, 9), (3, 2)], mk_vc [(2, 7)], mk_vc [(1, 9), (3, 2)]]" by auto
  from merges_converge [OF a(1) w this] show ?thesis by blast
qed

text \<open>
  C15. \<open>mergeMinVectorClock\<close> never faults on well-formed clocks and its result gives every gid the
  minimum of the two times, a missing unit counting as time 0; it keeps a unit for every gid of either
  argument.
\<close>

theorem mergeMinVectorClock_pointwise_min:
  assumes "vc_wf a" and "vc_wf b"
  shows "\<exists>r a' b'. mergeMinVectorClock a b = Inr (r, a', b') \<and> vc_wf r
       \<and> (\<forall>g. vc_time r g = min (vc_time a g) (vc_time b g))
       \<and> gids r = gids a \<union> gids b \<and> vc_map a' = vc_map a \<and> vc_map b' = vc_map b"
proof -
  from mergeMinVectorClock_ok [OF assms] obtain r a' b' where r:
      "mergeMinVectorClock a b = Inr (r, a', b')" "vc_wf r" "sortVectorClock r = vc_meet a b"
      "set a' = set a" "set b' = set b" "vc_wf a'" "vc_wf b'"
    by blast
  have "vc_map r = vc_map (vc_meet a b)" using vc_map_sortVectorClock [OF r(2)] r(3) by simp
  then have "vc_time r g = min (vc_time a g) (vc_time b g)" for g
    using vc_time_vc_meet [OF assms, of g] by (simp add: vc_time_def)
  moreover have "set r = set (vc_meet a b)" using set_sortVectorClock [of r] r(3) by simp
  then have "gids r = gids a \<union> gids b" by (simp add: gids_vc_meet)
  moreover have "vc_map a' = vc_map a" "vc_map b' = vc_map b"
    using vc_map_set_eq [OF r(6) assms(1) r(4)] vc_map_set_eq [OF r(7) assms(2) r(5)] .
  ultimately show ?thesis using r(1,2) by simp
qed

theorem mergeMinVectorClock_pointwise_min_witness:
  "\<exists>r a' b'. mergeMinVectorClock (mk_vc [(2, 5), (1, 3)]) (mk_vc [(1, 4), (3, 1)]) = Inr (r, a', b')
     \<and> vc_time r 1 = 3 \<and> vc_time r 2 = 0 \<and> vc_time r 3 = 0"
proof -
  let ?a = "mk_vc [(2, 5), (1, 3)]" and ?b = "mk_vc [(1, 4), (3, 1)]"
  have "vc_wf ?a" "vc_wf ?b" by code_simp+
  from mergeMinVectorClock_pointwise_min [OF this] obtain r a' b' where
      "mergeMinVectorClock ?a ?b = Inr (r, a', b')"
      "\<forall>g. vc_time r g = min (vc_time ?a g) (vc_time ?b g)"
    by (elim exE conjE) (rule that)
  moreover have "min (vc_time ?a 1) (vc_time ?b 1) = 3" "min (vc_time ?a 2) (vc_time ?b 2) = 0"
    "min (vc_time ?a 3) (vc_time ?b 3) = 0"
    by code_simp+
  ultimately show ?thesis by metis
qed

subsection \<open>Order\<close>

text \<open>
  C16. \<open>isVectorClockMonoIncr\<close> decides the causal order: it accepts exactly when both clocks are
  non-empty, the first has no more units than the second, and no gid's time decreases.
\<close>

theorem isVectorClockMonoIncr_decides:
  assumes "vc_wf current" and "vc_wf future"
  shows "isVectorClockMonoIncr current future \<longleftrightarrow>
           current \<noteq> [] \<and> future \<noteq> [] \<and> length current \<le> length future
           \<and> (\<forall>g. vc_time current g \<le> vc_time future g)"
  using assms by (rule isVectorClockMonoIncr_iff)

theorem isVectorClockMonoIncr_decides_witness:
  "\<not> (\<forall>g. vc_time (mk_vc [(1, 4)]) g \<le> vc_time (mk_vc [(1, 3), (2, 9)]) g)"
proof -
  have "vc_wf (mk_vc [(1, 4)])" "vc_wf (mk_vc [(1, 3), (2, 9)])"
    "\<not> isVectorClockMonoIncr (mk_vc [(1, 4)]) (mk_vc [(1, 3), (2, 9)])"
    by code_simp+
  with isVectorClockMonoIncr_decides [of "mk_vc [(1, 4)]" "mk_vc [(1, 3), (2, 9)]"]
  show ?thesis by (simp add: mk_vc_def)
qed

text \<open>
  The merge of two non-empty clocks is their least upper bound: \<open>isVectorClockMonoIncr\<close> accepts
  it after either argument, and every clock at or above both arguments is at or above it.
\<close>

theorem vectorClockMerge_least_upper:
  assumes "vc_wf a" and "vc_wf b" and "a \<noteq> []" and "b \<noteq> []"
  shows "\<exists>r a' b'. vectorClockMerge a b = Inr (r, a', b')
       \<and> isVectorClockMonoIncr a r \<and> isVectorClockMonoIncr b r
       \<and> (\<forall>c g. vc_time a g \<le> vc_time c g \<and> vc_time b g \<le> vc_time c g \<longrightarrow> vc_time r g \<le> vc_time c g)"
proof -
  from vectorClockMerge_ok [OF assms(1,2)] obtain r a' b' where r:
      "vectorClockMerge a b = Inr (r, a', b')" "vc_wf r" "r = vc_join a b"
    using assms(3,4) by blast
  have t: "vc_time r g = max (vc_time a g) (vc_time b g)" for g
    using assms(1,2) r(3) by (simp add: vc_time_vc_join)
  have "gids r = gids a \<union> gids b" using r(3) by (simp add: gids_vc_join)
  then have "card (gids a) \<le> card (gids r)" "card (gids b) \<le> card (gids r)"
    by (simp_all add: card_mono)
  then have "length a \<le> length r" "length b \<le> length r"
    using assms(1,2) r(2) by (simp_all add: length_gids)
  with assms r t show ?thesis by (auto simp: isVectorClockMonoIncr_iff)
qed

theorem vectorClockMerge_least_upper_witness:
  "\<exists>r a' b'. vectorClockMerge (mk_vc [(1, 3)]) (mk_vc [(2, 9)]) = Inr (r, a', b')
     \<and> isVectorClockMonoIncr (mk_vc [(1, 3)]) r \<and> isVectorClockMonoIncr (mk_vc [(2, 9)]) r"
proof -
  have "vc_wf (mk_vc [(1, 3)])" "vc_wf (mk_vc [(2, 9)])" "mk_vc [(1, 3)] \<noteq> []" "mk_vc [(2, 9)] \<noteq> []"
    by code_simp+
  from vectorClockMerge_least_upper [OF this] show ?thesis by blast
qed

subsection \<open>Single units\<close>

text \<open>
  A unit added with \<open>addVectorClockUnit\<close> is the unit \<open>getVectorClockUnit\<close> reads back, its clock
  reduced to 56 bits; every other gid reads as before, the call never faults for a valid gid, and a
  sorted clock stays sorted.
\<close>

theorem addVectorClockUnit_getVectorClockUnit:
  assumes "vc_wf vc" and "check_gid g" and "check_gid h"
  shows "\<exists>r. addVectorClockUnit vc g t = Inr r \<and> vc_wf r \<and> (vc_sorted vc \<longrightarrow> vc_sorted r)
       \<and> get_logic_clock (getVectorClockUnit r h)
           = (if h = g then t mod 2 ^ 56 else get_logic_clock (getVectorClockUnit vc h))"
proof -
  from addVectorClockUnit_ok [OF assms(1,2)] obtain r where r:
      "addVectorClockUnit vc g t = Inr r" "vc_wf r" "vc_sorted vc \<longrightarrow> vc_sorted r"
      "vc_map r = (vc_map vc)(gidw g \<mapsto> word_of_int t)"
    by blast
  note gh = gidw_eq_iff [OF assms(3,2)]
  have "vc_time r (gidw h) = (if h = g then word_of_int t else vc_time vc (gidw h))"
    using gh by (simp add: vc_time_def r(4))
  then have "get_logic_clock (getVectorClockUnit r h)
      = (if h = g then t mod 2 ^ 56 else get_logic_clock (getVectorClockUnit vc h))"
    using assms r(2) by (simp add: get_logic_clock_def getVectorClockUnit_time uint_word_of_int)
  with r show ?thesis by blast
qed

theorem addVectorClockUnit_getVectorClockUnit_witness:
  "\<exists>r. addVectorClockUnit (mk_vc [(3, 8)]) 2 7 = Inr r \<and> get_logic_clock (getVectorClockUnit r 2) = 7"
proof -
  have "vc_wf (mk_vc [(3, 8)])" "check_gid 2" by code_simp+
  from addVectorClockUnit_getVectorClockUnit [OF this(1,2,2), of 7] show ?thesis by auto
qed

text \<open>
  \<open>incrLogicClock\<close> adds to the clock of one gid modulo \<open>2 ^ 56\<close>, leaves every other gid alone and
  does nothing when the gid has no unit.
\<close>

theorem incrLogicClock_wraps:
  assumes "vc_wf vc" and "check_gid g" and "check_gid h"
  shows "vc_wf (incrLogicClock vc g d)
       \<and> get_logic_clock (getVectorClockUnit (incrLogicClock vc g d) h)
         = (if h = g \<and> gidw g \<in> gids vc
            then (get_logic_clock (getVectorClockUnit vc g) + d) mod 2 ^ 56
            else get_logic_clock (getVectorClockUnit vc h))"
proof -
  note gh = gidw_eq_iff [OF assms(3,2)]
  have "vc_time (incrLogicClock vc g d) (gidw h)
      = (if h = g \<and> gidw g \<in> gids vc then vc_time vc (gidw g) + word_of_int d else vc_time vc (gidw h))"
    using vc_map_None_iff [of vc "gidw g"] gh
    by (auto simp: vc_time_def incrLogicClock_map [OF assms(1,2)] split: option.splits)
  moreover have "uint (w + word_of_int d) = (uint w + d) mod 2 ^ 56" for w :: "56 word"
    by (simp add: uint_word_ariths uint_word_of_int mod_add_right_eq)
  ultimately show ?thesis
    using assms incrLogicClock_wf(1) by (simp add: get_logic_clock_def getVectorClockUnit_time)
qed

theorem incrLogicClock_wraps_witness:
  "get_logic_clock (getVectorClockUnit (incrLogicClock (mk_vc [(1, 2 ^ 56 - 1)]) 1 3) 1) = 2"
proof -
  have w: "vc_wf (mk_vc [(1, 2 ^ 56 - 1)])" "check_gid 1" "gidw 1 \<in> gids (mk_vc [(1, 2 ^ 56 - 1)])"
    "get_logic_clock (getVectorClockUnit (mk_vc [(1, 2 ^ 56 - 1)]) 1) = 2 ^ 56 - 1"
    by code_simp+
  from incrLogicClock_wraps [OF this(1,2,2), of 3] w(3,4) show ?thesis by simp
qed

text \<open>
  \<open>updateProcessVectorClock\<close> changes at most the unit of the command's gid: a peer's unit becomes
  the maximum of the two clocks, this server's own unit becomes the sender's, and nothing changes when
  the sender has no unit for the gid.
\<close>

theorem updateProcessVectorClock_unit:
  assumes "vc_wf dst" and "vc_wf src" and "check_gid g"
  shows "\<exists>r. updateProcessVectorClock dst src g currentGid = Inr r \<and> vc_wf r
       \<and> (\<forall>h. vc_map r h =
             (if h = gidw g \<and> vc_map src h \<noteq> None
              then (if g = currentGid then vc_map src h else max (vc_map dst h) (vc_map src h))
              else vc_map dst h))"
  using commonMergeFunction_ok [OF assms, of CLOCK_UNIT_MAX]
    commonMergeFunction_ok [OF assms, of CLOCK_UNIT_ALIGN]
  by (auto simp: updateProcessVectorClock_def merged_unit_def split: option.splits)

theorem updateProcessVectorClock_unit_witness:
  "\<exists>r. updateProcessVectorClock (mk_vc [(1, 9), (2, 4)]) (mk_vc [(1, 6)]) 1 2 = Inr r
     \<and> vc_map r 1 = Some 9 \<and> vc_map r 2 = Some 4"
proof -
  let ?d = "mk_vc [(1, 9), (2, 4)]" and ?s = "mk_vc [(1, 6)]"
  have "vc_wf ?d" "vc_wf ?s" "check_gid 1" by code_simp+
  from updateProcessVectorClock_unit [OF this, of 2] obtain r where
      "updateProcessVectorClock ?d ?s 1 2 = Inr r"
      "\<forall>h. vc_map r h = (if h = gidw 1 \<and> vc_map ?s h \<noteq> None
         then (if (1::int) = 2 then vc_map ?s h else max (vc_map ?d h) (vc_map ?s h)) else vc_map ?d h)"
    by (elim exE conjE) (rule that)
  moreover have "max (vc_map ?d 1) (vc_map ?s 1) = Some 9" "vc_map ?s 1 \<noteq> None" "vc_map ?d 2 = Some 4"
    by code_simp+
  ultimately show ?thesis by simp
qed

text \<open>
  Purging a clock by another keeps exactly the units that are newer than the other clock, and the
  merge of the purged clock with the other gives back every time of the original.
\<close>

theorem purgeVectorClock_keeps_newer:
  assumes "vc_wf targe" and "vc_wf src" and "targe \<noteq> []" and "src \<noteq> []"
  shows "\<exists>r. purgeVectorClock targe src = Inr r \<and> vc_sorted r
       \<and> (\<forall>g. vc_map r g = (if vc_time src g < vc_time targe g then vc_map targe g else None))
       \<and> (\<forall>g. max (vc_time r g) (vc_time src g) = max (vc_time targe g) (vc_time src g))"
proof -
  from purgeVectorClock_ok [OF assms] obtain r where r: "purgeVectorClock targe src = Inr r" "vc_sorted r"
      "\<forall>g. vc_map r g = (if vc_time src g < vc_time targe g then vc_map targe g else None)"
    by blast
  have "vc_time r g = (if vc_time src g < vc_time targe g then vc_time targe g else 0)" for g
    using r(3) by (simp add: vc_time_def [of r] vc_time_def [of targe g])
  then have "max (vc_time r g) (vc_time src g) = max (vc_time targe g) (vc_time src g)" for g
    by (cases "vc_time src g < vc_time targe g") (simp_all add: max_def not_less)
  with r show ?thesis by blast
qed

theorem purgeVectorClock_keeps_newer_witness:
  "\<exists>r. purgeVectorClock (mk_vc [(1, 9), (2, 4)]) (mk_vc [(1, 6), (2, 4)]) = Inr r
     \<and> vc_map r 1 = Some 9 \<and> vc_map r 2 = None"
proof -
  let ?t = "mk_vc [(1, 9), (2, 4)]" and ?s = "mk_vc [(1, 6), (2, 4)]"
  have "vc_wf ?t" "vc_wf ?s" "?t \<noteq> []" "?s \<noteq> []" by code_simp+
  from purgeVectorClock_keeps_newer [OF this] obtain r where
      "purgeVectorClock ?t ?s = Inr r"
      "\<forall>g. vc_map r g = (if vc_time ?s g < vc_time ?t g then vc_map ?t g else None)"
    by (elim exE conjE) (rule that)
  moreover have "vc_time ?s 1 < vc_time ?t 1" "vc_map ?t 1 = Some 9" "\<not> vc_time ?s 2 < vc_time ?t 2"
    by code_simp+
  ultimately show ?thesis by simp
qed

text \<open>
  A clock with two units of one gid makes \<open>vectorClockMerge\<close> write past the array it allocated:
  \<open>count_all_gid_num\<close> sizes the result by the distinct gids and the loops copy every unit.
\<close>

theorem vectorClockMerge_duplicate_gid_overflow:
  "vectorClockMerge (mk_vc [(1, 5), (1, 6)]) (mk_vc [(2, 7)]) = Inl OutOfBounds"
  by code_simp

text \<open>
  \<open>resetVectorClock\<close> sets every time of a clock to 0 when the clock has no unit or more than one,
  and leaves a clock with one unit, whatever its time, as it was.
\<close>

theorem resetVectorClock_multi_only:
  assumes "vc_wf vc"
  shows "vc_wf (resetVectorClock vc)
       \<and> (if length vc = 1 then resetVectorClock vc = vc else \<forall>g. vc_time (resetVectorClock vc) g = 0)"
  using assms resetVectorClock_facts by (simp add: resetVectorClock_def get_len_def)

theorem resetVectorClock_multi_only_witness:
  "vc_time (resetVectorClock (mk_vc [(1, 7), (2, 3)])) 1 = 0
   \<and> vc_time (resetVectorClock (mk_vc [(1, 7)])) 1 = 7"
proof -
  have "vc_wf (mk_vc [(1, 7), (2, 3)])" "vc_wf (mk_vc [(1, 7)])" "vc_time (mk_vc [(1, 7)]) 1 = 7"
    by code_simp+
  then show ?thesis
    using resetVectorClock_multi_only [of "mk_vc [(1, 7), (2, 3)]"]
      resetVectorClock_multi_only [of "mk_vc [(1, 7)]"] by (simp add: mk_vc_def)
qed

end
