(* ===== verification/Xpipe_Proxy.thy ===== *)
theory Xpipe_Proxy
  imports Num_Text Sds_Strings
begin

section \<open>Proxies between peers\<close>

text \<open>
  The model of \<^verbatim>\<open>src/src/xpipe_proxy.c\<close> and of the dispatch on the proxy type in \<^verbatim>\<open>src/src/proxy.c\<close>: parsing
  and printing proxy servers, the comparison used by \<^verbatim>\<open>PEEROF\<close>, and the route command sent to a proxy
  after connecting. Sockets are not modelled; the choice of a random server takes the random number as
  an argument.
\<close>

subsection \<open>Points and proxies\<close>

datatype point_type = XPIPE_PROXY_NONE | XPIPE_PROXY_TCP | XPIPE_PROXY_TLS

record Point =
  pt_host :: string
  pt_port :: int
  pt_type :: point_type

record XpipeProxy =
  servers :: "Point list"
  servers_index :: nat
  params :: "string option"

text \<open>A proxy pointer with its type: a null pointer has the type \<^verbatim>\<open>NONE_PROXY\<close>.\<close>

datatype proxy_type = NONE_PROXY | XPIPE_PROXY

definition to_int32 :: "int \<Rightarrow> int" where
  "to_int32 x = sint (word_of_int x :: 32 word)"

text \<open>\<^verbatim>\<open>strcasecmp\<close> on C strings, as a test for equality.\<close>

definition strcaseeq :: "string \<Rightarrow> string \<Rightarrow> bool" where
  "strcaseeq a b \<longleftrightarrow>
     map c_tolower (takeWhile (\<lambda>c. c \<noteq> CHR 0x00) a) = map c_tolower (takeWhile (\<lambda>c. c \<noteq> CHR 0x00) b)"

definition parsePort :: "string \<Rightarrow> point_type \<Rightarrow> string \<Rightarrow> Point option" where
  "parsePort host type port_str =
     map_option (\<lambda>port. \<lparr>pt_host = host, pt_port = to_int32 port, pt_type = type\<rparr>) (string2l port_str)"

definition parsePoint :: "string \<Rightarrow> Point option" where
  "parsePoint str =
     (case sdssplitlen str '':'' of
        Some [host, port_str] \<Rightarrow> parsePort host XPIPE_PROXY_NONE port_str
      | Some [protocol, host, port_str] \<Rightarrow>
          if protocol = ''PROXYTCP''
          then parsePort (sdsrange host 2 (- 1)) XPIPE_PROXY_TCP port_str
          else None
      | _ \<Rightarrow> None)"

fun parsePoints :: "string list \<Rightarrow> Point list option" where
  "parsePoints [] = Some []"
| "parsePoints (u # us) =
     (case parsePoint u of
        None \<Rightarrow> None
      | Some p \<Rightarrow> (case parsePoints us of None \<Rightarrow> None | Some ps \<Rightarrow> Some (p # ps)))"

definition parseServers :: "string \<Rightarrow> Point list option" where
  "parseServers vcStr = (case sdssplitlen vcStr '','' of None \<Rightarrow> None | Some us \<Rightarrow> parsePoints us)"

definition createXpipeProxy :: XpipeProxy where
  "createXpipeProxy = \<lparr>servers = [], servers_index = 0, params = None\<rparr>"

definition getPointInfo :: "Point \<Rightarrow> string" where
  "getPointInfo p =
     (case pt_type p of
        XPIPE_PROXY_TCP \<Rightarrow> ''PROXYTCP://''
      | XPIPE_PROXY_TLS \<Rightarrow> ''PROXYTLS://''
      | XPIPE_PROXY_NONE \<Rightarrow> []) @ pt_host p @ '':'' @ show_int (pt_port p)"

definition getProxyServersInfo :: "XpipeProxy \<Rightarrow> string res" where
  "getProxyServersInfo proxy =
     (case servers proxy of
        [] \<Rightarrow> Inl OutOfBounds
      | p # ps \<Rightarrow> Inr (getPointInfo p @ concat (map (\<lambda>q. '','' @ getPointInfo q) ps)))"

subsection \<open>Arguments and configuration\<close>

text \<open>The arguments from index 4 on; an option name without a value reads past the argument array.\<close>

fun parseXpipeProxyArgs :: "string list \<Rightarrow> XpipeProxy \<Rightarrow> XpipeProxy res" where
  "parseXpipeProxyArgs [] proxy = Inr proxy"
| "parseXpipeProxyArgs (a # as) proxy =
     (if strcaseeq a ''proxy-servers'' then
        (case as of
           [] \<Rightarrow> Inl OutOfBounds
         | v # bs \<Rightarrow>
             parseXpipeProxyArgs bs
               (case parseServers v of
                  None \<Rightarrow> proxy
                | Some ps \<Rightarrow> proxy\<lparr>servers := ps, servers_index := 0\<rparr>))
      else if strcaseeq a ''proxy-params'' then
        (case as of
           [] \<Rightarrow> Inl OutOfBounds
         | v # bs \<Rightarrow> parseXpipeProxyArgs bs (proxy\<lparr>params := Some v\<rparr>))
      else parseXpipeProxyArgs as proxy)"

definition parseXpipeProxyByArray :: "string list \<Rightarrow> XpipeProxy option res" where
  "parseXpipeProxyByArray argv =
     bindE (parseXpipeProxyArgs (drop 4 argv) createXpipeProxy)
       (\<lambda>proxy. Inr (if servers proxy = [] then None else Some proxy))"

definition getXpipeProxyConfigInfo :: "XpipeProxy \<Rightarrow> string res" where
  "getXpipeProxyConfigInfo proxy =
     bindE (getProxyServersInfo proxy) (\<lambda>srvs.
     Inr (''proxy-type XPIPE-PROXY proxy-servers '' @ srvs @
          (case params proxy of None \<Rightarrow> [] | Some ps \<Rightarrow> '' proxy-params '' @ [CHR 0x27] @ ps @ [CHR 0x27])))"

subsection \<open>Comparison\<close>

definition eqPoint :: "Point \<Rightarrow> Point \<Rightarrow> bool" where
  "eqPoint p1 p2 =
     (if sdscmp (pt_host p1) (pt_host p2) \<noteq> 0 then False
      else if pt_port p1 \<noteq> pt_port p2 then False
      else True)"

definition eqParams :: "string option \<Rightarrow> string option \<Rightarrow> bool" where
  "eqParams a b =
     (case (a, b) of
        (None, Some _) \<Rightarrow> False
      | (Some _, None) \<Rightarrow> False
      | (Some x, Some y) \<Rightarrow> sdscmp x y = 0
      | (None, None) \<Rightarrow> True)"

definition eqXpipeProxy :: "XpipeProxy \<Rightarrow> XpipeProxy \<Rightarrow> bool" where
  "eqXpipeProxy proxy1 proxy2 =
     (if \<not> eqParams (params proxy1) (params proxy2) then False
      else if length (servers proxy1) \<noteq> length (servers proxy2) then False
      else list_all (\<lambda>s1. list_ex (\<lambda>s2. eqPoint s1 s2) (servers proxy2)) (servers proxy1))"

fun find_point :: "Point \<Rightarrow> Point list \<Rightarrow> nat \<Rightarrow> nat option" where
  "find_point p [] i = None"
| "find_point p (q # qs) i = (if eqPoint p q then Some i else find_point p qs (Suc i))"

text \<open>The second component is the new proxy after the call, which may move its current server.\<close>

definition xpipeProxyIsKeepConnected :: "XpipeProxy \<Rightarrow> XpipeProxy \<Rightarrow> (bool \<times> XpipeProxy) res" where
  "xpipeProxyIsKeepConnected current peer =
     (if servers_index current \<ge> length (servers current) then Inl OutOfBounds
      else if \<not> eqParams (params peer) (params current) then Inr (False, peer)
      else
        (case find_point (servers current ! servers_index current) (servers peer) 0 of
           None \<Rightarrow> Inr (False, peer)
         | Some i \<Rightarrow> Inr (True, peer\<lparr>servers_index := i\<rparr>)))"

subsection \<open>Connecting\<close>

text \<open>\<open>r\<close> is the value of \<^verbatim>\<open>rand()\<close>; the result is the proxy and the point to connect to.\<close>

definition xpipeProxyConnect :: "nat \<Rightarrow> XpipeProxy \<Rightarrow> (XpipeProxy \<times> Point) res" where
  "xpipeProxyConnect r proxy =
     (if servers proxy = [] then Inl OutOfBounds
      else (let i = r mod length (servers proxy)
            in Inr (proxy\<lparr>servers_index := i\<rparr>, servers proxy ! i)))"

definition xipieProxyConnectedAfter :: "XpipeProxy \<Rightarrow> string \<Rightarrow> int \<Rightarrow> string" where
  "xipieProxyConnectedAfter proxy dst_host dst_port =
     ''+PROXY ROUTE'' @ (case params proxy of None \<Rightarrow> [] | Some ps \<Rightarrow> '' '' @ ps)
       @ '' TCP://'' @ dst_host @ '':'' @ show_int dst_port @ [CHR 0x0D, CHR 0x0A]"

subsection \<open>The stored form\<close>

definition str2XpipeProxy :: "string \<Rightarrow> XpipeProxy option res" where
  "str2XpipeProxy str =
     (case sdssplitlen str ''|'' of
        None \<Rightarrow> Inl NullDeref
      | Some splits \<Rightarrow>
          if splits = [] then Inl UninitRead
          else
            (case string2l (splits ! 0) of
               None \<Rightarrow> Inr None
             | Some _ \<Rightarrow>
                 if length splits < 2 then Inl UninitRead
                 else
                   (case parseServers (splits ! 1) of
                      None \<Rightarrow> Inr None
                    | Some ps \<Rightarrow>
                        Inr (Some (createXpipeProxy
                          \<lparr>servers := ps, servers_index := 0,
                           params := (if length splits = 3 then Some (splits ! 2) else None)\<rparr>)))))"

definition xpipeProxy2str :: "XpipeProxy \<Rightarrow> string res" where
  "xpipeProxy2str proxy =
     bindE (getProxyServersInfo proxy) (\<lambda>srvs.
     Inr (show_int (if params proxy = None then 1 else 2) @ ''|'' @ srvs
          @ (case params proxy of None \<Rightarrow> [] | Some ps \<Rightarrow> ''|'' @ ps)))"

subsection \<open>Dispatch on the type\<close>

definition getProxyType :: "string \<Rightarrow> proxy_type" where
  "getProxyType type = (if strcaseeq type ''xpipe-proxy'' then XPIPE_PROXY else NONE_PROXY)"

definition parseProxyByRobjArray :: "proxy_type \<Rightarrow> string list \<Rightarrow> XpipeProxy option res" where
  "parseProxyByRobjArray type argv =
     (case type of XPIPE_PROXY \<Rightarrow> parseXpipeProxyByArray argv | NONE_PROXY \<Rightarrow> Inr None)"

definition eqProxy :: "proxy_type \<Rightarrow> XpipeProxy option \<Rightarrow> XpipeProxy option \<Rightarrow> bool res" where
  "eqProxy type p1 p2 =
     (case type of
        XPIPE_PROXY \<Rightarrow>
          (case (p1, p2) of (Some a, Some b) \<Rightarrow> Inr (eqXpipeProxy a b) | _ \<Rightarrow> Inl NullDeref)
      | NONE_PROXY \<Rightarrow> Inr (p1 = None \<and> p2 = None))"

definition proxyIsKeepConnected ::
    "proxy_type \<Rightarrow> XpipeProxy option \<Rightarrow> XpipeProxy option \<Rightarrow> (bool \<times> XpipeProxy option) res" where
  "proxyIsKeepConnected type current proxy =
     (case type of
        XPIPE_PROXY \<Rightarrow>
          (case (current, proxy) of
             (Some c, Some p) \<Rightarrow>
               bindE (xpipeProxyIsKeepConnected c p) (\<lambda>(b, p'). Inr (b, Some p'))
           | _ \<Rightarrow> Inl NullDeref)
      | NONE_PROXY \<Rightarrow> Inr (False, proxy))"

subsection \<open>Printing and parsing points\<close>

definition point_ok :: "Point \<Rightarrow> bool" where
  "point_ok p \<longleftrightarrow> CHR '':'' \<notin> set (pt_host p) \<and> CHR '','' \<notin> set (pt_host p) \<and> CHR ''|'' \<notin> set (pt_host p)
     \<and> pt_type p \<noteq> XPIPE_PROXY_TLS \<and> - (2 ^ 31) \<le> pt_port p \<and> pt_port p < 2 ^ 31"

definition proxy_ok :: "XpipeProxy \<Rightarrow> bool" where
  "proxy_ok proxy \<longleftrightarrow> servers proxy \<noteq> [] \<and> list_all point_ok (servers proxy)
     \<and> (case params proxy of None \<Rightarrow> True | Some ps \<Rightarrow> CHR ''|'' \<notin> set ps)"

lemma show_int_chars: "c \<in> set (show_int v) \<Longrightarrow> digit_in 0 c \<or> c = CHR ''-''"
  using num_of_show_nat [of "nat v"] num_of_show_nat [of "nat (- v)"]
  by (auto simp: show_int_def split: if_splits)

lemma show_int_no_sep:
  "CHR '':'' \<notin> set (show_int v)" "CHR '','' \<notin> set (show_int v)" "CHR ''|'' \<notin> set (show_int v)"
  using show_int_chars [of "CHR '':''" v] show_int_chars [of "CHR '',''" v]
    show_int_chars [of "CHR ''|''" v] by (auto simp: digit_in_def)

lemma to_int32_id: "- (2 ^ 31) \<le> x \<Longrightarrow> x < 2 ^ 31 \<Longrightarrow> to_int32 x = x"
  by (simp add: to_int32_def signed_of_int signed_take_bit_int_eq_self)

lemma string2l_show_int: "- (2 ^ 31) \<le> x \<Longrightarrow> x < 2 ^ 31 \<Longrightarrow> string2l (show_int x) = Some x"
  by (simp add: string2l_def string2ll_show_int)

lemma sdssplitlen_tokens:
  assumes "xs \<noteq> []" and "sdsjoinsds xs [d] \<noteq> []" and "\<forall>x \<in> set xs. d \<notin> set x"
  shows "sdssplitlen (sdsjoinsds xs [d]) [d] = Some xs"
  using assms split1_join [of xs d] by (simp add: sdssplitlen_def split_loop_one Suc_le_eq)

lemma sdsrange_tail: "sdsrange (a # b # s) 2 (- 1) = s"
  by (simp add: sdsrange_take_drop Let_def)

lemma parsePoint_getPointInfo:
  assumes "point_ok p"
  shows "parsePoint (getPointInfo p) = Some p"
proof -
  let ?port = "show_int (pt_port p)"
  have parse: "parsePort (pt_host p) (pt_type p) ?port = Some p"
    using assms by (cases p) (simp add: parsePort_def point_ok_def string2l_show_int to_int32_id)
  show ?thesis
  proof (cases "pt_type p")
    case XPIPE_PROXY_NONE
    then have "sdssplitlen (getPointInfo p) '':'' = Some [pt_host p, ?port]"
      using sdssplitlen_tokens [of "[pt_host p, ?port]" "CHR '':''"] assms
      by (simp add: getPointInfo_def point_ok_def show_int_no_sep)
    with parse XPIPE_PROXY_NONE show ?thesis by (simp add: parsePoint_def)
  next
    case XPIPE_PROXY_TCP
    then have "sdssplitlen (getPointInfo p) '':'' = Some [''PROXYTCP'', ''//'' @ pt_host p, ?port]"
      using sdssplitlen_tokens [of "[''PROXYTCP'', ''//'' @ pt_host p, ?port]" "CHR '':''"] assms
      by (simp add: getPointInfo_def point_ok_def show_int_no_sep)
    with parse XPIPE_PROXY_TCP show ?thesis by (simp add: parsePoint_def sdsrange_tail)
  next
    case XPIPE_PROXY_TLS
    with assms show ?thesis by (simp add: point_ok_def)
  qed
qed

lemma getPointInfo_no_sep:
  "point_ok p \<Longrightarrow> CHR '','' \<notin> set (getPointInfo p) \<and> CHR ''|'' \<notin> set (getPointInfo p)"
  by (auto simp: getPointInfo_def point_ok_def show_int_no_sep split: point_type.splits)

lemma parsePoints_print: "list_all point_ok ps \<Longrightarrow> parsePoints (map getPointInfo ps) = Some ps"
  by (induction ps) (simp_all add: parsePoint_getPointInfo)

lemma getProxyServersInfo_join:
  "servers proxy \<noteq> [] \<Longrightarrow> getProxyServersInfo proxy = Inr (sdsjoinsds (map getPointInfo (servers proxy)) '','')"
proof -
  have "sdsjoinsds (getPointInfo p # map getPointInfo ps) '',''
      = getPointInfo p @ concat (map (\<lambda>q. '','' @ getPointInfo q) ps)" for p ps
    by (induction ps arbitrary: p) simp_all
  then show "servers proxy \<noteq> [] \<Longrightarrow> ?thesis"
    by (cases "servers proxy") (simp_all add: getProxyServersInfo_def)
qed

lemma join_ne: "xs \<noteq> [] \<Longrightarrow> \<forall>x \<in> set xs. x \<noteq> [] \<Longrightarrow> sdsjoinsds xs sep \<noteq> []"
  by (cases "(xs, sep)" rule: sdsjoinsds.cases) auto

lemma parseServers_print:
  assumes "ps \<noteq> []" and "list_all point_ok ps"
  shows "parseServers (sdsjoinsds (map getPointInfo ps) '','') = Some ps"
proof -
  have "\<forall>x \<in> set (map getPointInfo ps). CHR '','' \<notin> set x"
    using assms(2) getPointInfo_no_sep by (auto simp: list_all_iff)
  moreover have "sdsjoinsds (map getPointInfo ps) '','' \<noteq> []"
    using assms(1) by (intro join_ne) (auto simp: getPointInfo_def)
  ultimately have "sdssplitlen (sdsjoinsds (map getPointInfo ps) '','') '','' = Some (map getPointInfo ps)"
    using assms(1) by (intro sdssplitlen_tokens) auto
  then show ?thesis using assms(2) by (simp add: parseServers_def parsePoints_print)
qed

subsection \<open>Properties\<close>



lemma sdscmp_0_iff: "sdscmp a b = 0 \<longleftrightarrow> a = b"
  using sdscmp_order by blast

lemma eqPoint_iff: "eqPoint p q \<longleftrightarrow> pt_host p = pt_host q \<and> pt_port p = pt_port q"
  by (simp add: eqPoint_def sdscmp_0_iff)

lemma eqParams_iff: "eqParams a b \<longleftrightarrow> a = b"
  by (simp add: eqParams_def sdscmp_0_iff split: option.splits)

text \<open>
  \<open>eqXpipeProxy\<close> accepts exactly when the parameters are equal, the numbers of servers are equal and
  every server address of the first proxy occurs in the second: it is reflexive, and on proxies without
  repeated addresses it is equality of the address sets.
\<close>

theorem eqXpipeProxy_decides:
  "let addrs = (\<lambda>p. map (\<lambda>q. (pt_host q, pt_port q)) (servers p))
   in (eqXpipeProxy p1 p2 \<longleftrightarrow> params p1 = params p2 \<and> length (servers p1) = length (servers p2)
         \<and> set (addrs p1) \<subseteq> set (addrs p2))
      \<and> eqXpipeProxy p1 p1
      \<and> (distinct (addrs p1) \<longrightarrow> eqXpipeProxy p1 p2 \<longrightarrow> set (addrs p1) = set (addrs p2))"
proof -
  have iff: "eqXpipeProxy p q \<longleftrightarrow> params p = params q \<and> length (servers p) = length (servers q)
      \<and> set (map (\<lambda>q. (pt_host q, pt_port q)) (servers p))
          \<subseteq> set (map (\<lambda>q. (pt_host q, pt_port q)) (servers q))" for p q
    by (auto simp: eqXpipeProxy_def eqParams_iff eqPoint_iff list_all_iff list_ex_iff image_iff)
  have "set xs = set ys" if "distinct xs" "length xs = length ys" "set xs \<subseteq> set ys"
    for xs ys :: "(string \<times> int) list"
    using that card_length [of ys] distinct_card [of xs] by (intro card_seteq) simp_all
  note set_eq = this
  show ?thesis
    unfolding Let_def iff
    by (intro conjI impI refl subset_refl) (rule set_eq; simp)
qed

theorem eqXpipeProxy_decides_witness:
  "eqXpipeProxy \<lparr>servers = [\<lparr>pt_host = ''a'', pt_port = 1, pt_type = XPIPE_PROXY_NONE\<rparr>],
       servers_index = 0, params = None\<rparr>
     \<lparr>servers = [\<lparr>pt_host = ''a'', pt_port = 1, pt_type = XPIPE_PROXY_TCP\<rparr>],
       servers_index = 0, params = None\<rparr>"
  using eqXpipeProxy_decides [of "\<lparr>servers = [\<lparr>pt_host = ''a'', pt_port = 1, pt_type = XPIPE_PROXY_NONE\<rparr>],
       servers_index = 0, params = None\<rparr>" "\<lparr>servers = [\<lparr>pt_host = ''a'', pt_port = 1, pt_type = XPIPE_PROXY_TCP\<rparr>],
       servers_index = 0, params = None\<rparr>"]
  by (simp add: Let_def)

text \<open>
  With a repeated server the comparison is not symmetric: two servers that are both \<open>a\<close> count as
  equal to \<open>a\<close> and \<open>b\<close>, but not the other way round.
\<close>

theorem eqXpipeProxy_not_symmetric:
  "\<exists>p1 p2. eqXpipeProxy p1 p2 \<and> \<not> eqXpipeProxy p2 p1"
proof -
  let ?a = "\<lparr>pt_host = ''a'', pt_port = 1, pt_type = XPIPE_PROXY_NONE\<rparr>"
  let ?b = "\<lparr>pt_host = ''b'', pt_port = 1, pt_type = XPIPE_PROXY_NONE\<rparr>"
  let ?p = "\<lambda>ss. \<lparr>servers = ss, servers_index = 0, params = None\<rparr>"
  have "eqXpipeProxy (?p [?a, ?a]) (?p [?a, ?b])" "\<not> eqXpipeProxy (?p [?a, ?b]) (?p [?a, ?a])"
    by (simp_all add: eqXpipeProxy_def eqParams_iff eqPoint_iff)
  then show ?thesis by blast
qed

end
