(* ===== verification/Crdt_Server.thy ===== *)
theory Crdt_Server
  imports Vector_Clock_Text Vector_Clock_Theorems Xpipe_Proxy
begin

section \<open>Server state and process clocks\<close>

text \<open>
  The state the CRDT layer keeps in \<^verbatim>\<open>crdtServer\<close> and \<^verbatim>\<open>server\<close> (\<^verbatim>\<open>src/src/server.h\<close>), the peers it
  replicates from, and the operations on the process clocks: \<^verbatim>\<open>src/src/ctrip.c\<close>, the clock functions of
  \<^verbatim>\<open>src/src/module.c\<close> and \<^verbatim>\<open>refreshGcVectorClock\<close> of \<^verbatim>\<open>src/src/server.c\<close>.

  \<open>vectorClock\<close> is what this process has applied, \<open>vectorClockCache\<close> the same clock without the peers set
  offline, \<open>gcVectorClock\<close> what every peer is known to have applied. The peers are the array
  \<open>crdtMasters\<close>, indexed by gid. \<open>peer_set\<close> and \<open>offline_peer_set\<close> are bitmaps of gids. A client that is
  the link to a peer is embedded in the peer; of its state the model keeps what the replication code
  reads and writes; \<open>mc_freed\<close> marks a client that was released while the peer still points to it.
\<close>

subsection \<open>State\<close>

datatype repl_state =
    REPL_STATE_NONE | REPL_STATE_CONNECT | REPL_STATE_CONNECTING
  | REPL_STATE_RECEIVE_PONG | REPL_STATE_SEND_GID | REPL_STATE_RECEIVE_GID
  | REPL_STATE_SEND_CRDT_AUTH | REPL_STATE_RECEIVE_CRDT_AUTH
  | REPL_STATE_SEND_AUTH | REPL_STATE_RECEIVE_AUTH
  | REPL_STATE_SEND_PORT | REPL_STATE_RECEIVE_PORT
  | REPL_STATE_SEND_IP | REPL_STATE_RECEIVE_IP
  | REPL_STATE_SEND_CAPA | REPL_STATE_RECEIVE_CAPA
  | REPL_STATE_SEND_VC | REPL_STATE_SEND_CRDT | REPL_STATE_RECEIVE_CRDT | REPL_STATE_RECEIVE_VC
  | REPL_STATE_SEND_BACKFLOW | REPL_STATE_RECEIVE_BACKFLOW
  | REPL_STATE_SEND_PSYNC | REPL_STATE_RECEIVE_PSYNC
  | REPL_STATE_TRANSFER | REPL_STATE_CONNECTED

record mclient =
  mc_gid :: int
  mc_fd :: int
  mc_crdt_master :: bool
  mc_closing :: bool
  mc_authenticated :: bool
  mc_lastinteraction :: int
  mc_db :: int
  mc_reploff :: int
  mc_read_reploff :: int
  mc_replid :: string
  mc_querybuf :: string
  mc_pending_querybuf :: string
  mc_freed :: bool

record CRDT_Master_Instance =
  pm_gid :: int
  masterauth :: "string option"
  masterhost :: "string option"
  masterport :: int
  master :: "mclient option"
  cached_master :: "mclient option"
  repl_state :: repl_state
  repl_transfer_s :: int
  repl_transfer_lastio :: int
  repl_down_since :: int
  master_replid :: string
  master_initial_offset :: int
  pm_vectorClock :: VectorClock
  pm_dbid :: int
  backstream_vc :: VectorClock
  lazy_time :: int
  pm_proxy_type :: proxy_type
  pm_proxy :: "XpipeProxy option"

record crdt_server =
  crdt_gid :: int
  crdt_namespace :: string
  vectorClock :: VectorClock
  vectorClockCache :: VectorClock
  gcVectorClock :: VectorClock
  crdtMasters :: "CRDT_Master_Instance option list"
  peer_set :: "32 word"
  offline_peer_set :: "32 word"
  crdt_loading :: bool
  stat_gc_hits :: int
  stat_gc_misses :: int
  server_loading :: bool
  server_masterhost :: "string option"
  master_is_crdt :: bool
  crdt_enabled :: bool
  cluster_enabled :: bool
  unixtime :: int
  dirty :: int

definition iAmMaster :: "crdt_server \<Rightarrow> bool" where
  "iAmMaster s =
     (if crdt_enabled s \<and> \<not> master_is_crdt s \<and> server_masterhost s \<noteq> None then True
      else if server_masterhost s = None then True
      else False)"

text \<open>\<open>1 << gid\<close> on a 32-bit \<^verbatim>\<open>int\<close>.\<close>

definition gid_bit :: "int \<Rightarrow> 32 word res" where
  "gid_bit g = (if g < 0 \<or> g \<ge> 32 then Inl BadShift else Inr (push_bit (nat g) 1))"

definition in_set :: "32 word \<Rightarrow> nat \<Rightarrow> bool" where
  "in_set w g \<longleftrightarrow> w AND push_bit g 1 \<noteq> 0"

subsection \<open>Process clocks\<close>

definition initServerClocks :: "int \<Rightarrow> int \<Rightarrow> (VectorClock \<times> VectorClock \<times> VectorClock) res" where
  "initServerClocks g local_clock =
     bindE (newVectorClock 1) (\<lambda>vc.
     bindE (set_clock_unit_by_index vc 0
              (init_clock (to_char g) (if local_clock < 0 then 0 else local_clock))) (\<lambda>vc.
     bindE (newVectorClock 1) (\<lambda>gcVclock.
     bindE (set_clock_unit_by_index gcVclock 0 (init_clock (to_char g) 0)) (\<lambda>gcVclock.
     bindE (newVectorClock 0) (\<lambda>cache.
     Inr (vc, gcVclock, cache))))))"

definition incrLocalVcUnit :: "int \<Rightarrow> crdt_server \<Rightarrow> crdt_server" where
  "incrLocalVcUnit delta s =
     (let s = s\<lparr>vectorClock := incrLogicClock (vectorClock s) (crdt_gid s) delta\<rparr>
      in if \<not> isNullVectorClock (vectorClockCache s)
         then s\<lparr>vectorClockCache := incrLogicClock (vectorClockCache s) (crdt_gid s) delta\<rparr>
         else s)"

text \<open>\<open>qps\<close> is the value of \<^verbatim>\<open>getQps()\<close>.\<close>

definition jumpVectorClock :: "int \<Rightarrow> crdt_server \<Rightarrow> crdt_server" where
  "jumpVectorClock qps s =
     (let jump_vcu = (if qps * 60 * 60 * 24 > 1000000 then qps * 60 * 60 * 24 else 1000000)
      in incrLocalVcUnit jump_vcu s)"

fun init_cache_loop :: "32 word \<Rightarrow> clk list \<Rightarrow> VectorClock \<Rightarrow> VectorClock res" where
  "init_cache_loop offline [] cache = Inr cache"
| "init_cache_loop offline (c # cs) cache =
     (if \<not> in_set offline (nat (get_gid c))
      then bindE (addVectorClockUnit cache (get_gid c) (get_logic_clock c)) (init_cache_loop offline cs)
      else init_cache_loop offline cs cache)"

definition initVectorClockCache :: "crdt_server \<Rightarrow> crdt_server res" where
  "initVectorClockCache s =
     bindE (newVectorClock 0) (\<lambda>cache.
     bindE (init_cache_loop (offline_peer_set s) (vectorClock s) cache) (\<lambda>cache.
     Inr (s\<lparr>vectorClockCache := cache\<rparr>)))"

definition setOfflinePeerSet :: "32 word \<Rightarrow> crdt_server \<Rightarrow> crdt_server res" where
  "setOfflinePeerSet gidset s =
     (if offline_peer_set s = gidset then Inr s
      else
        (let s = s\<lparr>offline_peer_set := gidset\<rparr>
         in if gidset = 0 then
              (if \<not> isNullVectorClock (vectorClockCache s)
               then bindE (newVectorClock 0) (\<lambda>vc. Inr (s\<lparr>vectorClockCache := vc\<rparr>))
               else Inr s)
            else initVectorClockCache s))"

text \<open>The reply of a command, as the client sees it; \<open>ClientFreed\<close> when the command released the client.\<close>

datatype reply = ReplyOk | ReplyStatus string | ReplyError string | ReplyBulk string | NoReply | ClientFreed

text \<open>
  \<open>setOfflineGidCommand\<close> takes the arguments after the command name; \<open>rewrite_ok\<close> tells whether there is
  no configuration file or rewriting it succeeded.
\<close>

fun offline_gids :: "string list \<Rightarrow> 32 word \<Rightarrow> (reply + 32 word) res" where
  "offline_gids [] gidset = Inr (Inr gidset)"
| "offline_gids (a # as) gidset =
     (case string2ll a of
        None \<Rightarrow> Inr (Inl (ReplyError ''value is not an integer or out of range''))
      | Some g \<Rightarrow>
          if g > 16 then Inr (Inl (ReplyError ''peer gid invalid''))
          else bindE (gid_bit g) (\<lambda>b. offline_gids as (gidset OR b)))"

definition setOfflineGidCommand ::
    "bool \<Rightarrow> string list \<Rightarrow> crdt_server \<Rightarrow> (reply \<times> crdt_server) res" where
  "setOfflineGidCommand rewrite_ok args s =
     bindE (offline_gids args 0) (\<lambda>r.
     case r of
       Inl e \<Rightarrow> Inr (e, s)
     | Inr gidset \<Rightarrow>
         bindE (setOfflinePeerSet gidset s) (\<lambda>s.
         let s = s\<lparr>dirty := dirty s + 1\<rparr>
         in if \<not> rewrite_ok then Inr (ReplyBulk ''OK,but save config fail'', s) else Inr (ReplyOk, s)))"

definition getOfflineGidCommand :: "crdt_server \<Rightarrow> reply" where
  "getOfflineGidCommand s =
     ReplyBulk (sdstrim
       (concat (map (\<lambda>i. if in_set (offline_peer_set s) i then show_int (int i) @ '' '' else []) [0..<16]))
       '' '')"

definition RM_CurrentVectorClock :: "crdt_server \<Rightarrow> (VectorClock \<times> crdt_server) res" where
  "RM_CurrentVectorClock s =
     (if offline_peer_set s = 0 then
        bindE (if \<not> isNullVectorClock (vectorClockCache s)
               then bindE (newVectorClock 0) (\<lambda>vc. Inr (s\<lparr>vectorClockCache := vc\<rparr>))
               else Inr s)
          (\<lambda>s. Inr (vectorClock s, s))
      else
        bindE (if isNullVectorClock (vectorClockCache s) then initVectorClockCache s else Inr s)
          (\<lambda>s. Inr (vectorClockCache s, s)))"

definition refreshGcVectorClock :: "VectorClock \<Rightarrow> crdt_server \<Rightarrow> crdt_server res" where
  "refreshGcVectorClock other s =
     bindE (mergeMinVectorClock (gcVectorClock s) other) (\<lambda>(r, _, _). Inr (s\<lparr>gcVectorClock := r\<rparr>))"

definition RM_MergeVectorClock :: "int \<Rightarrow> VectorClock \<Rightarrow> crdt_server \<Rightarrow> crdt_server res" where
  "RM_MergeVectorClock g vclock s =
     bindE (updateProcessVectorClock (vectorClock s) vclock g (crdt_gid s)) (\<lambda>vc.
     let s = s\<lparr>vectorClock := vc\<rparr>
     in bindE (if \<not> isNullVectorClock (vectorClockCache s)
               then bindE (updateProcessVectorClock (vectorClockCache s) vclock g (crdt_gid s))
                      (\<lambda>vc. Inr (s\<lparr>vectorClockCache := vc\<rparr>))
               else Inr s) (\<lambda>s.
        refreshGcVectorClock vclock s))"

definition initedCrdtServer :: "crdt_server \<Rightarrow> bool" where
  "initedCrdtServer s =
     (if get_len (vectorClock s) \<noteq> 1 then True
      else
        (let unit = getVectorClockUnit (vectorClock s) (crdt_gid s)
         in if isNullVectorClockUnit unit then False
            else if get_logic_clock unit = 0 then False
            else True))"

definition getMyGidLogicTime :: "VectorClock \<Rightarrow> crdt_server \<Rightarrow> int" where
  "getMyGidLogicTime vc s =
     (if isNullVectorClock vc then 0
      else
        (let vcu = getVectorClockUnit vc (crdt_gid s)
         in if isNullVectorClockUnit vcu then 0 else get_logic_clock vcu))"

definition getMyLogicTime :: "crdt_server \<Rightarrow> int" where
  "getMyLogicTime s = getMyGidLogicTime (vectorClock s) s"

subsection \<open>Invariant and lemmas\<close>

definition clocks_wf :: "crdt_server \<Rightarrow> bool" where
  "clocks_wf s \<longleftrightarrow> check_gid (crdt_gid s) \<and> vc_wf (vectorClock s) \<and> vc_wf (vectorClockCache s)
     \<and> vc_wf (gcVectorClock s) \<and> gidw (crdt_gid s) \<in> gids (vectorClock s)"

definition online :: "crdt_server \<Rightarrow> 4 word \<Rightarrow> bool" where
  "online s g \<longleftrightarrow> \<not> in_set (offline_peer_set s) (unat g)"

lemma in_set_bit: "in_set w g \<longleftrightarrow> bit w g"
  unfolding in_set_def push_bit_of_1 by (simp add: bit_iff_and_push_bit_not_eq_0 push_bit_of_1)

lemma check_get_gid: "vcu_gid c \<noteq> 0 \<Longrightarrow> check_gid (get_gid c)"
  using uint_word4_bounds [of "vcu_gid c"] uint_word4_pos [of "vcu_gid c"]
  by (simp add: check_gid_def get_gid_def)

lemma gidw_get_gid [simp]: "gidw (get_gid c) = vcu_gid c"
  by (simp add: get_gid_def)

lemma nat_get_gid: "nat (get_gid c) = unat (vcu_gid c)"
  by (simp add: get_gid_def)

lemma clock_word [simp]: "word_of_int (get_logic_clock c) = vcu_clock c"
  by (simp add: get_logic_clock_def)

lemma init_cache_loop_ok:
  assumes "vc_wf cs" and "vc_wf cache" and "gids cs \<inter> gids cache = {}"
  shows "\<exists>r. init_cache_loop off cs cache = Inr r \<and> vc_wf r \<and> (vc_sorted cache \<longrightarrow> vc_sorted r)
     \<and> (\<forall>h. vc_map r h = (if \<not> in_set off (unat h) \<and> h \<in> gids cs then vc_map cs h else vc_map cache h))"
  using assms
proof (induction cs arbitrary: cache)
  case Nil
  then show ?case by simp
next
  case (Cons c cs)
  have wf: "vc_wf cs" "vcu_gid c \<noteq> 0" "vcu_gid c \<notin> gids cs" using Cons.prems(1) by (simp_all add: vc_wf_Cons)
  show ?case
  proof (cases "in_set off (unat (vcu_gid c))")
    case True
    then show ?thesis
      using Cons.IH [OF wf(1) Cons.prems(2)] Cons.prems(3) by (auto simp: nat_get_gid)
  next
    case False
    obtain a where a: "addVectorClockUnit cache (get_gid c) (get_logic_clock c) = Inr a" "vc_wf a"
        "vc_sorted cache \<longrightarrow> vc_sorted a" "vc_map a = (vc_map cache)(vcu_gid c \<mapsto> vcu_clock c)"
      using addVectorClockUnit_ok [OF Cons.prems(2) check_get_gid [OF wf(2)], of "get_logic_clock c"] by auto
    have "gids a = insert (vcu_gid c) (gids cache)"
      using arg_cong [OF a(4), of dom] by (simp add: dom_vc_map)
    with Cons.prems(3) wf(3) have "gids cs \<inter> gids a = {}" by auto
    from Cons.IH [OF wf(1) a(2) this] a(1,3,4) False wf(3) show ?thesis
      by (auto simp: nat_get_gid)
  qed
qed

lemma initVectorClockCache_ok:
  assumes "vc_wf (vectorClock s)"
  shows "\<exists>r. initVectorClockCache s = Inr (s\<lparr>vectorClockCache := r\<rparr>) \<and> vc_wf r \<and> vc_sorted r
     \<and> (\<forall>h. vc_map r h = (if online s h then vc_map (vectorClock s) h else None))"
proof -
  from init_cache_loop_ok [of "vectorClock s" "[]" "offline_peer_set s"] assms obtain r where
      "init_cache_loop (offline_peer_set s) (vectorClock s) [] = Inr r" "vc_wf r" "vc_sorted r"
      "\<forall>h. vc_map r h = (if \<not> in_set (offline_peer_set s) (unat h) \<and> h \<in> gids (vectorClock s)
                        then vc_map (vectorClock s) h else None)"
    by (auto simp: vc_sorted_def)
  moreover have "vc_map (vectorClock s) h = None" if "h \<notin> gids (vectorClock s)" for h
    using that by (simp add: vc_map_None_iff)
  ultimately show ?thesis
    by (auto simp: initVectorClockCache_def newVectorClock_ok0 online_def)
qed

lemma mergeMin_time:
  assumes "vc_wf a" and "vc_wf b"
  shows "\<exists>r a' b'. mergeMinVectorClock a b = Inr (r, a', b') \<and> vc_wf r
     \<and> (\<forall>g. vc_time r g = min (vc_time a g) (vc_time b g)) \<and> gids r = gids a \<union> gids b"
proof -
  from mergeMinVectorClock_ok [OF assms] obtain r a' b' where r:
      "mergeMinVectorClock a b = Inr (r, a', b')" "vc_wf r" "sortVectorClock r = vc_meet a b"
    by blast
  have "vc_map r = vc_map (vc_meet a b)" using vc_map_sortVectorClock [OF r(2)] r(3) by simp
  then have "vc_time r g = min (vc_time a g) (vc_time b g)" for g
    using vc_time_vc_meet [OF assms, of g] by (simp add: vc_time_def)
  moreover have "set r = set (vc_meet a b)" using set_sortVectorClock [of r] r(3) by simp
  then have "gids r = gids a \<union> gids b" by (simp add: gids_vc_meet)
  ultimately show ?thesis using r(1,2) by simp
qed

lemma refreshGcVectorClock_ok:
  assumes "vc_wf (gcVectorClock s)" and "vc_wf other"
  shows "\<exists>r. refreshGcVectorClock other s = Inr (s\<lparr>gcVectorClock := r\<rparr>) \<and> vc_wf r
     \<and> (\<forall>g. vc_time r g = min (vc_time (gcVectorClock s) g) (vc_time other g))"
  using mergeMin_time [OF assms] by (auto simp: refreshGcVectorClock_def)

lemma updateProcess_ok:
  assumes "vc_wf dst" and "vc_wf src" and "check_gid g"
  shows "\<exists>r. updateProcessVectorClock dst src g own = Inr r \<and> vc_wf r \<and> gids dst \<subseteq> gids r
     \<and> (\<forall>h. h \<noteq> gidw g \<longrightarrow> vc_map r h = vc_map dst h)
     \<and> (g \<noteq> own \<longrightarrow> vc_map r (gidw g) = max (vc_map dst (gidw g)) (vc_map src (gidw g)))"
proof -
  obtain flag where flag: "updateProcessVectorClock dst src g own = commonMergeFunction dst src g flag"
      "g \<noteq> own \<longrightarrow> flag = CLOCK_UNIT_MAX"
    by (metis updateProcessVectorClock_def)
  obtain r where r: "commonMergeFunction dst src g flag = Inr r" "vc_wf r"
      "vc_map r = (vc_map dst)(gidw g := merged_unit flag (vc_map dst (gidw g)) (vc_map src (gidw g)))"
    using commonMergeFunction_ok [OF assms, of flag] by blast
  have "h \<in> gids r" if "h \<in> gids dst" for h
    using that r(3) vc_map_None_iff [of dst h] vc_map_None_iff [of r h]
    by (auto simp: merged_unit_def max_def split: option.splits merge_flag.splits if_splits)
  moreover have "merged_unit CLOCK_UNIT_MAX d x = max d x" for d x
    by (cases d; cases x) (simp_all add: merged_unit_def max_def)
  ultimately show ?thesis using r flag by auto
qed

lemma vc_time_le_max: "vc_map r h = max (vc_map d h) (vc_map x h) \<Longrightarrow> vc_time d h \<le> vc_time r h"
  by (cases "vc_map d h"; cases "vc_map x h") (simp_all add: vc_time_def max_def)

subsection \<open>Properties\<close>

text \<open>
  Setting peers offline recomputes the filtered clock: unless the set is unchanged or empty, the
  cache afterwards has exactly the units of the process clock whose gid is not in the set, and nothing
  else of the state changes.
\<close>

theorem setOfflinePeerSet_filters:
  assumes "vc_wf (vectorClock s)" and "gidset \<noteq> offline_peer_set s" and "gidset \<noteq> 0"
  shows "\<exists>r. setOfflinePeerSet gidset s
           = Inr (s\<lparr>offline_peer_set := gidset, vectorClockCache := r\<rparr>) \<and> vc_sorted r
     \<and> (\<forall>h. vc_map r h = (if in_set gidset (unat h) then None else vc_map (vectorClock s) h))"
  using initVectorClockCache_ok [of "s\<lparr>offline_peer_set := gidset\<rparr>"] assms
  by (auto simp: setOfflinePeerSet_def online_def)

definition sample_server :: crdt_server where
  "sample_server =
     \<lparr>crdt_gid = 1, crdt_namespace = ''ns'', vectorClock = mk_vc [(1, 9), (2, 4), (3, 6)], vectorClockCache = [],
      gcVectorClock = mk_vc [(1, 0)], crdtMasters = replicate 16 None, peer_set = 12, offline_peer_set = 0,
      crdt_loading = False, stat_gc_hits = 0, stat_gc_misses = 0, server_loading = False,
      server_masterhost = None, master_is_crdt = False, crdt_enabled = True, cluster_enabled = False,
      unixtime = 0, dirty = 0\<rparr>"

lemma sample_server_wf: "clocks_wf sample_server"
  unfolding clocks_wf_def by (intro conjI; code_simp)

theorem setOfflinePeerSet_filters_witness:
  "\<exists>s'. setOfflinePeerSet 4 sample_server = Inr s' \<and> vc_map (vectorClockCache s') 2 = None
     \<and> vc_map (vectorClockCache s') 3 = Some 6"
proof -
  have "vc_wf (vectorClock sample_server)" "(4 :: 32 word) \<noteq> offline_peer_set sample_server" "(4 :: 32 word) \<noteq> 0"
    by code_simp+
  from setOfflinePeerSet_filters [OF this] obtain r where
      "setOfflinePeerSet 4 sample_server = Inr (sample_server\<lparr>offline_peer_set := 4, vectorClockCache := r\<rparr>)"
      "\<forall>h. vc_map r h = (if in_set 4 (unat h) then None else vc_map (vectorClock sample_server) h)"
    by blast
  moreover have "in_set 4 (unat (2 :: 4 word))" "\<not> in_set 4 (unat (3 :: 4 word))"
    "vc_map (vectorClock sample_server) 3 = Some 6"
    by code_simp+
  ultimately show ?thesis by simp
qed

text \<open>
  C18. Applying a remote command's clock keeps the clock invariant and cannot fault: no other peer's
  process time goes back, the collection clock becomes the pointwise minimum with the command's clock,
  and gids other than the command's keep their process time.
\<close>

theorem RM_MergeVectorClock_monotone:
  assumes "clocks_wf s" and "vc_wf vclock" and "check_gid g"
  shows "\<exists>s'. RM_MergeVectorClock g vclock s = Inr s' \<and> clocks_wf s'
     \<and> (g \<noteq> crdt_gid s \<longrightarrow> (\<forall>h. vc_time (vectorClock s) h \<le> vc_time (vectorClock s') h))
     \<and> (\<forall>h. h \<noteq> gidw g \<longrightarrow> vc_time (vectorClock s') h = vc_time (vectorClock s) h)
     \<and> (\<forall>h. vc_time (gcVectorClock s') h = min (vc_time (gcVectorClock s) h) (vc_time vclock h))"
proof -
  have wf: "vc_wf (vectorClock s)" "vc_wf (vectorClockCache s)" "vc_wf (gcVectorClock s)"
    using assms(1) by (simp_all add: clocks_wf_def)
  obtain vc where vc: "updateProcessVectorClock (vectorClock s) vclock g (crdt_gid s) = Inr vc" "vc_wf vc"
      "gids (vectorClock s) \<subseteq> gids vc" "\<forall>h. h \<noteq> gidw g \<longrightarrow> vc_map vc h = vc_map (vectorClock s) h"
      "g \<noteq> crdt_gid s \<longrightarrow> vc_map vc (gidw g) = max (vc_map (vectorClock s) (gidw g)) (vc_map vclock (gidw g))"
    using updateProcess_ok [OF wf(1) assms(2,3)] by blast
  obtain ca where ca: "updateProcessVectorClock (vectorClockCache s) vclock g (crdt_gid s) = Inr ca" "vc_wf ca"
    using updateProcess_ok [OF wf(2) assms(2,3)] by blast
  define s1 where "s1 = (if \<not> isNullVectorClock (vectorClockCache s)
      then s\<lparr>vectorClock := vc, vectorClockCache := ca\<rparr> else s\<lparr>vectorClock := vc\<rparr>)"
  have s1: "gcVectorClock s1 = gcVectorClock s" "vectorClock s1 = vc" "crdt_gid s1 = crdt_gid s"
      "vc_wf (vectorClockCache s1)"
    using ca(2) wf(2) by (simp_all add: s1_def)
  obtain gc where gc: "refreshGcVectorClock vclock s1 = Inr (s1\<lparr>gcVectorClock := gc\<rparr>)" "vc_wf gc"
      "\<forall>h. vc_time gc h = min (vc_time (gcVectorClock s) h) (vc_time vclock h)"
    using refreshGcVectorClock_ok [of s1 vclock] wf(3) assms(2) s1(1) by auto
  have "RM_MergeVectorClock g vclock s = refreshGcVectorClock vclock s1"
    using vc(1) ca(1) by (simp add: RM_MergeVectorClock_def s1_def)
  moreover have "vc_time (vectorClock s) h \<le> vc_time vc h" if "g \<noteq> crdt_gid s" for h
    using that vc(4,5) vc_time_le_max [of vc h "vectorClock s" vclock]
    by (cases "h = gidw g") (simp_all add: vc_time_def)
  moreover have "vc_time vc h = vc_time (vectorClock s) h" if "h \<noteq> gidw g" for h
    using that vc(4) by (simp add: vc_time_def)
  ultimately show ?thesis
    using gc vc(2,3) s1 assms(1) by (auto simp: clocks_wf_def)
qed

theorem RM_MergeVectorClock_monotone_witness:
  "\<exists>s'. RM_MergeVectorClock 2 (mk_vc [(1, 7), (2, 8)]) sample_server = Inr s' \<and> clocks_wf s'
     \<and> vc_time (vectorClock s') 3 = 6"
proof -
  have "vc_wf (mk_vc [(1, 7), (2, 8)])" "check_gid 2" by code_simp+
  from RM_MergeVectorClock_monotone [OF sample_server_wf this] obtain s' where
      "RM_MergeVectorClock 2 (mk_vc [(1, 7), (2, 8)]) sample_server = Inr s'" "clocks_wf s'"
      "\<forall>h. h \<noteq> gidw 2 \<longrightarrow> vc_time (vectorClock s') h = vc_time (vectorClock sample_server) h"
    by (elim exE conjE) (rule that)
  moreover have "(3 :: 4 word) \<noteq> gidw 2" "vc_time (vectorClock sample_server) 3 = 6" by code_simp+
  ultimately show ?thesis by auto
qed

lemma offline_gids_ok:
  assumes "\<forall>g \<in> set gs. 0 \<le> g \<and> g \<le> 16"
  shows "\<exists>w'. offline_gids (map show_int gs) w = Inr (Inr w')
     \<and> (\<forall>i. bit w' i \<longleftrightarrow> bit w i \<or> int i \<in> set gs)"
  using assms
proof (induction gs arbitrary: w)
  case Nil
  then show ?case by simp
next
  case (Cons g gs)
  then have g: "0 \<le> g" "g \<le> 16" by auto
  then have "gid_bit g = Inr (push_bit (nat g) 1)" by (simp add: gid_bit_def)
  moreover have "bit (push_bit (nat g) (1 :: 32 word)) i \<longleftrightarrow> int i = g" for i
    using g by (auto simp: bit_exp_iff)
  moreover obtain w' where "offline_gids (map show_int gs) (w OR push_bit (nat g) 1) = Inr (Inr w')"
      "\<forall>i. bit w' i \<longleftrightarrow> bit (w OR push_bit (nat g) 1) i \<or> int i \<in> set gs"
    using Cons.IH [of "w OR push_bit (nat g) 1"] Cons.prems by auto
  ultimately show ?case using g by (auto simp: string2ll_show_int bit_or_iff)
qed

lemma setOfflinePeerSet_ok:
  assumes "vc_wf (vectorClock s)"
  shows "\<exists>s'. setOfflinePeerSet gidset s = Inr s' \<and> offline_peer_set s' = gidset
     \<and> vectorClock s' = vectorClock s"
  using initVectorClockCache_ok [of "s\<lparr>offline_peer_set := gidset\<rparr>"] assms
  by (cases "isNullVectorClock (vectorClockCache s)")
     (auto simp: setOfflinePeerSet_def newVectorClock_ok0 Let_def)

text \<open>
  The command that sets peers offline accepts every list of gids from 0 to 16 and leaves exactly
  those gids in the offline set; a gid above 16 or a word that is no number is refused without a
  change, and a negative gid shifts by a negative amount.
\<close>

theorem setOfflineGidCommand_sets:
  assumes "vc_wf (vectorClock s)" and "\<forall>g \<in> set gs. 0 \<le> g \<and> g \<le> 16"
  shows "(\<exists>r s'. setOfflineGidCommand ok (map show_int gs) s = Inr (r, s')
            \<and> (\<forall>i. in_set (offline_peer_set s') i \<longleftrightarrow> int i \<in> set gs) \<and> vectorClock s' = vectorClock s)
       \<and> setOfflineGidCommand ok (map show_int gs @ [''17'']) s = Inr (ReplyError ''peer gid invalid'', s)
       \<and> setOfflineGidCommand ok [''-1''] s = Inl BadShift"
proof -
  obtain w where w: "offline_gids (map show_int gs) 0 = Inr (Inr w)" "\<forall>i. bit w i \<longleftrightarrow> int i \<in> set gs"
    using offline_gids_ok [OF assms(2), of 0] by auto
  obtain s' where "setOfflinePeerSet w s = Inr s'" "offline_peer_set s' = w" "vectorClock s' = vectorClock s"
    using setOfflinePeerSet_ok [OF assms(1)] by blast
  with w have ok: "\<exists>r s'. setOfflineGidCommand ok (map show_int gs) s = Inr (r, s')
      \<and> (\<forall>i. in_set (offline_peer_set s') i \<longleftrightarrow> int i \<in> set gs) \<and> vectorClock s' = vectorClock s"
    by (cases ok) (auto simp: setOfflineGidCommand_def in_set_bit)
  have "offline_gids (as @ bs) v = (case offline_gids as v of
      Inl e \<Rightarrow> Inl e | Inr (Inl r) \<Rightarrow> Inr (Inl r) | Inr (Inr v') \<Rightarrow> offline_gids bs v')" for as bs v
    by (induction as arbitrary: v) (auto split: option.splits sum.splits simp: bindE_def)
  then have "offline_gids (map show_int gs @ [''17'']) 0 = Inr (Inl (ReplyError ''peer gid invalid''))"
    using w(1) by (simp add: string2ll_samples)
  then have bad: "setOfflineGidCommand ok (map show_int gs @ [''17'']) s = Inr (ReplyError ''peer gid invalid'', s)"
    by (simp add: setOfflineGidCommand_def)
  have "string2ll ''-1'' = Some (- 1)" by (simp add: string2ll_def digit_in_def)
  then have "setOfflineGidCommand ok [''-1''] s = Inl BadShift"
    by (simp add: setOfflineGidCommand_def gid_bit_def)
  with ok bad show ?thesis by blast
qed

theorem setOfflineGidCommand_sets_witness:
  "\<exists>r s'. setOfflineGidCommand True (map show_int [2, 3]) sample_server = Inr (r, s')
     \<and> in_set (offline_peer_set s') 2 \<and> \<not> in_set (offline_peer_set s') 4"
proof -
  have "vc_wf (vectorClock sample_server)" by code_simp
  moreover have "\<forall>g \<in> set [2, 3 :: int]. 0 \<le> g \<and> g \<le> 16" by simp
  ultimately obtain r s' where "setOfflineGidCommand True (map show_int [2, 3]) sample_server = Inr (r, s')"
      "\<forall>i. in_set (offline_peer_set s') i \<longleftrightarrow> int i \<in> set [2, 3]"
    using setOfflineGidCommand_sets [of sample_server "[2, 3]" True] by blast
  then show ?thesis by auto
qed


end
