(* ===== verification/Crdt_Gc.thy ===== *)
theory Crdt_Gc
  imports Crdt_Server
begin

section \<open>Tombstones and their collection\<close>

text \<open>
  The model of \<^verbatim>\<open>src/src/ctrip_crdt_gc.c\<close>. A database's \<^verbatim>\<open>deleted_keys\<close> dictionary is an association list
  with distinct keys. What the CRDT module decides about a tombstone is the argument \<open>meth\<close>: it gives
  the \<^verbatim>\<open>gc\<close> method of a value, none where the value has no method. Random keys and clock readings are
  the streams \<open>rnd\<close> and \<open>now\<close>, of which a counter says how many were consumed.
\<close>

subsection \<open>Peers by gid\<close>

definition getPeerMaster :: "int \<Rightarrow> crdt_server \<Rightarrow> CRDT_Master_Instance option res" where
  "getPeerMaster g s =
     (if g < 0 \<or> g \<ge> int (length (crdtMasters s)) then Inl OutOfBounds
      else Inr (crdtMasters s ! nat g))"

definition setPeerMaster :: "int \<Rightarrow> CRDT_Master_Instance option \<Rightarrow> crdt_server \<Rightarrow> crdt_server" where
  "setPeerMaster g m s = s\<lparr>crdtMasters := (crdtMasters s)[nat g := m]\<rparr>"

definition addPeerSet :: "int \<Rightarrow> crdt_server \<Rightarrow> crdt_server res" where
  "addPeerSet g s =
     (if g = crdt_gid s then Inr s
      else bindE (gid_bit g) (\<lambda>b. Inr (s\<lparr>peer_set := peer_set s OR b\<rparr>)))"

subsection \<open>The collection clock\<close>

text \<open>
  One round of the loop of \<open>getGcVectorClock\<close>. \<open>mergeMinVectorClock\<close> sorts the peer's clock in place, so
  the peer is written back.
\<close>

definition gc_clock_step :: "nat \<Rightarrow> VectorClock \<times> crdt_server \<Rightarrow> (VectorClock \<times> crdt_server) res" where
  "gc_clock_step index = (\<lambda>(gcvc, s).
     if in_set (peer_set s) index \<and> \<not> in_set (offline_peer_set s) index then
       bindE (getPeerMaster (int index) s) (\<lambda>m.
       case m of
         None \<Rightarrow>
           bindE (newVectorClock 0) (\<lambda>other.
           bindE (mergeMinVectorClock gcvc other) (\<lambda>(r, _, _). Inr (r, s)))
       | Some p \<Rightarrow>
           bindE (mergeMinVectorClock gcvc (pm_vectorClock p)) (\<lambda>(r, _, other).
           Inr (r, setPeerMaster (int index) (Some (p\<lparr>pm_vectorClock := other\<rparr>)) s)))
     else Inr (gcvc, s))"

definition getGcVectorClock :: "crdt_server \<Rightarrow> (VectorClock \<times> crdt_server) res" where
  "getGcVectorClock s =
     bindE (dupVectorClock (vectorClock s)) (\<lambda>gcvc. foldE gc_clock_step [0..<16] (gcvc, s))"

definition updateGcVectorClock :: "crdt_server \<Rightarrow> crdt_server res" where
  "updateGcVectorClock s =
     bindE (getGcVectorClock s) (\<lambda>(gcvc, s). Inr (s\<lparr>gcVectorClock := gcvc\<rparr>))"

subsection \<open>Tombstone dictionary\<close>

type_synonym 'v dict = "(string \<times> 'v) list"

definition dictAdd :: "'v dict \<Rightarrow> string \<Rightarrow> 'v \<Rightarrow> bool \<times> 'v dict" where
  "dictAdd d k v = (case map_of d k of None \<Rightarrow> (True, (k, v) # d) | Some _ \<Rightarrow> (False, d))"

definition dictReplace :: "'v dict \<Rightarrow> string \<Rightarrow> 'v \<Rightarrow> 'v dict" where
  "dictReplace d k v =
     (case map_of d k of
        None \<Rightarrow> (k, v) # d
      | Some _ \<Rightarrow> map (\<lambda>(k', v'). if k' = k then (k', v) else (k', v')) d)"

definition dictDelete :: "'v dict \<Rightarrow> string \<Rightarrow> bool \<times> 'v dict" where
  "dictDelete d k =
     (case map_of d k of None \<Rightarrow> (False, d) | Some _ \<Rightarrow> (True, filter (\<lambda>(k', _). k' \<noteq> k) d))"

definition tombstoneAdd :: "'v dict \<Rightarrow> string \<Rightarrow> 'v \<Rightarrow> 'v dict res" where
  "tombstoneAdd d key val = (let (ok, d) = dictAdd d key val in bindE (assertE ok) (\<lambda>_. Inr d))"

definition tombstoneOverwrite :: "'v dict \<Rightarrow> string \<Rightarrow> 'v \<Rightarrow> 'v dict" where
  "tombstoneOverwrite d key val = dictReplace d key val"

definition lookupTombstone :: "'v dict \<Rightarrow> string \<Rightarrow> 'v option" where
  "lookupTombstone d key = (if length d = 0 then None else map_of d key)"

definition setKeyToTombstone :: "'v dict \<Rightarrow> string \<Rightarrow> 'v \<Rightarrow> 'v dict res" where
  "setKeyToTombstone d key val =
     (case lookupTombstone d key of
        None \<Rightarrow> tombstoneAdd d key val
      | Some _ \<Rightarrow> Inr (tombstoneOverwrite d key val))"

definition removeDel :: "'v dict \<Rightarrow> string \<Rightarrow> bool \<times> 'v dict" where
  "removeDel d key =
     (case map_of d key of
        None \<Rightarrow> (True, d)
      | Some _ \<Rightarrow> dictDelete d key)"

definition gcIfNeeded ::
    "('v \<Rightarrow> (VectorClock \<Rightarrow> bool) option) \<Rightarrow> 'v dict \<Rightarrow> string \<Rightarrow> crdt_server
       \<Rightarrow> (bool \<times> 'v dict \<times> crdt_server) res" where
  "gcIfNeeded meth d key s =
     (case lookupTombstone d key of
        None \<Rightarrow> Inr (False, d, s)
      | Some val \<Rightarrow>
          if server_loading s \<or> crdt_loading s then Inr (False, d, s)
          else
            bindE (updateGcVectorClock s) (\<lambda>s.
            case meth val of
              None \<Rightarrow> Inr (False, d, s)
            | Some gc \<Rightarrow>
                if \<not> gc (gcVectorClock s) then Inr (False, d, s)
                else (let (ok, d) = dictDelete d key in Inr (ok, d, s))))"

definition lookupTombstoneKey ::
    "('v \<Rightarrow> (VectorClock \<Rightarrow> bool) option) \<Rightarrow> 'v dict \<Rightarrow> string \<Rightarrow> crdt_server
       \<Rightarrow> ('v option \<times> 'v dict \<times> crdt_server) res" where
  "lookupTombstoneKey meth d key s =
     bindE (gcIfNeeded meth d key s) (\<lambda>(_, d, s). Inr (lookupTombstone d key, d, s))"

subsection \<open>The collection cycle\<close>

definition activeGcCycleTryGc ::
    "('v \<Rightarrow> (VectorClock \<Rightarrow> bool) option) \<Rightarrow> 'v dict \<Rightarrow> string \<times> 'v \<Rightarrow> crdt_server
       \<Rightarrow> bool \<times> 'v dict \<times> crdt_server" where
  "activeGcCycleTryGc meth d de s =
     (case meth (snd de) of
        None \<Rightarrow> (False, d, s)
      | Some gc \<Rightarrow>
          if \<not> gc (gcVectorClock s) then (False, d, s\<lparr>stat_gc_misses := stat_gc_misses s + 1\<rparr>)
          else
            (let s = s\<lparr>stat_gc_hits := stat_gc_hits s + 1\<rparr>; (ok, d) = dictDelete d (fst de)
             in (ok, d, s)))"

text \<open>
  The inner loop draws \<open>num\<close> random keys; \<open>k\<close> counts the draws, \<open>deleted\<close> the keys removed.
\<close>

fun gc_sample ::
    "('v \<Rightarrow> (VectorClock \<Rightarrow> bool) option) \<Rightarrow> (nat \<Rightarrow> nat) \<Rightarrow> nat \<Rightarrow> 'v dict \<Rightarrow> crdt_server \<Rightarrow> nat \<Rightarrow> nat
       \<Rightarrow> 'v dict \<times> crdt_server \<times> nat \<times> nat" where
  "gc_sample meth rnd 0 d s deleted k = (d, s, deleted, k)"
| "gc_sample meth rnd (Suc num) d s deleted k =
     (if d = [] then (d, s, deleted, k)
      else
        (let (ok, d, s) = activeGcCycleTryGc meth d (d ! (rnd k mod length d)) s
         in gc_sample meth rnd num d s (if ok then deleted + 1 else deleted) (Suc k)))"

record gc_config =
  gc_lookups_per_loop :: nat
  gc_slow_time_perc :: nat
  gc_non_gc_perc :: nat
  gc_hz :: nat
  gc_dbnum :: nat

text \<open>
  The do-while loop on one database. \<open>fuel\<close> bounds the rounds; the result is none when it runs out. The
  flag of the result says that the time limit was hit; \<open>t\<close> counts the clock readings.
\<close>

fun gc_db_loop ::
    "gc_config \<Rightarrow> ('v dict \<Rightarrow> nat) \<Rightarrow> ('v \<Rightarrow> (VectorClock \<Rightarrow> bool) option) \<Rightarrow> (nat \<Rightarrow> nat) \<Rightarrow> (nat \<Rightarrow> int)
       \<Rightarrow> int \<Rightarrow> int \<Rightarrow> nat \<Rightarrow> 'v dict \<Rightarrow> crdt_server \<Rightarrow> nat \<Rightarrow> nat \<Rightarrow> nat
       \<Rightarrow> ('v dict \<times> crdt_server \<times> nat \<times> bool \<times> nat \<times> nat) option" where
  "gc_db_loop cfg slots meth rnd now start timelimit 0 d s iteration k t = None"
| "gc_db_loop cfg slots meth rnd now start timelimit (Suc fuel) d s iteration k t =
     (let iteration = Suc iteration; num = length d
      in if num = 0 then Some (d, s, iteration, False, k, t)
         else if slots d > 4 \<and> num * 100 div slots d < 1 then Some (d, s, iteration, False, k, t)
         else
           (let num = (if num > gc_lookups_per_loop cfg then gc_lookups_per_loop cfg else num);
                (d, s, deleted, k) = gc_sample meth rnd num d s 0 k
            in if iteration mod 16 = 0 \<and> now t - start > timelimit
               then Some (d, s, iteration, True, k, Suc t)
               else
                 (let t = (if iteration mod 16 = 0 then Suc t else t)
                  in if deleted > gc_lookups_per_loop cfg * gc_non_gc_perc cfg div 100
                     then gc_db_loop cfg slots meth rnd now start timelimit fuel d s iteration k t
                     else Some (d, s, iteration, False, k, t))))"

datatype gc_type = ACTIVE_GC_CYCLE_SLOW | ACTIVE_GC_CYCLE_FAST

record gc_cursor =
  current_db :: "32 word"
  timelimit_exit :: bool
  last_fast_cycle :: int

text \<open>The loop over databases; the fuel of each do-while loop is the size of its dictionary plus one.\<close>

fun gc_dbs ::
    "gc_config \<Rightarrow> ('v dict \<Rightarrow> nat) \<Rightarrow> ('v \<Rightarrow> (VectorClock \<Rightarrow> bool) option) \<Rightarrow> (nat \<Rightarrow> nat) \<Rightarrow> (nat \<Rightarrow> int)
       \<Rightarrow> int \<Rightarrow> int \<Rightarrow> nat \<Rightarrow> 'v dict list \<Rightarrow> gc_cursor \<Rightarrow> crdt_server \<Rightarrow> nat \<Rightarrow> nat \<Rightarrow> nat
       \<Rightarrow> ('v dict list \<times> gc_cursor \<times> crdt_server) option" where
  "gc_dbs cfg slots meth rnd now start timelimit 0 dbs cur s iteration k t = Some (dbs, cur, s)"
| "gc_dbs cfg slots meth rnd now start timelimit (Suc j) dbs cur s iteration k t =
     (if timelimit_exit cur then Some (dbs, cur, s)
      else
        (let i = unat (current_db cur) mod gc_dbnum cfg;
             cur = cur\<lparr>current_db := current_db cur + 1\<rparr>
         in case gc_db_loop cfg slots meth rnd now start timelimit (Suc (length (dbs ! i)))
                   (dbs ! i) s iteration k t of
              None \<Rightarrow> None
            | Some (d, s, iteration, hit, k, t) \<Rightarrow>
                gc_dbs cfg slots meth rnd now start timelimit j (dbs[i := d])
                  (cur\<lparr>timelimit_exit := hit\<rparr>) s iteration k t))"

definition Gc ::
    "gc_config \<Rightarrow> ('v dict \<Rightarrow> nat) \<Rightarrow> ('v \<Rightarrow> (VectorClock \<Rightarrow> bool) option) \<Rightarrow> (nat \<Rightarrow> nat) \<Rightarrow> (nat \<Rightarrow> int)
       \<Rightarrow> bool \<Rightarrow> gc_type \<Rightarrow> 'v dict list \<Rightarrow> gc_cursor \<Rightarrow> crdt_server
       \<Rightarrow> ('v dict list \<times> gc_cursor \<times> crdt_server) option res" where
  "Gc cfg slots meth rnd now paused type dbs cur s =
     (let start = now 0
      in if paused then Inr (Some (dbs, cur, s))
         else
           bindE (updateGcVectorClock s) (\<lambda>s.
           if type = ACTIVE_GC_CYCLE_FAST \<and> (\<not> timelimit_exit cur \<or> start < last_fast_cycle cur + 1000 * 2)
           then Inr (Some (dbs, cur, s))
           else
             (let cur = (if type = ACTIVE_GC_CYCLE_FAST then cur\<lparr>last_fast_cycle := start\<rparr> else cur);
                  dbs_per_call = (if 16 > gc_dbnum cfg \<or> timelimit_exit cur then gc_dbnum cfg else 16);
                  timelimit = int (1000000 * gc_slow_time_perc cfg div gc_hz cfg div 100);
                  cur = cur\<lparr>timelimit_exit := False\<rparr>;
                  timelimit = (if timelimit \<le> 0 then 1 else timelimit);
                  timelimit = (if type = ACTIVE_GC_CYCLE_FAST then 1000 else timelimit)
              in Inr (gc_dbs cfg slots meth rnd now start timelimit dbs_per_call dbs cur s 0 0 1))))"

subsection \<open>The collection clock is the greatest lower bound\<close>

definition peers_wf :: "crdt_server \<Rightarrow> bool" where
  "peers_wf s \<longleftrightarrow> length (crdtMasters s) = 16
     \<and> (\<forall>i p. i < 16 \<longrightarrow> crdtMasters s ! i = Some p \<longrightarrow> vc_wf (pm_vectorClock p) \<and> vc_wf (backstream_vc p))"

definition peer_clock :: "crdt_server \<Rightarrow> nat \<Rightarrow> VectorClock" where
  "peer_clock s i = (case crdtMasters s ! i of None \<Rightarrow> [] | Some p \<Rightarrow> pm_vectorClock p)"

definition active_peer :: "crdt_server \<Rightarrow> nat \<Rightarrow> bool" where
  "active_peer s i \<longleftrightarrow> in_set (peer_set s) i \<and> \<not> in_set (offline_peer_set s) i"

text \<open>Two states that differ only in the order of units inside peer clocks.\<close>

definition same_peers :: "crdt_server \<Rightarrow> crdt_server \<Rightarrow> bool" where
  "same_peers s s' \<longleftrightarrow> s' = s\<lparr>crdtMasters := crdtMasters s'\<rparr> \<and> peers_wf s'
     \<and> (\<forall>i < 16. vc_time (peer_clock s' i) = vc_time (peer_clock s i))"

lemma same_peers_fields:
  assumes "same_peers s s'"
  shows "peer_set s' = peer_set s" "offline_peer_set s' = offline_peer_set s" "vectorClock s' = vectorClock s"
    "vectorClockCache s' = vectorClockCache s" "gcVectorClock s' = gcVectorClock s" "crdt_gid s' = crdt_gid s"
    "active_peer s' = active_peer s" "peers_wf s'"
    "i < 16 \<Longrightarrow> vc_time (peer_clock s' i) = vc_time (peer_clock s i)"
proof -
  have "s' = s\<lparr>crdtMasters := crdtMasters s'\<rparr>" using assms by (simp add: same_peers_def)
  then obtain ms where "s' = s\<lparr>crdtMasters := ms\<rparr>" by blast
  then show "peer_set s' = peer_set s" "offline_peer_set s' = offline_peer_set s" "vectorClock s' = vectorClock s"
    "vectorClockCache s' = vectorClockCache s" "gcVectorClock s' = gcVectorClock s" "crdt_gid s' = crdt_gid s"
    "active_peer s' = active_peer s"
    by (simp_all add: active_peer_def fun_eq_iff)
  show "peers_wf s'" "i < 16 \<Longrightarrow> vc_time (peer_clock s' i) = vc_time (peer_clock s i)"
    using assms by (simp_all add: same_peers_def)
qed

lemma same_peers_refl: "peers_wf s \<Longrightarrow> same_peers s s"
  by (simp add: same_peers_def)

lemma same_peers_trans: "same_peers s s' \<Longrightarrow> same_peers s' s'' \<Longrightarrow> same_peers s s''"
proof -
  assume a: "same_peers s s'" "same_peers s' s''"
  obtain ms where "s' = s\<lparr>crdtMasters := ms\<rparr>" using a(1) unfolding same_peers_def by blast
  moreover obtain ms' where "s'' = s'\<lparr>crdtMasters := ms'\<rparr>" using a(2) unfolding same_peers_def by blast
  ultimately have "s'' = s\<lparr>crdtMasters := crdtMasters s''\<rparr>" by simp
  with a show ?thesis by (simp add: same_peers_def)
qed

lemma mergeMin_args:
  assumes "vc_wf a" and "vc_wf b"
  shows "\<exists>r a' b'. mergeMinVectorClock a b = Inr (r, a', b') \<and> vc_wf r \<and> vc_wf b'
     \<and> vc_time b' = vc_time b \<and> (\<forall>g. vc_time r g = min (vc_time a g) (vc_time b g))"
proof -
  from mergeMinVectorClock_ok [OF assms] obtain r a' b' where r:
      "mergeMinVectorClock a b = Inr (r, a', b')" "vc_wf b'" "set b' = set b"
    by blast
  have "vc_map b' = vc_map b" using vc_map_set_eq [OF r(2) assms(2) r(3)] .
  then have "vc_time b' = vc_time b" by (simp add: fun_eq_iff vc_time_def)
  with r mergeMin_time [OF assms] show ?thesis by auto
qed

lemma gc_clock_step_ok:
  assumes "peers_wf s" and "vc_wf gcvc" and "i < 16"
  shows "\<exists>r s'. gc_clock_step i (gcvc, s) = Inr (r, s') \<and> vc_wf r \<and> same_peers s s'
     \<and> (\<forall>g t. t \<le> vc_time r g \<longleftrightarrow>
          t \<le> vc_time gcvc g \<and> (active_peer s i \<longrightarrow> t \<le> vc_time (peer_clock s i) g))"
proof (cases "active_peer s i")
  case False
  then have "gc_clock_step i (gcvc, s) = Inr (gcvc, s)"
    by (auto simp: gc_clock_step_def active_peer_def)
  with False assms show ?thesis by (simp add: same_peers_refl)
next
  case True
  have len: "length (crdtMasters s) = 16" using assms(1) by (simp add: peers_wf_def)
  then have get: "getPeerMaster (int i) s = Inr (crdtMasters s ! i)"
    using assms(3) by (simp add: getPeerMaster_def)
  show ?thesis
  proof (cases "crdtMasters s ! i")
    case None
    obtain r a' b' where "mergeMinVectorClock gcvc [] = Inr (r, a', b')" "vc_wf r"
        "\<forall>g. vc_time r g = min (vc_time gcvc g) (vc_time [] g)"
      using mergeMin_args [OF assms(2) vc_wf_Nil] by blast
    with True get None assms(1) show ?thesis
      by (simp add: gc_clock_step_def active_peer_def newVectorClock_ok0 peer_clock_def same_peers_refl)
  next
    case (Some p)
    have wf: "vc_wf (pm_vectorClock p)" "vc_wf (backstream_vc p)"
      using assms(1,3) Some by (auto simp: peers_wf_def)
    obtain r a' b' where r: "mergeMinVectorClock gcvc (pm_vectorClock p) = Inr (r, a', b')" "vc_wf r" "vc_wf b'"
        "vc_time b' = vc_time (pm_vectorClock p)"
        "\<forall>g. vc_time r g = min (vc_time gcvc g) (vc_time (pm_vectorClock p) g)"
      using mergeMin_args [OF assms(2) wf(1)] by blast
    define s' where "s' = setPeerMaster (int i) (Some (p\<lparr>pm_vectorClock := b'\<rparr>)) s"
    have "same_peers s s'"
      using assms(1,3) len wf r(3,4) Some unfolding same_peers_def peers_wf_def s'_def
      by (auto simp: setPeerMaster_def peer_clock_def nth_list_update split: if_splits)
    moreover have "gc_clock_step i (gcvc, s) = Inr (r, s')"
      using True get Some r(1) by (simp add: gc_clock_step_def active_peer_def s'_def)
    ultimately show ?thesis
      using r(2,5) True Some by (auto simp: peer_clock_def)
  qed
qed

lemma gc_clock_loop_ok:
  assumes "peers_wf s" and "vc_wf gcvc" and "\<forall>i \<in> set is. i < 16"
  shows "\<exists>r s'. foldE gc_clock_step is (gcvc, s) = Inr (r, s') \<and> vc_wf r \<and> same_peers s s'
     \<and> (\<forall>g t. t \<le> vc_time r g \<longleftrightarrow> t \<le> vc_time gcvc g
            \<and> (\<forall>i \<in> set is. active_peer s i \<longrightarrow> t \<le> vc_time (peer_clock s i) g))"
  using assms
proof (induction "is" arbitrary: gcvc s)
  case Nil
  then show ?case by (simp add: same_peers_refl)
next
  case (Cons i "is")
  then have i: "i < 16" by simp
  obtain r1 s1 where 1: "gc_clock_step i (gcvc, s) = Inr (r1, s1)" "vc_wf r1" "same_peers s s1"
      "\<forall>g t. t \<le> vc_time r1 g \<longleftrightarrow>
         t \<le> vc_time gcvc g \<and> (active_peer s i \<longrightarrow> t \<le> vc_time (peer_clock s i) g)"
    using gc_clock_step_ok [OF Cons.prems(1,2) i] by blast
  have is_lt: "\<forall>i \<in> set is. i < 16" using Cons.prems(3) by simp
  obtain r s' where 2: "foldE gc_clock_step is (r1, s1) = Inr (r, s')" "vc_wf r" "same_peers s1 s'"
      "\<forall>g t. t \<le> vc_time r g \<longleftrightarrow> t \<le> vc_time r1 g
         \<and> (\<forall>i \<in> set is. active_peer s1 i \<longrightarrow> t \<le> vc_time (peer_clock s1 i) g)"
    using Cons.IH [OF same_peers_fields(8) [OF 1(3)] 1(2) is_lt] by blast
  have "(\<forall>i \<in> set is. active_peer s1 i \<longrightarrow> t \<le> vc_time (peer_clock s1 i) g)
      \<longleftrightarrow> (\<forall>i \<in> set is. active_peer s i \<longrightarrow> t \<le> vc_time (peer_clock s i) g)" for t g
    using is_lt by (simp add: same_peers_fields(7,9) [OF 1(3)])
  with 1 2 same_peers_trans [OF 1(3) 2(3)] show ?case by auto
qed

lemma updateGcVectorClock_ok:
  assumes "peers_wf s" and "vc_wf (vectorClock s)"
  shows "\<exists>r s'. updateGcVectorClock s = Inr (s'\<lparr>gcVectorClock := r\<rparr>) \<and> vc_wf r \<and> same_peers s s'
     \<and> (\<forall>g t. t \<le> vc_time r g \<longleftrightarrow> t \<le> vc_time (vectorClock s) g
            \<and> (\<forall>i < 16. active_peer s i \<longrightarrow> t \<le> vc_time (peer_clock s i) g))"
proof -
  obtain r s' where r: "foldE gc_clock_step [0..<16] (vectorClock s, s) = Inr (r, s')" "vc_wf r" "same_peers s s'"
      "\<forall>g t. t \<le> vc_time r g \<longleftrightarrow> t \<le> vc_time (vectorClock s) g
            \<and> (\<forall>i \<in> set [0..<16]. active_peer s i \<longrightarrow> t \<le> vc_time (peer_clock s i) g)"
    using gc_clock_loop_ok [OF assms, of "[0..<16]"] by auto
  then have "updateGcVectorClock s = Inr (s'\<lparr>gcVectorClock := r\<rparr>)"
    by (simp add: updateGcVectorClock_def getGcVectorClock_def dupVectorClock_ok [OF assms(2)])
  moreover have "(\<forall>i \<in> set [0..<16]. P i) \<longleftrightarrow> (\<forall>i < 16. P i)" for P :: "nat \<Rightarrow> bool"
    by auto
  ultimately show ?thesis using r(2-4) by (simp only:) blast
qed

text \<open>A tombstone's clock that is accepted by the collection clock is known to every active peer.\<close>

lemma collected_known:
  assumes "peers_wf s" and "vc_wf (vectorClock s)" and "updateGcVectorClock s = Inr s1"
    and "vc_wf vc" and "isVectorClockMonoIncr vc (gcVectorClock s1)" and "i < 16" and "active_peer s i"
  shows "vc_time vc g \<le> vc_time (peer_clock s i) g \<and> vc_time vc g \<le> vc_time (vectorClock s) g"
proof -
  obtain r s' where r: "updateGcVectorClock s = Inr (s'\<lparr>gcVectorClock := r\<rparr>)" "vc_wf r"
      "\<forall>g t. t \<le> vc_time r g \<longleftrightarrow> t \<le> vc_time (vectorClock s) g
            \<and> (\<forall>i < 16. active_peer s i \<longrightarrow> t \<le> vc_time (peer_clock s i) g)"
    using updateGcVectorClock_ok [OF assms(1,2)] by blast
  then have "gcVectorClock s1 = r" using assms(3) by auto
  then have "vc_time vc g \<le> vc_time r g"
    using assms(4,5) r(2) by (simp add: isVectorClockMonoIncr_iff)
  with r(3) assms(6,7) show ?thesis by blast
qed

subsection \<open>The cycle terminates and removes only accepted tombstones\<close>

definition accepted :: "('v \<Rightarrow> (VectorClock \<Rightarrow> bool) option) \<Rightarrow> VectorClock \<Rightarrow> 'v \<Rightarrow> bool" where
  "accepted meth gcvc v = (case meth v of None \<Rightarrow> False | Some gc \<Rightarrow> gc gcvc)"

text \<open>
  What a round of the cycle may do to a dictionary: drop entries whose tombstone the collection clock
  accepts; the collection clock itself does not change.
\<close>

definition gc_progress ::
    "('v \<Rightarrow> (VectorClock \<Rightarrow> bool) option) \<Rightarrow> 'v dict \<Rightarrow> crdt_server \<Rightarrow> 'v dict \<Rightarrow> crdt_server \<Rightarrow> bool" where
  "gc_progress meth d s d' s' \<longleftrightarrow> gcVectorClock s' = gcVectorClock s \<and> set d' \<subseteq> set d
     \<and> distinct (map fst d')
     \<and> (\<forall>de \<in> set d - set d'. accepted meth (gcVectorClock s) (snd de))"

lemma gc_progress_refl: "distinct (map fst d) \<Longrightarrow> gc_progress meth d s d s"
  by (simp add: gc_progress_def)

lemma gc_progress_trans:
  "gc_progress meth d s d1 s1 \<Longrightarrow> gc_progress meth d1 s1 d2 s2 \<Longrightarrow> gc_progress meth d s d2 s2"
  unfolding gc_progress_def by auto

lemma activeGcCycleTryGc_ok:
  assumes "distinct (map fst d)" and "de \<in> set d" and "activeGcCycleTryGc meth d de s = (ok, d', s')"
  shows "gc_progress meth d s d' s' \<and> length d' + of_bool ok \<le> length d"
proof (cases "accepted meth (gcVectorClock s) (snd de)")
  case False
  with assms show ?thesis
    by (auto simp: activeGcCycleTryGc_def accepted_def gc_progress_def split: option.splits if_splits)
next
  case True
  have find: "map_of d (fst de) = Some (snd de)" using assms(1,2) by simp
  have only: "v = snd de" if "(fst de, v) \<in> set d" for v
    using that assms(1,2) eq_key_imp_eq_value [of d "fst de" v "snd de"] by simp
  have r: "ok" "d' = filter (\<lambda>(k', _). k' \<noteq> fst de) d" "gcVectorClock s' = gcVectorClock s"
    using True assms(3) find
    by (auto simp: activeGcCycleTryGc_def accepted_def dictDelete_def split: option.splits if_splits)
  have "length d' < length d"
    unfolding r(2) by (rule length_filter_less [OF assms(2)]) (simp add: case_prod_unfold)
  moreover have "distinct (map fst d')" using assms(1) r(2) by (simp add: distinct_map_filter_fst)
  ultimately show ?thesis
    using True only r by (auto simp: gc_progress_def)
qed

lemma gc_sample_ok:
  assumes "distinct (map fst d)" and "gc_sample meth rnd num d s deleted k = (d', s', deleted', k')"
  shows "gc_progress meth d s d' s' \<and> length d' + deleted' \<le> length d + deleted"
  using assms
proof (induction meth rnd num d s deleted k rule: gc_sample.induct)
  case (1 meth rnd d s deleted k)
  then show ?case by (simp add: gc_progress_refl)
next
  case (2 meth rnd num d s deleted k)
  show ?case
  proof (cases "d = []")
    case True
    with 2 show ?thesis by (simp add: gc_progress_refl)
  next
    case False
    then have de: "d ! (rnd k mod length d) \<in> set d" by simp
    obtain ok d1 s1 where 1: "activeGcCycleTryGc meth d (d ! (rnd k mod length d)) s = (ok, d1, s1)"
      by (cases "activeGcCycleTryGc meth d (d ! (rnd k mod length d)) s") auto
    note step = activeGcCycleTryGc_ok [OF "2.prems"(1) de 1]
    have "distinct (map fst d1)" using step by (simp add: gc_progress_def)
    with 2 False 1 have
        "gc_progress meth d1 s1 d' s' \<and> length d' + deleted' \<le> length d1 + (if ok then deleted + 1 else deleted)"
      by simp
    with step show ?thesis by (auto intro: gc_progress_trans split: if_splits)
  qed
qed

lemma gc_db_loop_ok:
  assumes "distinct (map fst d)" and "length d < fuel"
  shows "\<exists>d' s' it hit k' t'.
     gc_db_loop cfg slots meth rnd now start timelimit fuel d s it0 k t = Some (d', s', it, hit, k', t')
     \<and> gc_progress meth d s d' s'"
  using assms
proof (induction fuel arbitrary: d s it0 k t)
  case 0
  then show ?case by simp
next
  case (Suc fuel)
  let ?num = "if length d > gc_lookups_per_loop cfg then gc_lookups_per_loop cfg else length d"
  obtain d1 s1 del k1 where 1: "gc_sample meth rnd ?num d s 0 k = (d1, s1, del, k1)"
    by (cases "gc_sample meth rnd ?num d s 0 k") auto
  note smp = gc_sample_ok [OF Suc.prems(1) 1]
  have dist: "distinct (map fst d1)" using smp by (simp add: gc_progress_def)
  let ?t = "if Suc it0 mod 16 = 0 then Suc t else t"
  have again: "\<exists>d' s' it hit k' t'.
      gc_db_loop cfg slots meth rnd now start timelimit fuel d1 s1 (Suc it0) k1 ?t = Some (d', s', it, hit, k', t')
      \<and> gc_progress meth d s d' s'" if "del > 0"
  proof -
    have "length d1 < fuel" using that smp Suc.prems(2) by linarith
    from Suc.IH [OF dist this, of s1 "Suc it0" k1 ?t] smp show ?thesis
      by (meson gc_progress_trans)
  qed
  show ?case
    using again smp gc_progress_refl [OF Suc.prems(1)]
    by (auto simp: Let_def 1 split: prod.splits)
qed

lemma gc_dbs_ok:
  assumes "length dbs = gc_dbnum cfg" and "0 < gc_dbnum cfg" and "\<forall>d \<in> set dbs. distinct (map fst d)"
  shows "\<exists>dbs' cur' s'.
     gc_dbs cfg slots meth rnd now start timelimit j dbs cur s it k t = Some (dbs', cur', s')
     \<and> length dbs' = length dbs \<and> (\<forall>i < length dbs. gc_progress meth (dbs ! i) s (dbs' ! i) s')"
  using assms
proof (induction j arbitrary: dbs cur s it k t)
  case 0
  then show ?case by (simp add: gc_progress_refl)
next
  case (Suc j)
  note dist = Suc.prems(3)
  show ?case
  proof (cases "timelimit_exit cur")
    case True
    then show ?thesis using dist by (simp add: gc_progress_refl)
  next
    case False
    let ?i = "unat (current_db cur) mod gc_dbnum cfg"
    have i: "?i < length dbs" using Suc.prems(1,2) by simp
    obtain d s1 it1 hit k1 t1 where 1: "gc_db_loop cfg slots meth rnd now start timelimit
        (Suc (length (dbs ! ?i))) (dbs ! ?i) s it k t = Some (d, s1, it1, hit, k1, t1)"
        and pr: "gc_progress meth (dbs ! ?i) s d s1"
      using gc_db_loop_ok [of "dbs ! ?i" "Suc (length (dbs ! ?i))"] i dist by (metis lessI nth_mem)
    let ?dbs = "dbs[?i := d]" and ?cur = "cur\<lparr>current_db := current_db cur + 1, timelimit_exit := hit\<rparr>"
    have "length ?dbs = gc_dbnum cfg" "\<forall>e \<in> set ?dbs. distinct (map fst e)"
      using Suc.prems(1) dist pr set_update_subset_insert [of dbs ?i d] by (auto simp: gc_progress_def)
    from Suc.IH [OF this(1) Suc.prems(2) this(2), of ?cur s1 it1 k1 t1] obtain dbs' cur' s' where 2:
        "gc_dbs cfg slots meth rnd now start timelimit j ?dbs ?cur s1 it1 k1 t1 = Some (dbs', cur', s')"
        "length dbs' = length dbs" "\<forall>i < length dbs. gc_progress meth (?dbs ! i) s1 (dbs' ! i) s'"
      by auto
    have "gc_progress meth (dbs ! i) s (?dbs ! i) s1" if "i < length dbs" for i
      using that pr dist gc_progress_def [of meth "dbs ! i" s "dbs ! i" s1]
      by (cases "i = ?i") (auto simp: gc_progress_def)
    with 2 have "\<forall>i < length dbs. gc_progress meth (dbs ! i) s (dbs' ! i) s'"
      by (meson gc_progress_trans)
    with 1 2(1,2) False show ?thesis by (simp add: Let_def)
  qed
qed

subsection \<open>Properties\<close>

text \<open>
  The collection clock is the greatest clock below the process clock and below the last known
  clock of every peer that is in the peer set and not set offline; a peer in the set without an
  instance counts as having seen nothing. Computing it cannot fault and changes no clock.
\<close>

theorem updateGcVectorClock_greatest_lower_bound:
  assumes "peers_wf s" and "vc_wf (vectorClock s)"
  shows "\<exists>r s'. updateGcVectorClock s = Inr (s'\<lparr>gcVectorClock := r\<rparr>) \<and> vc_wf r \<and> same_peers s s'
     \<and> (\<forall>g t. t \<le> vc_time r g \<longleftrightarrow> t \<le> vc_time (vectorClock s) g
            \<and> (\<forall>i < 16. active_peer s i \<longrightarrow> t \<le> vc_time (peer_clock s i) g))"
  using assms by (rule updateGcVectorClock_ok)

lemma sample_peers_wf: "peers_wf sample_server"
  by (auto simp: peers_wf_def sample_server_def)

theorem updateGcVectorClock_greatest_lower_bound_witness:
  "\<exists>r s'. updateGcVectorClock sample_server = Inr (s'\<lparr>gcVectorClock := r\<rparr>) \<and> \<not> 1 \<le> vc_time r 1"
proof -
  have w: "vc_wf (vectorClock sample_server)" "active_peer sample_server 2"
    "\<not> 1 \<le> vc_time (peer_clock sample_server 2) 1"
    by code_simp+
  from updateGcVectorClock_greatest_lower_bound [OF sample_peers_wf w(1)] obtain r s' where
      "updateGcVectorClock sample_server = Inr (s'\<lparr>gcVectorClock := r\<rparr>)"
      "\<forall>g t. t \<le> vc_time r g \<longleftrightarrow> t \<le> vc_time (vectorClock sample_server) g
         \<and> (\<forall>i < 16. active_peer sample_server i \<longrightarrow> t \<le> vc_time (peer_clock sample_server i) g)"
    by (elim exE conjE) (rule that)
  moreover have "(2 :: nat) < 16" by simp
  ultimately show ?thesis using w(2,3) by blast
qed


definition sample_cfg :: gc_config where
  "sample_cfg = \<lparr>gc_lookups_per_loop = 20, gc_slow_time_perc = 25, gc_non_gc_perc = 25, gc_hz = 10, gc_dbnum = 1\<rparr>"


lemma map_of_dictReplace: "map_of (dictReplace d k v) = (map_of d)(k \<mapsto> v)"
proof (cases "map_of d k")
  case None
  then show ?thesis by (simp add: dictReplace_def)
next
  case (Some x)
  have "map_of (map (\<lambda>(k', v'). if k' = k then (k', v) else (k', v')) e) k'
      = (if k' = k then map_option (\<lambda>_. v) (map_of e k) else map_of e k')" for e k'
    by (induction e) auto
  with Some show ?thesis by (auto simp: dictReplace_def fun_eq_iff)
qed

lemma distinct_dictReplace: "distinct (map fst d) \<Longrightarrow> distinct (map fst (dictReplace d k v))"
proof (cases "map_of d k")
  case None
  then have "k \<notin> fst ` set d" by (simp add: map_of_eq_None_iff)
  with None show "distinct (map fst d) \<Longrightarrow> ?thesis" by (simp add: dictReplace_def)
next
  case (Some x)
  have "map fst (map (\<lambda>(k', v'). if k' = k then (k', v) else (k', v')) d) = map fst d"
    by (induction d) auto
  with Some show "distinct (map fst d) \<Longrightarrow> ?thesis" by (simp only: dictReplace_def option.case)
qed

lemma lookupTombstone_map_of: "lookupTombstone d key = map_of d key"
  by (simp add: lookupTombstone_def)

lemma map_of_dictDelete: "map_of (snd (dictDelete d k)) = (map_of d)(k := None)"
proof -
  have "map_of (filter (\<lambda>(k', _). k' \<noteq> k) e) k' = (if k' = k then None else map_of e k')" for e :: "'a dict" and k'
    by (induction e) auto
  then show ?thesis by (auto simp: dictDelete_def fun_eq_iff split: option.splits)
qed

text \<open>
  Recording a tombstone never aborts and is what a later lookup finds, whether or not the key had
  one; other keys keep theirs, keys stay distinct, and \<open>removeDel\<close> undoes it.
\<close>

theorem setKeyToTombstone_lookup:
  assumes "distinct (map fst d)"
  shows "\<exists>d'. setKeyToTombstone d key val = Inr d' \<and> distinct (map fst d')
     \<and> (\<forall>k. lookupTombstone d' k = (if k = key then Some val else lookupTombstone d k))
     \<and> fst (removeDel d' key) \<and> lookupTombstone (snd (removeDel d' key)) key = None"
proof (cases "map_of d key")
  case None
  then have "setKeyToTombstone d key val = Inr ((key, val) # d)"
    by (simp add: setKeyToTombstone_def lookupTombstone_map_of tombstoneAdd_def dictAdd_def)
  with None assms show ?thesis
    by (auto simp: lookupTombstone_map_of removeDel_def dictDelete_def map_of_eq_None_iff)
next
  case (Some old)
  then have "setKeyToTombstone d key val = Inr (dictReplace d key val)"
    by (simp add: setKeyToTombstone_def lookupTombstone_map_of tombstoneOverwrite_def)
  moreover have "map_of (dictReplace d key val) = (map_of d)(key \<mapsto> val)" by (rule map_of_dictReplace)
  ultimately show ?thesis
    using assms distinct_dictReplace [of d key val] map_of_dictDelete [of "dictReplace d key val" key]
    by (auto simp: lookupTombstone_map_of removeDel_def dictDelete_def)
qed

theorem setKeyToTombstone_lookup_witness:
  "\<exists>d'. setKeyToTombstone [(''a'', 1 :: int)] ''b'' 2 = Inr d' \<and> lookupTombstone d' ''b'' = Some 2"
proof -
  have "distinct (map fst [(''a'', 1 :: int)])" by simp
  from setKeyToTombstone_lookup [OF this, of "''b''" 2] show ?thesis by auto
qed

text \<open>
  Looking a tombstone up collects it only when the server is not loading and the freshly computed
  collection clock accepts it; any other lookup leaves the dictionary as it was.
\<close>

theorem gcIfNeeded_guarded:
  assumes "peers_wf s" and "vc_wf (vectorClock s)"
  shows "\<exists>collected d' s'. gcIfNeeded meth d key s = Inr (collected, d', s')
     \<and> (collected \<longrightarrow> \<not> server_loading s \<and> \<not> crdt_loading s \<and> map_of d' = (map_of d)(key := None)
          \<and> (\<exists>v. map_of d key = Some v \<and> accepted meth (gcVectorClock s') v))
     \<and> (\<not> collected \<longrightarrow> d' = d)"
proof -
  obtain s1 where s1: "updateGcVectorClock s = Inr s1" using updateGcVectorClock_ok [OF assms] by auto
  show ?thesis
    using map_of_dictDelete [of d key]
    by (cases "map_of d key")
       (auto simp: gcIfNeeded_def lookupTombstone_map_of s1 accepted_def dictDelete_def Let_def
         split: option.splits)
qed

theorem gcIfNeeded_guarded_witness:
  "\<exists>collected d' s'. gcIfNeeded (\<lambda>v. Some (\<lambda>c. v)) [(''k'', False)] ''k'' sample_server = Inr (collected, d', s')
     \<and> (\<not> collected \<longrightarrow> d' = [(''k'', False)])"
proof -
  have "vc_wf (vectorClock sample_server)" by code_simp
  from gcIfNeeded_guarded [OF sample_peers_wf this, of "\<lambda>v. Some (\<lambda>c. v)" "[(''k'', False)]" "''k''"]
  show ?thesis by blast
qed

end
