(* ===== verification/Crdt_Peer.thy ===== *)
theory Crdt_Peer
  imports Crdt_Gc
begin

section \<open>Peers\<close>

text \<open>
  The life of a peer, \<^verbatim>\<open>CRDT_Master_Instance\<close>, in \<^verbatim>\<open>src/src/ctrip_crdt_replication.c\<close>: creating and removing
  it (\<^verbatim>\<open>PEEROF\<close>), losing, caching and resuming its connection, the commands that start and end the merge
  of its snapshot, and the bookkeeping of a restart. A peer's client is embedded in it. Functions take
  the gid of the peer where the C functions take a pointer to it; a gid outside the table is an access
  out of bounds. \<open>mstime\<close> is the value of \<^verbatim>\<open>mstime()\<close>.
\<close>

abbreviation MAX_PEERS :: nat where "MAX_PEERS \<equiv> 15"
abbreviation NO_LAZY_TIME :: int where "NO_LAZY_TIME \<equiv> 0"
abbreviation REPLID_BYTES :: nat where "REPLID_BYTES \<equiv> 41"

definition createPeerMaster :: "int \<Rightarrow> mclient option \<Rightarrow> int \<Rightarrow> crdt_server
    \<Rightarrow> (CRDT_Master_Instance \<times> crdt_server) res" where
  "createPeerMaster mstime c g s =
     bindE (addPeerSet g s) (\<lambda>s.
     Inr (\<lparr>pm_gid = g, masterauth = None, masterhost = None, masterport = - 1, master = c,
           cached_master = None, repl_state = REPL_STATE_NONE, repl_transfer_s = - 1,
           repl_transfer_lastio = mstime, repl_down_since = 0, master_replid = [],
           master_initial_offset = - 1, pm_vectorClock = [], pm_dbid = 0, backstream_vc = [],
           lazy_time = NO_LAZY_TIME, pm_proxy_type = NONE_PROXY, pm_proxy = None\<rparr>, s))"

text \<open>\<open>createClient(-1)\<close>: a client without a socket. Its gid and replication id are set by the callers.\<close>

definition fake_client :: "int \<Rightarrow> mclient" where
  "fake_client now = \<lparr>mc_gid = 0, mc_fd = - 1, mc_crdt_master = False, mc_closing = False,
     mc_authenticated = False, mc_lastinteraction = now, mc_db = 0, mc_reploff = 0, mc_read_reploff = 0,
     mc_replid = [], mc_querybuf = [], mc_pending_querybuf = [], mc_freed = False\<rparr>"

text \<open>Run \<open>f\<close> on the peer with this gid, if there is one.\<close>

definition on_peer :: "int \<Rightarrow> (CRDT_Master_Instance \<Rightarrow> CRDT_Master_Instance) \<Rightarrow> crdt_server \<Rightarrow> crdt_server res" where
  "on_peer g f s =
     bindE (getPeerMaster g s) (\<lambda>m.
     Inr (case m of None \<Rightarrow> s | Some p \<Rightarrow> setPeerMaster g (Some (f p)) s))"

text \<open>\<open>freePeerMaster\<close> clears the flag of both clients before it frees them, so they are not cached.\<close>

definition freePeerMaster :: "int \<Rightarrow> crdt_server \<Rightarrow> crdt_server res" where
  "freePeerMaster g s =
     bindE (getPeerMaster g s) (\<lambda>m.
     case m of
       None \<Rightarrow> Inr s
     | Some p \<Rightarrow>
         (case (master p, cached_master p) of
            (Some c, _) \<Rightarrow> if mc_freed c then Inl UseAfterFree else Inr (setPeerMaster (pm_gid p) None s)
          | _ \<Rightarrow> Inr (setPeerMaster (pm_gid p) None s)))"

definition refreshVectorClock :: "string \<Rightarrow> crdt_server \<Rightarrow> (VectorClock \<times> crdt_server) res" where
  "refreshVectorClock vcStr s =
     bindE (sdsToVectorClock vcStr) (\<lambda>vclock.
     bindE (foldE (\<lambda>c s. addPeerSet (get_gid c) s) vclock s) (\<lambda>s. Inr (vclock, s)))"

text \<open>The commands \<open>crdtReplicationSendAck\<close> queues for the peer.\<close>

definition crdtReplicationSendAck :: "CRDT_Master_Instance option \<Rightarrow> crdt_server \<Rightarrow> string list list res" where
  "crdtReplicationSendAck m s =
     (case m of
        None \<Rightarrow> Inl NullDeref
      | Some p \<Rightarrow>
          (case master p of
             None \<Rightarrow> Inr []
           | Some c \<Rightarrow>
               if mc_freed c then Inl UseAfterFree
               else Inr [[''CRDT.REPLCONF'', ''ACK-VC'', vectorClockToSds (vectorClock s)],
                         [''CRDT.REPLCONF'', ''ACK'', show_int (mc_reploff c)]]))"

fun clean_loading_loop :: "nat list \<Rightarrow> crdt_server \<Rightarrow> crdt_server res" where
  "clean_loading_loop [] s = Inr (s\<lparr>crdt_loading := False\<rparr>)"
| "clean_loading_loop (i # is) s =
     bindE (getPeerMaster (int i) s) (\<lambda>m.
     case m of
       None \<Rightarrow> clean_loading_loop is s
     | Some p \<Rightarrow> if \<not> isNullVectorClock (backstream_vc p) then Inr s else clean_loading_loop is s)"

definition tryCleanCrdtServerLoading :: "crdt_server \<Rightarrow> crdt_server res" where
  "tryCleanCrdtServerLoading s = clean_loading_loop [0..<16] s"

subsection \<open>Losing and resuming a connection\<close>

definition crdtSlaveIsInHandshakeState :: "CRDT_Master_Instance \<Rightarrow> bool" where
  "crdtSlaveIsInHandshakeState p \<longleftrightarrow>
     (case repl_state p of
        REPL_STATE_NONE \<Rightarrow> False | REPL_STATE_CONNECT \<Rightarrow> False | REPL_STATE_CONNECTING \<Rightarrow> False
      | REPL_STATE_TRANSFER \<Rightarrow> False | REPL_STATE_CONNECTED \<Rightarrow> False | _ \<Rightarrow> True)"

definition crdtUndoConnectWithMaster :: "CRDT_Master_Instance \<Rightarrow> CRDT_Master_Instance" where
  "crdtUndoConnectWithMaster p =
     (if repl_transfer_s p = - 1 then p else p\<lparr>repl_transfer_s := - 1\<rparr>)"

definition crdtReplicationAbortSyncTransfer :: "CRDT_Master_Instance \<Rightarrow> CRDT_Master_Instance res" where
  "crdtReplicationAbortSyncTransfer p =
     bindE (assertE (repl_state p = REPL_STATE_TRANSFER)) (\<lambda>_.
     let p = crdtUndoConnectWithMaster p
     in case master p of
          None \<Rightarrow> Inr p
        | Some c \<Rightarrow> if mc_freed c then Inl UseAfterFree else Inr (p\<lparr>master := None\<rparr>))"

definition crdtCancelReplicationHandshake :: "int \<Rightarrow> crdt_server \<Rightarrow> crdt_server res" where
  "crdtCancelReplicationHandshake g s =
     bindE (getPeerMaster g s) (\<lambda>m.
     case m of
       None \<Rightarrow> Inr s
     | Some p \<Rightarrow>
         if repl_state p = REPL_STATE_TRANSFER then
           bindE (crdtReplicationAbortSyncTransfer p) (\<lambda>p.
           Inr (setPeerMaster g (Some (p\<lparr>repl_state := REPL_STATE_CONNECT\<rparr>)) s))
         else if repl_state p = REPL_STATE_CONNECTING \<or> crdtSlaveIsInHandshakeState p then
           Inr (setPeerMaster g (Some ((crdtUndoConnectWithMaster p)\<lparr>repl_state := REPL_STATE_CONNECT\<rparr>)) s)
         else Inr s)"

text \<open>\<open>handler_ok\<close>: both event handlers could be installed.\<close>

definition crdtReplicationResurrectCachedMaster ::
  "CRDT_Master_Instance \<Rightarrow> int \<Rightarrow> int \<Rightarrow> bool \<Rightarrow> CRDT_Master_Instance res" where
  "crdtReplicationResurrectCachedMaster p newfd now handler_ok =
     (case cached_master p of
        None \<Rightarrow> Inl NullDeref
      | Some c \<Rightarrow>
          let c = c\<lparr>mc_fd := newfd, mc_closing := False, mc_authenticated := True, mc_lastinteraction := now\<rparr>;
              c = (if handler_ok then c else c\<lparr>mc_closing := True\<rparr>)
          in Inr (p\<lparr>master := Some c, cached_master := None, repl_state := REPL_STATE_CONNECTED\<rparr>))"

definition crdtReplicationDiscardCachedMaster :: "CRDT_Master_Instance \<Rightarrow> CRDT_Master_Instance" where
  "crdtReplicationDiscardCachedMaster p = (if cached_master p = None then p else p\<lparr>cached_master := None\<rparr>)"

definition crdtReplicationCreateMasterClient ::
  "CRDT_Master_Instance \<Rightarrow> mclient \<Rightarrow> int \<Rightarrow> CRDT_Master_Instance" where
  "crdtReplicationCreateMasterClient p c dbid =
     (let c = c\<lparr>mc_gid := pm_gid p, mc_crdt_master := True, mc_authenticated := True\<rparr>;
          c = (if dbid \<noteq> - 1 then c\<lparr>mc_db := dbid\<rparr> else c)
      in p\<lparr>master := Some c\<rparr>)"

definition crdtReplicationHandleMasterDisconnection :: "int \<Rightarrow> crdt_server \<Rightarrow> crdt_server res" where
  "crdtReplicationHandleMasterDisconnection g s =
     on_peer g (\<lambda>p. p\<lparr>master := None, repl_state := REPL_STATE_CONNECT, repl_down_since := unixtime s\<rparr>) s"

text \<open>
  \<open>crdtReplicationCacheMaster\<close> is called on the peer's own client: it is unlinked (its socket closed),
  its buffers and unapplied offset are dropped, and the peer keeps it for a partial resynchronisation.
\<close>

definition reset_master_client :: "mclient \<Rightarrow> mclient" where
  "reset_master_client c =
     c\<lparr>mc_fd := - 1, mc_querybuf := [], mc_pending_querybuf := [], mc_read_reploff := mc_reploff c\<rparr>"

definition crdtReplicationCacheMaster :: "mclient \<Rightarrow> crdt_server \<Rightarrow> crdt_server res" where
  "crdtReplicationCacheMaster c s =
     (if mc_freed c then Inl UseAfterFree
      else if \<not> mc_crdt_master c then Inr s
      else
        bindE (getPeerMaster (mc_gid c) s) (\<lambda>m.
        case m of
          None \<Rightarrow> Inl NullDeref
        | Some p \<Rightarrow>
            crdtReplicationHandleMasterDisconnection (mc_gid c)
              (setPeerMaster (mc_gid c) (Some (p\<lparr>cached_master := map_option reset_master_client (master p)\<rparr>)) s)))"

text \<open>
  \<open>freeClient\<close> on the client of peer \<open>g\<close>: a flagged client is cached, or disconnected when it is being
  closed; a client without the flag is released and the peer's pointer left behind.
\<close>

definition freeMasterClient :: "int \<Rightarrow> crdt_server \<Rightarrow> crdt_server res" where
  "freeMasterClient g s =
     bindE (getPeerMaster g s) (\<lambda>m.
     case m of
       None \<Rightarrow> Inr s
     | Some p \<Rightarrow>
         (case master p of
            None \<Rightarrow> Inr s
          | Some c \<Rightarrow>
              if mc_freed c then Inl UseAfterFree
              else if mc_crdt_master c then
                if \<not> mc_closing c then crdtReplicationCacheMaster c s
                else crdtReplicationHandleMasterDisconnection (mc_gid c) s
              else Inr (setPeerMaster g (Some (p\<lparr>master := Some (c\<lparr>mc_freed := True\<rparr>)\<rparr>)) s)))"

definition crdtReplicationSetMaster :: "int \<Rightarrow> int \<Rightarrow> string \<Rightarrow> int \<Rightarrow> crdt_server \<Rightarrow> crdt_server res" where
  "crdtReplicationSetMaster mstime g ip port s =
     bindE (getPeerMaster g s) (\<lambda>m.
     bindE (case m of
              Some p \<Rightarrow> Inr (p, s)
            | None \<Rightarrow> createPeerMaster mstime None g s) (\<lambda>(p, s).
     let s = setPeerMaster g (Some (p\<lparr>masterhost := Some ip, masterport := port, lazy_time := NO_LAZY_TIME\<rparr>)) s
     in if iAmMaster s then
          bindE (freeMasterClient g s) (\<lambda>s.
          bindE (crdtCancelReplicationHandshake g s) (\<lambda>s.
          on_peer g (\<lambda>p. p\<lparr>repl_state := REPL_STATE_CONNECT, repl_down_since := 0\<rparr>) s))
        else Inr s))"

definition crdtReplicationUnsetMaster :: "int \<Rightarrow> crdt_server \<Rightarrow> crdt_server res" where
  "crdtReplicationUnsetMaster g s =
     bindE (getPeerMaster g s) (\<lambda>m.
     case m of
       None \<Rightarrow> Inr s
     | Some p \<Rightarrow>
         bindE (on_peer g (\<lambda>p. crdtReplicationDiscardCachedMaster (p\<lparr>masterhost := None\<rparr>)) s) (\<lambda>s.
         bindE (crdtCancelReplicationHandshake g s) (\<lambda>s.
         bindE (freePeerMaster g s) tryCleanCrdtServerLoading)))"

text \<open>The loops over all peers when the instance changes its role.\<close>

definition copy_client :: "mclient option \<Rightarrow> mclient \<Rightarrow> mclient" where
  "copy_client from c =
     (case from of
        None \<Rightarrow> c
      | Some d \<Rightarrow> c\<lparr>mc_db := mc_db d, mc_crdt_master := mc_crdt_master d, mc_closing := mc_closing d,
                    mc_reploff := mc_reploff d, mc_replid := mc_replid d\<rparr>)"

definition peer_reset_step :: "nat \<Rightarrow> crdt_server \<Rightarrow> crdt_server res" where
  "peer_reset_step i s =
     bindE (getPeerMaster (int i) s) (\<lambda>m.
     case m of
       None \<Rightarrow> Inr s
     | Some p \<Rightarrow>
         if (case master p of Some d \<Rightarrow> mc_freed d | None \<Rightarrow> False) then Inl UseAfterFree
         else
           let c = copy_client (cached_master p) (copy_client (master p) ((fake_client (unixtime s))\<lparr>mc_gid := int i\<rparr>))
           in bindE (on_peer (int i) crdtReplicationDiscardCachedMaster s) (\<lambda>s.
              bindE (if repl_state p = REPL_STATE_CONNECTED
                     then on_peer (int i) (\<lambda>p. p\<lparr>master := None\<rparr>) s
                     else crdtCancelReplicationHandshake (int i) s) (\<lambda>s.
              on_peer (int i) (\<lambda>p. p\<lparr>master := Some c, repl_state := REPL_STATE_NONE\<rparr>) s)))"

definition crdtReplicationAllPeersStateReset :: "crdt_server \<Rightarrow> crdt_server res" where
  "crdtReplicationAllPeersStateReset s = foldE peer_reset_step [0..<MAX_PEERS + 1] s"

definition cache_all_step :: "nat \<Rightarrow> crdt_server \<Rightarrow> crdt_server res" where
  "cache_all_step i s =
     bindE (getPeerMaster (int i) s) (\<lambda>m.
     case m of
       None \<Rightarrow> Inr s
     | Some p \<Rightarrow>
         bindE (case master p of
                  None \<Rightarrow> Inr s
                | Some c \<Rightarrow>
                    bindE (on_peer (int i) crdtReplicationDiscardCachedMaster s) (\<lambda>s.
                    crdtReplicationCacheMaster c s)) (\<lambda>s.
         on_peer (int i) (\<lambda>p. p\<lparr>repl_state := REPL_STATE_NONE\<rparr>) s))"

definition crdtReplicationCacheAllMaster :: "crdt_server \<Rightarrow> crdt_server res" where
  "crdtReplicationCacheAllMaster s = foldE cache_all_step [0..<MAX_PEERS + 1] s"

definition close_all_step :: "nat \<Rightarrow> crdt_server \<Rightarrow> crdt_server res" where
  "close_all_step i s =
     bindE (getPeerMaster (int i) s) (\<lambda>m.
     case m of
       None \<Rightarrow> Inr s
     | Some p \<Rightarrow>
         bindE (on_peer (int i) crdtReplicationDiscardCachedMaster s) (\<lambda>s.
         bindE (if repl_state p = REPL_STATE_CONNECTED then freeMasterClient (int i) s
                else crdtCancelReplicationHandshake (int i) s) (\<lambda>s.
         on_peer (int i) (\<lambda>p. p\<lparr>repl_state := REPL_STATE_NONE\<rparr>) s)))"

definition crdtReplicationCloseAllMasters :: "crdt_server \<Rightarrow> crdt_server res" where
  "crdtReplicationCloseAllMasters s = foldE close_all_step [0..<MAX_PEERS + 1] s"

subsection \<open>The PEEROF command\<close>

text \<open>
  The options after the address. The loop reads the word after an option without testing that there is
  one. \<^verbatim>\<open>backstream\<close> marks the server as loading at once, also when a later option is refused.
\<close>

fun peerof_opts ::
  "string list \<Rightarrow> string list \<Rightarrow> VectorClock \<times> proxy_type \<times> XpipeProxy option \<Rightarrow> crdt_server
   \<Rightarrow> ((reply + VectorClock \<times> proxy_type \<times> XpipeProxy option) \<times> crdt_server) res" where
  "peerof_opts argv [] acc s = Inr (Inr acc, s)"
| "peerof_opts argv (a # rest) (bvc, pt, px) s =
     (if strcaseeq a ''backstream'' then
        (case rest of
           [] \<Rightarrow> Inl OutOfBounds
         | v # rest \<Rightarrow>
             (case string2ll v of
                None \<Rightarrow> Inr (Inl (ReplyError ''value is not an integer or out of range''), s)
              | Some vcu \<Rightarrow>
                  bindE (addVectorClockUnit bvc (crdt_gid s) vcu) (\<lambda>bvc.
                  peerof_opts argv rest (bvc, pt, px) (s\<lparr>crdt_loading := True\<rparr>))))
      else if strcaseeq a ''proxy-type'' then
        (case rest of
           [] \<Rightarrow> Inl OutOfBounds
         | t # rest \<Rightarrow>
             if getProxyType t = NONE_PROXY then Inr (Inl (ReplyError ''proxy unknow type''), s)
             else
               bindE (parseProxyByRobjArray (getProxyType t) argv) (\<lambda>px.
               case px of
                 None \<Rightarrow> Inr (Inl (ReplyError ''proxy params error''), s)
               | Some x \<Rightarrow> peerof_opts argv rest (bvc, getProxyType t, Some x) s))
      else peerof_opts argv rest (bvc, pt, px) s)"

text \<open>
  What the command does about the connection it already has to this address: \<open>Inl\<close> is an early
  return with its reply, \<open>Inr\<close> the proxy with which the command goes on.
\<close>

definition peerof_same ::
  "CRDT_Master_Instance option \<Rightarrow> string \<Rightarrow> int \<Rightarrow> VectorClock \<times> proxy_type \<times> XpipeProxy option \<Rightarrow> int
   \<Rightarrow> crdt_server \<Rightarrow> ((reply \<times> crdt_server) + XpipeProxy option) res" where
  "peerof_same m ip port = (\<lambda>(bvc, pt, px) g s.
     case m of
       None \<Rightarrow> Inr (Inr px)
     | Some p \<Rightarrow>
         (case masterhost p of
            None \<Rightarrow> Inl NullDeref
          | Some host \<Rightarrow>
              if \<not> (strcaseeq host ip \<and> masterport p = port) then Inr (Inr px)
              else
                bindE (if pt = pm_proxy_type p \<and> repl_state p = REPL_STATE_CONNECTED
                       then proxyIsKeepConnected pt (pm_proxy p) px else Inr (False, px)) (\<lambda>(keep, px).
                if keep then
                  Inr (Inl (ReplyOk, (setPeerMaster g (Some (p\<lparr>pm_proxy := px\<rparr>)) s)\<lparr>dirty := dirty s + 1\<rparr>))
                else
                  bindE (if VectorClockEqual (backstream_vc p) bvc \<and> pt = pm_proxy_type p
                         then eqProxy pt px (pm_proxy p) else Inr False) (\<lambda>same.
                  if \<not> same then Inr (Inr px)
                  else if lazy_time p \<noteq> NO_LAZY_TIME
                  then Inr (Inl (ReplyStatus ''OK Clean lazy_time'',
                             setPeerMaster g (Some (p\<lparr>lazy_time := NO_LAZY_TIME\<rparr>)) s))
                  else Inr (Inl (ReplyStatus ''OK Already connected to specified master'', s))))))"

text \<open>The new address takes effect; a configuration file that cannot be rewritten undoes it.\<close>

definition peerof_commit ::
  "int \<Rightarrow> string option \<Rightarrow> int \<Rightarrow> string \<Rightarrow> int \<Rightarrow> VectorClock \<times> proxy_type \<times> XpipeProxy option \<Rightarrow> crdt_server
   \<Rightarrow> (reply \<times> crdt_server) res" where
  "peerof_commit mstime rewrite_error g ip port = (\<lambda>(bvc, pt, px) s.
     bindE (crdtReplicationSetMaster mstime g ip (to_int32 port) s) (\<lambda>s.
     bindE (on_peer g (\<lambda>p.
       (if \<not> isNullVectorClock bvc then p\<lparr>backstream_vc := bvc\<rparr> else p)\<lparr>pm_proxy_type := pt, pm_proxy := px\<rparr>) s) (\<lambda>s.
     case rewrite_error of
       Some err \<Rightarrow>
         bindE (crdtReplicationUnsetMaster g s) (\<lambda>s. Inr (ReplyError (''Rewriting config file: '' @ err), s))
     | None \<Rightarrow> bindE (addPeerSet g s) (\<lambda>s. Inr (ReplyOk, s\<lparr>dirty := dirty s + 1\<rparr>)))))"

text \<open>The gid is a \<^verbatim>\<open>long long\<close> that is converted to \<^verbatim>\<open>int\<close> wherever it is passed on.\<close>

definition peerofCommand ::
  "int \<Rightarrow> string option \<Rightarrow> string list \<Rightarrow> crdt_server \<Rightarrow> (reply \<times> crdt_server) res" where
  "peerofCommand mstime rewrite_error argv s =
     (let notint = ReplyError ''value is not an integer or out of range''
      in if cluster_enabled s then Inr (ReplyError ''PEEROF not allowed in cluster mode.'', s)
         else if length argv < 4 then Inl OutOfBounds
         else
           case string2ll (argv ! 1) of
             None \<Rightarrow> Inr (notint, s)
           | Some gid \<Rightarrow>
               let g = to_int32 gid
               in if gid = crdt_gid s then Inr (ReplyError ''invalid gid'', s)
                  else if strcaseeq (argv ! 2) ''no'' \<and> strcaseeq (argv ! 3) ''one'' then
                    bindE (crdtReplicationUnsetMaster g s) (\<lambda>s. Inr (ReplyOk, s\<lparr>dirty := dirty s + 1\<rparr>))
                  else
                    case string2ll (argv ! 3) of
                      None \<Rightarrow> Inr (notint, s)
                    | Some port \<Rightarrow>
                        bindE (peerof_opts argv (drop 4 argv) ([], NONE_PROXY, None) s) (\<lambda>(r, s).
                        case r of
                          Inl reply \<Rightarrow> Inr (reply, s)
                        | Inr (bvc, pt, px) \<Rightarrow>
                            bindE (getPeerMaster g s) (\<lambda>m.
                            bindE (peerof_same m (argv ! 2) port (bvc, pt, px) g s) (\<lambda>r.
                            case r of
                              Inl done \<Rightarrow> Inr done
                            | Inr px \<Rightarrow> peerof_commit mstime rewrite_error g (argv ! 2) port (bvc, pt, px) s))))"

subsection \<open>Merging a peer's snapshot\<close>

text \<open>
  \<open>merge_err\<close> is the error exit of both commands: an instance that is its own master cancels the
  handshake of the gid it read, a replica frees the client. \<open>r\<close> is what was replied before.
\<close>

definition merge_err :: "reply \<Rightarrow> int \<Rightarrow> crdt_server \<Rightarrow> (reply \<times> crdt_server) res" where
  "merge_err r sourceGid s =
     (if iAmMaster s
      then bindE (crdtCancelReplicationHandshake (to_int32 sourceGid) s) (\<lambda>s. Inr (r, s))
      else Inr (ClientFreed, s))"

definition merge_start_peer :: "CRDT_Master_Instance \<Rightarrow> crdt_server \<Rightarrow> CRDT_Master_Instance res" where
  "merge_start_peer p s =
     (let p = p\<lparr>cached_master := None\<rparr>
      in if \<not> iAmMaster s then
           (if (case master p of Some c \<Rightarrow> mc_freed c | None \<Rightarrow> False) then Inl UseAfterFree
            else Inr (crdtReplicationCreateMasterClient (p\<lparr>master := None\<rparr>) (fake_client (unixtime s)) (- 1)))
         else Inr (p\<lparr>repl_transfer_lastio := unixtime s\<rparr>))"

definition merge_start_clocks :: "int \<Rightarrow> string \<Rightarrow> crdt_server \<Rightarrow> (reply \<times> crdt_server) res" where
  "merge_start_clocks g text s =
     bindE (sdsToVectorClock text) (\<lambda>vclock.
     bindE (vectorClockMerge (gcVectorClock s) vclock) (\<lambda>(gc, _, _).
     bindE (if isNullVectorClockUnit (getVectorClockUnit (vectorClock s) g)
            then addVectorClockUnit (vectorClock s) g 0 else Inr (vectorClock s)) (\<lambda>vc.
     Inr (NoReply, s\<lparr>gcVectorClock := gc, vectorClock := vc, dirty := dirty s + 1\<rparr>))))"

definition crdtMergeStartCommand :: "string list \<Rightarrow> crdt_server \<Rightarrow> (reply \<times> crdt_server) res" where
  "crdtMergeStartCommand argv s =
     (if length argv < 3 then Inl OutOfBounds
      else
        case string2ll (argv ! 1) of
          None \<Rightarrow> merge_err (ReplyError ''value is not an integer or out of range'') (- 1) s
        | Some g \<Rightarrow>
            if \<not> check_gid g then merge_err NoReply g s
            else
              bindE (getPeerMaster g s) (\<lambda>m.
              case m of
                None \<Rightarrow> Inl NullDeref
              | Some p \<Rightarrow>
                  bindE (merge_start_peer p s) (\<lambda>p.
                  merge_start_clocks g (argv ! 2) (setPeerMaster g (Some p) s))))"

text \<open>\<^verbatim>\<open>memcpy(replid, p, sdslen(p))\<close> into an array of 41 bytes.\<close>

definition memcpy_replid :: "string \<Rightarrow> string \<Rightarrow> string res" where
  "memcpy_replid old new =
     (if REPLID_BYTES < length new then Inl OutOfBounds else Inr (new @ drop (length new) old))"

definition merge_end_clocks :: "int \<Rightarrow> string \<Rightarrow> CRDT_Master_Instance \<Rightarrow> crdt_server \<Rightarrow> crdt_server res" where
  "merge_end_clocks g text p s =
     bindE (sdsToVectorClock text) (\<lambda>pvc.
     bindE (mergeLogicClock (vectorClock s) pvc g) (\<lambda>vc.
     bindE (mergeMinVectorClock (gcVectorClock s) pvc) (\<lambda>(gc, _, pvc).
     Inr ((setPeerMaster g (Some (p\<lparr>pm_vectorClock := pvc\<rparr>)) s)\<lparr>vectorClock := vc, gcVectorClock := gc\<rparr>))))"

definition merge_end_link ::
  "string \<Rightarrow> int \<Rightarrow> CRDT_Master_Instance \<Rightarrow> CRDT_Master_Instance res" where
  "merge_end_link rid offset p =
     (case master p of
        None \<Rightarrow> Inl NullDeref
      | Some c \<Rightarrow>
          if mc_freed c then Inl UseAfterFree
          else
            bindE (memcpy_replid (mc_replid c) rid) (\<lambda>crid.
            bindE (memcpy_replid (master_replid p) rid) (\<lambda>mrid.
            Inr (p\<lparr>master := Some (c\<lparr>mc_replid := crid, mc_reploff := offset, mc_read_reploff := offset\<rparr>),
                   master_replid := mrid\<rparr>))))"

text \<open>
  After a backstream the own clock must be ahead of everything the peer has seen of it: when it is
  behind, it is moved to the peer's value and then jumps.
\<close>

definition merge_end_backstream :: "int \<Rightarrow> int \<Rightarrow> crdt_server \<Rightarrow> crdt_server res" where
  "merge_end_backstream qps g s =
     bindE (getPeerMaster g s) (\<lambda>m.
     case m of
       None \<Rightarrow> Inl NullDeref
     | Some p \<Rightarrow>
         if isNullVectorClock (backstream_vc p) then Inr s
         else
           let s = setPeerMaster g (Some (p\<lparr>backstream_vc := []\<rparr>)) s;
               process_vcu = get_logic_clock (getVectorClockUnit (vectorClock s) (crdt_gid s));
               backstream_vcu = get_logic_clock (getVectorClockUnit (pm_vectorClock p) (crdt_gid s));
               s = (if process_vcu < backstream_vcu
                    then jumpVectorClock qps (incrLocalVcUnit (backstream_vcu - process_vcu) s) else s)
           in tryCleanCrdtServerLoading s)"

text \<open>\<open>cgid\<close> is the gid of the client that sent the command; the result includes the commands queued for the peer.\<close>

definition merge_end_ack :: "int \<Rightarrow> int \<Rightarrow> crdt_server \<Rightarrow> (string list list \<times> crdt_server) res" where
  "merge_end_ack cgid g s =
     (if iAmMaster s then
        bindE (getPeerMaster cgid s) (\<lambda>cm.
        bindE (crdtReplicationSendAck cm s) (\<lambda>acks.
        bindE (on_peer g (\<lambda>p. p\<lparr>repl_state := REPL_STATE_CONNECTED, repl_transfer_lastio := unixtime s\<rparr>) s) (\<lambda>s.
        Inr (acks, s))))
      else Inr ([], s))"

definition merge_end_finish ::
  "int \<Rightarrow> int \<Rightarrow> int \<Rightarrow> string \<Rightarrow> int \<Rightarrow> crdt_server \<Rightarrow> (reply \<times> string list list \<times> crdt_server) res" where
  "merge_end_finish qps cgid g rid offset s =
     bindE (getPeerMaster g s) (\<lambda>m.
     bindE (case m of None \<Rightarrow> Inl NullDeref | Some p \<Rightarrow> merge_end_link rid offset p) (\<lambda>p.
     bindE (merge_end_backstream qps g (setPeerMaster g (Some p) s)) (\<lambda>s.
     bindE (merge_end_ack cgid g s) (\<lambda>(acks, s).
     Inr (NoReply, acks, s\<lparr>dirty := dirty s + 1\<rparr>)))))"

definition crdtMergeEndCommand ::
  "int \<Rightarrow> int \<Rightarrow> string list \<Rightarrow> crdt_server \<Rightarrow> (reply \<times> string list list \<times> crdt_server) res" where
  "crdtMergeEndCommand qps cgid argv s =
     (let err = (\<lambda>r g. bindE (merge_err r g s) (\<lambda>(r, s). Inr (r, [], s)))
      in if length argv < 5 then Inl OutOfBounds
         else
           case string2ll (argv ! 1) of
             None \<Rightarrow> err (ReplyError ''value is not an integer or out of range'') (- 1)
           | Some g \<Rightarrow>
               if \<not> check_gid g then err NoReply g
               else
                 bindE (getPeerMaster g s) (\<lambda>m.
                 case m of
                   None \<Rightarrow> err NoReply g
                 | Some p \<Rightarrow>
                     bindE (merge_end_clocks g (argv ! 2) p s) (\<lambda>s.
                     case string2ll (argv ! 4) of
                       None \<Rightarrow> Inr (ReplyError ''value is not an integer or out of range'', [], s)
                     | Some offset \<Rightarrow> merge_end_finish qps cgid g (argv ! 3) offset s)))"

definition peerChangeCommand :: "string list \<Rightarrow> crdt_server \<Rightarrow> (reply \<times> crdt_server) res" where
  "peerChangeCommand argv s =
     (if length argv < 3 then Inl OutOfBounds
      else
        case string2ll (argv ! 1) of
          None \<Rightarrow> Inr (ReplyError ''invalid gid'', s)
        | Some g \<Rightarrow>
            if \<not> check_gid g then Inr (NoReply, s)
            else
              bindE (getPeerMaster g s) (\<lambda>m.
              case m of
                None \<Rightarrow> Inl NullDeref
              | Some p \<Rightarrow>
                  (case master p of
                     None \<Rightarrow> Inl NullDeref
                   | Some c \<Rightarrow>
                       if mc_freed c then Inl UseAfterFree
                       else
                         bindE (memcpy_replid (mc_replid c) (argv ! 2)) (\<lambda>crid.
                         bindE (memcpy_replid (master_replid p) (argv ! 2)) (\<lambda>mrid.
                         Inr (ReplyOk, (setPeerMaster g (Some (p\<lparr>master := Some (c\<lparr>mc_replid := crid\<rparr>),
                                master_replid := mrid\<rparr>)) s)\<lparr>dirty := dirty s + 1\<rparr>))))))"

subsection \<open>Authentication and clock queries\<close>

definition crdtAuthGidCommand :: "string list \<Rightarrow> crdt_server \<Rightarrow> bool \<times> reply" where
  "crdtAuthGidCommand argv s =
     (if length argv \<noteq> 2 then (False, ReplyError ''syntax error'')
      else
        case string2ll (argv ! 1) of
          None \<Rightarrow> (False, ReplyError ''syntax error'')
        | Some g \<Rightarrow> if g \<noteq> crdt_gid s then (False, ReplyError ''invalid gid'') else (True, ReplyOk))"

definition crdtAuthCommand :: "string list \<Rightarrow> crdt_server \<Rightarrow> reply" where
  "crdtAuthCommand argv s =
     (if length argv \<noteq> 3 then ReplyError ''syntax error''
      else if \<not> strcaseeq (crdt_namespace s) (argv ! 1) then ReplyError ''invalid namespace''
      else
        case string2ll (argv ! 2) of
          None \<Rightarrow> ReplyError ''syntax error''
        | Some g \<Rightarrow> if g \<noteq> crdt_gid s then ReplyError ''invalid gid'' else ReplyOk)"

definition crdtVcCommand :: "crdt_server \<Rightarrow> reply" where
  "crdtVcCommand s = ReplyBulk (vectorClockToSds (vectorClock s))"

subsection \<open>Restart\<close>

text \<open>A database is given by the sizes of its two dictionaries.\<close>

definition isNullDb :: "(nat \<times> nat) list \<Rightarrow> bool" where
  "isNullDb dbs = list_all (\<lambda>(keys, deleted). keys = 0 \<and> deleted = 0) dbs"

definition get_min_backstream_vcu :: "crdt_server \<Rightarrow> int res" where
  "get_min_backstream_vcu s =
     bindE (foldE (\<lambda>i mn.
       bindE (getPeerMaster (int i) s) (\<lambda>m.
       case m of
         None \<Rightarrow> Inr mn
       | Some p \<Rightarrow>
           if isNullVectorClock (backstream_vc p) then Inr mn
           else let vcu = fst (get_vcu_from_vc (backstream_vc p) (crdt_gid s))
                in Inr (if vcu < mn then vcu else mn))) [0..<16] LLONG_MAX) (\<lambda>mn.
     Inr (if mn \<noteq> LLONG_MAX then mn else - 1))"

definition lazyPeerof :: "int \<Rightarrow> int \<Rightarrow> crdt_server \<Rightarrow> crdt_server res" where
  "lazyPeerof current_time restart_lazy_peerof_time s =
     foldE (\<lambda>i. on_peer (int i) (\<lambda>p. p\<lparr>lazy_time := current_time + restart_lazy_peerof_time\<rparr>)) [0..<16] s"

definition clean_backstream_step :: "nat \<Rightarrow> crdt_server \<Rightarrow> crdt_server res" where
  "clean_backstream_step i =
     on_peer (int i) (\<lambda>p. if \<not> isNullVectorClock (backstream_vc p) then p\<lparr>backstream_vc := []\<rparr> else p)"

definition cleanSlavePeerBackStream :: "crdt_server \<Rightarrow> crdt_server res" where
  "cleanSlavePeerBackStream s =
     bindE (foldE clean_backstream_step [0..<16] s) (\<lambda>s. Inr (s\<lparr>crdt_loading := False\<rparr>))"

text \<open>
  \<open>peerBackStream\<close> asks every peer for this instance's time in its clock: \<open>ask i\<close> is the answer of
  \<open>getSelfVcuFromPeer\<close> for peer \<open>i\<close>, -1 when it cannot be reached. The result is the return value and whether
  the databases were emptied (and the replication id renewed).
\<close>

definition set_backstream :: "int \<Rightarrow> CRDT_Master_Instance \<Rightarrow> int \<Rightarrow> crdt_server \<Rightarrow> crdt_server res" where
  "set_backstream g p t s =
     bindE (addVectorClockUnit (backstream_vc p) (crdt_gid s) t) (\<lambda>vc.
     Inr (setPeerMaster g (Some (p\<lparr>backstream_vc := vc\<rparr>)) s))"

definition ask_step ::
  "(nat \<Rightarrow> int) \<Rightarrow> nat \<Rightarrow> int \<times> int \<times> bool \<times> crdt_server \<Rightarrow> (int \<times> int \<times> bool \<times> crdt_server) res" where
  "ask_step ask i = (\<lambda>(max_vcu, max_gid, loading, s).
     bindE (getPeerMaster (int i) s) (\<lambda>m.
     case m of
       None \<Rightarrow> Inr (max_vcu, max_gid, loading, s)
     | Some p \<Rightarrow>
         if ask i = - 1 then
           bindE (set_backstream (int i) p 0 s) (\<lambda>s. Inr (max_vcu, max_gid, True, s))
         else if max_vcu < ask i then Inr (ask i, int i, True, s)
         else Inr (max_vcu, max_gid, True, s)))"

definition assign_step :: "int \<Rightarrow> int \<Rightarrow> nat \<Rightarrow> crdt_server \<Rightarrow> crdt_server res" where
  "assign_step max_vcu max_gid i s =
     bindE (getPeerMaster (int i) s) (\<lambda>m.
     case m of
       None \<Rightarrow> Inr s
     | Some p \<Rightarrow>
         if int i = max_gid then set_backstream (int i) p 0 s
         else if isNullVectorClock (backstream_vc p) then set_backstream (int i) p max_vcu s
         else Inr s)"

definition peerBackStream ::
  "(nat \<Rightarrow> int) \<Rightarrow> (nat \<times> nat) list \<Rightarrow> crdt_server \<Rightarrow> (bool \<times> bool \<times> crdt_server) res" where
  "peerBackStream ask dbs s =
     bindE (foldE (ask_step ask) [0..<16] (- 1, - 1, False, s)) (\<lambda>(max_vcu, max_gid, loading, s).
     let has_data = (\<not> isNullDb dbs \<and> iAmMaster s);
         process_vcu = get_logic_clock (getVectorClockUnit (vectorClock s) (crdt_gid s))
     in if has_data \<and> max_vcu \<le> process_vcu
        then bindE (cleanSlavePeerBackStream s) (\<lambda>s. Inr (False, False, s))
        else
          let s = (if has_data then s\<lparr>vectorClock := resetVectorClock (vectorClock s),
                                      gcVectorClock := resetVectorClock (gcVectorClock s)\<rparr> else s);
              s = s\<lparr>crdt_loading := loading\<rparr>
          in if max_gid = - 1 then Inr (loading, has_data, s)
             else
               bindE (foldE (assign_step max_vcu max_gid) [0..<16] s) (\<lambda>s.
               Inr (loading, has_data, s)))"

text \<open>What is saved with a snapshot; none without a backlog. \<open>slaveseldb\<close> and the offset are those of the peer stream.\<close>

record crdtRdbSaveInfo =
  rsi_repl_stream_db :: int
  rsi_repl_offset :: int
  rsi_repl_id_is_set :: bool
  rsi_repl_id :: string
  rsi_logic_time :: int
  rsi_backstreaming :: bool
  rsi_min_vc :: VectorClock

definition crdtRdbPopulateSaveInfo :: "bool \<Rightarrow> int \<Rightarrow> int \<Rightarrow> string \<Rightarrow> int \<Rightarrow> crdtRdbSaveInfo option" where
  "crdtRdbPopulateSaveInfo backlog seldb offset rid min_logic_time =
     (if backlog
      then Some \<lparr>rsi_repl_stream_db = (if seldb = - 1 then 0 else seldb), rsi_repl_offset = offset,
                 rsi_repl_id_is_set = False, rsi_repl_id = take 40 rid, rsi_logic_time = min_logic_time,
                 rsi_backstreaming = False, rsi_min_vc = []\<rparr>
      else None)"

definition crdtRdbPopulateSaveInfo2 ::
  "bool \<Rightarrow> int \<Rightarrow> int \<Rightarrow> string \<Rightarrow> VectorClock \<Rightarrow> crdtRdbSaveInfo option" where
  "crdtRdbPopulateSaveInfo2 backlog seldb offset rid min_vc =
     (if backlog
      then Some \<lparr>rsi_repl_stream_db = (if seldb = - 1 then 0 else seldb), rsi_repl_offset = offset,
                 rsi_repl_id_is_set = False, rsi_repl_id = take 40 rid, rsi_logic_time = 0,
                 rsi_backstreaming = False, rsi_min_vc = min_vc\<rparr>
      else None)"

end
