(* ===== verification/Crdt_Peer_Inv.thy ===== *)
theory Crdt_Peer_Inv
  imports Crdt_Peer
begin

section \<open>The invariant of the peer table\<close>

text \<open>
  Every operation on peers, whatever it is called with, leaves a well-formed table: each peer sits at
  the index of its gid, its clocks have one unit per gid, its client (and the client kept for a partial
  resynchronisation) is flagged, belongs to it and was not released, the kept client is clean, and a
  connected peer has a client. The operations are the rules of the relation \<open>peer_step\<close>; the proof is
  one lemma per operation in the style of a Hoare logic (\<open>postE\<close>).
\<close>

subsection \<open>Postconditions\<close>

definition postE :: "'a res \<Rightarrow> ('a \<Rightarrow> bool) \<Rightarrow> bool" where
  "postE m P \<longleftrightarrow> (\<forall>x. m = Inr x \<longrightarrow> P x)"

named_theorems post_rules \<open>postconditions of the operations\<close>

lemma postE_Inr [simp]: "postE (Inr x) P \<longleftrightarrow> P x"
  by (simp add: postE_def)

lemma postE_Inl [simp]: "postE (Inl e) P"
  by (simp add: postE_def)

lemma postE_bind: "postE m Q \<Longrightarrow> (\<And>x. Q x \<Longrightarrow> postE (f x) P) \<Longrightarrow> postE (bindE m f) P"
  by (cases m) (simp_all add: postE_def)

lemma postE_bind_eq: "(\<And>x. m = Inr x \<Longrightarrow> postE (f x) P) \<Longrightarrow> postE (bindE m f) P"
  by (cases m) (simp_all add: postE_def)

lemma postE_mono: "postE m Q \<Longrightarrow> (\<And>x. Q x \<Longrightarrow> P x) \<Longrightarrow> postE m P"
  by (simp add: postE_def)

lemma postE_D: "postE m P \<Longrightarrow> m = Inr x \<Longrightarrow> P x"
  by (simp add: postE_def)

lemma postE_fold:
  assumes "\<And>x s. x \<in> set xs \<Longrightarrow> P s \<Longrightarrow> postE (f x s) P" and "P s"
  shows "postE (foldE f xs s) P"
  using assms
proof (induction xs arbitrary: s)
  case Nil
  then show ?case by simp
next
  case (Cons x xs)
  have "postE (f x s) P" using Cons.prems by simp
  then show ?case using Cons.IH Cons.prems(1) by (auto intro!: postE_bind)
qed

subsection \<open>The invariant\<close>

definition link_ok :: "int \<Rightarrow> mclient \<Rightarrow> bool" where
  "link_ok g c \<longleftrightarrow> mc_gid c = g \<and> mc_crdt_master c \<and> \<not> mc_freed c"

text \<open>\<open>X\<close> are the gids whose peer may be without an address: none between operations.\<close>

definition peer_ok :: "int set \<Rightarrow> int \<Rightarrow> CRDT_Master_Instance \<Rightarrow> bool" where
  "peer_ok X g p \<longleftrightarrow> pm_gid p = g \<and> (g \<in> X \<or> masterhost p \<noteq> None)
     \<and> vc_wf (pm_vectorClock p) \<and> vc_wf (backstream_vc p)
     \<and> pred_option (link_ok g) (master p)
     \<and> pred_option (\<lambda>c. link_ok g c \<and> reset_master_client c = c) (cached_master p)
     \<and> (repl_state p = REPL_STATE_CONNECTED \<longrightarrow> master p \<noteq> None)"

definition peers_inv :: "int set \<Rightarrow> crdt_server \<Rightarrow> bool" where
  "peers_inv X s \<longleftrightarrow> clocks_wf s \<and> length (crdtMasters s) = 16
     \<and> (\<forall>i < 16. pred_option (peer_ok X (int i)) (crdtMasters s ! i))"

lemma pred_option_iff: "pred_option P m \<longleftrightarrow> (\<forall>x. m = Some x \<longrightarrow> P x)"
  by (cases m) simp_all

lemma peers_invD: "peers_inv X s \<Longrightarrow> clocks_wf s" "peers_inv X s \<Longrightarrow> length (crdtMasters s) = 16"
  by (simp_all add: peers_inv_def)

lemma peers_inv_peers_wf: "peers_inv X s \<Longrightarrow> peers_wf s"
  by (auto simp: peers_inv_def peers_wf_def pred_option_iff peer_ok_def)

lemma reset_master_client_idem [simp]: "reset_master_client (reset_master_client c) = reset_master_client c"
  by (simp add: reset_master_client_def)

lemma link_ok_reset [simp]: "link_ok g (reset_master_client c) = link_ok g c"
  by (simp add: link_ok_def reset_master_client_def)

lemma getPeerMaster_post:
  "peers_inv X s \<Longrightarrow> postE (getPeerMaster g s)
     (\<lambda>m. 0 \<le> g \<and> g < 16 \<and> m = crdtMasters s ! nat g \<and> pred_option (peer_ok X g) m)"
  unfolding getPeerMaster_def peers_inv_def by (auto simp: postE_def dest: spec [of _ "nat g"])

lemma setPeerMaster_inv:
  assumes "peers_inv X s" and "0 \<le> g" and "pred_option (peer_ok X g) m"
  shows "peers_inv X (setPeerMaster g m s)"
proof -
  have "pred_option (peer_ok X (int i)) ((crdtMasters s)[nat g := m] ! i)" if "i < 16" for i
    using assms that by (cases "i = nat g") (simp_all add: peers_inv_def)
  with assms(1) show ?thesis by (simp add: peers_inv_def setPeerMaster_def clocks_wf_def)
qed

lemma peers_inv_fields [simp]:
  "peers_inv X (s\<lparr>dirty := d\<rparr>) = peers_inv X s" "peers_inv X (s\<lparr>crdt_loading := b\<rparr>) = peers_inv X s"
  "peers_inv X (s\<lparr>peer_set := w\<rparr>) = peers_inv X s"
  by (simp_all add: peers_inv_def clocks_wf_def)

text \<open>One rule for every operation that looks a peer up and goes on with it.\<close>

lemma peer_post:
  assumes "peers_inv X s" and "0 \<le> g \<Longrightarrow> g < 16 \<Longrightarrow> crdtMasters s ! nat g = None \<Longrightarrow> postE (f None) P"
    and "\<And>p. 0 \<le> g \<Longrightarrow> g < 16 \<Longrightarrow> crdtMasters s ! nat g = Some p \<Longrightarrow> peer_ok X g p \<Longrightarrow> postE (f (Some p)) P"
  shows "postE (bindE (getPeerMaster g s) f) P"
  using postE_bind [OF getPeerMaster_post [OF assms(1), of g], of f P] assms(2,3)
  by (metis not_None_eq option.pred_inject(2))

lemma on_peer_inv:
  assumes "peers_inv X s" and "\<And>p. peer_ok X g p \<Longrightarrow> peer_ok X g (f p)"
  shows "postE (on_peer g f s) (peers_inv X)"
  unfolding on_peer_def
  by (rule peer_post [OF assms(1)]) (auto intro!: setPeerMaster_inv assms)

subsection \<open>The operations keep it\<close>

lemma addPeerSet_inv: "peers_inv X s \<Longrightarrow> postE (addPeerSet g s) (peers_inv X)"
  unfolding addPeerSet_def by (auto intro!: postE_bind_eq)

lemma clean_loading_loop_inv: "peers_inv X s \<Longrightarrow> postE (clean_loading_loop is s) (peers_inv X)"
  by (induction "is") (auto intro!: peer_post [of X s])

lemma tryCleanCrdtServerLoading_inv: "peers_inv X s \<Longrightarrow> postE (tryCleanCrdtServerLoading s) (peers_inv X)"
  unfolding tryCleanCrdtServerLoading_def by (rule clean_loading_loop_inv)

lemma peer_ok_discard: "peer_ok X g p \<Longrightarrow> peer_ok X g (crdtReplicationDiscardCachedMaster p)"
  by (auto simp: peer_ok_def crdtReplicationDiscardCachedMaster_def)

lemma crdtCancelReplicationHandshake_inv:
  "peers_inv X s \<Longrightarrow> postE (crdtCancelReplicationHandshake g s) (peers_inv X)"
  unfolding crdtCancelReplicationHandshake_def
  by (rule peer_post)
     (auto intro!: postE_bind_eq setPeerMaster_inv simp: crdtReplicationAbortSyncTransfer_def assertE_def
        crdtUndoConnectWithMaster_def peer_ok_def Let_def split: option.splits if_splits)

lemma disconnection_inv: "peers_inv X s \<Longrightarrow> postE (crdtReplicationHandleMasterDisconnection g s) (peers_inv X)"
  unfolding crdtReplicationHandleMasterDisconnection_def by (rule on_peer_inv) (auto simp: peer_ok_def)

lemma crdtReplicationCacheMaster_inv: "peers_inv X s \<Longrightarrow> postE (crdtReplicationCacheMaster c s) (peers_inv X)"
  unfolding crdtReplicationCacheMaster_def
  by (auto intro!: peer_post [of X s] disconnection_inv setPeerMaster_inv simp: peer_ok_def pred_option_iff)

lemma freeMasterClient_inv: "peers_inv X s \<Longrightarrow> postE (freeMasterClient g s) (peers_inv X)"
  unfolding freeMasterClient_def
  by (rule peer_post)
     (auto intro!: crdtReplicationCacheMaster_inv disconnection_inv simp: peer_ok_def link_ok_def split: option.splits)

text \<open>Removing a peer ends with an empty slot, so its address may be dropped first.\<close>

lemma peers_inv_weaken: "peers_inv X s \<Longrightarrow> X \<subseteq> Y \<Longrightarrow> peers_inv Y s"
  by (auto simp: peers_inv_def pred_option_iff peer_ok_def)

lemma peers_inv_cleared:
  assumes "peers_inv (insert g X) s" and "0 \<le> g"
  shows "peers_inv X (setPeerMaster g None s)"
proof -
  have "pred_option (peer_ok X (int i)) ((crdtMasters s)[nat g := None] ! i)" if "i < 16" for i
  proof (cases "i = nat g")
    case True
    with assms that show ?thesis by (simp add: peers_inv_def)
  next
    case False
    with assms(2) have "int i \<noteq> g" by auto
    then have "peer_ok (insert g X) (int i) p \<Longrightarrow> peer_ok X (int i) p" for p by (simp add: peer_ok_def)
    with assms that False show ?thesis by (simp add: peers_inv_def pred_option_iff)
  qed
  with assms(1) show ?thesis by (simp add: peers_inv_def setPeerMaster_def clocks_wf_def)
qed

lemma freePeerMaster_inv:
  "peers_inv (insert g X) s \<Longrightarrow> crdtMasters s ! nat g \<noteq> None \<Longrightarrow> postE (freePeerMaster g s) (peers_inv X)"
  unfolding freePeerMaster_def
  by (rule peer_post) (auto intro!: peers_inv_cleared simp: peer_ok_def split: option.splits)

lemma setPeerMaster_slot:
  "length (crdtMasters s) = 16 \<Longrightarrow> 0 \<le> g \<Longrightarrow> g < 16
   \<Longrightarrow> crdtMasters (setPeerMaster g m s) ! i = (if i = nat g then m else crdtMasters s ! i)"
  by (simp add: setPeerMaster_def nth_list_update)

lemma crdtCancel_keeps_peer:
  "peers_inv X s \<Longrightarrow> postE (crdtCancelReplicationHandshake g s)
     (\<lambda>s'. crdtMasters s' ! i = None \<longleftrightarrow> crdtMasters s ! i = None)"
  unfolding crdtCancelReplicationHandshake_def
  by (rule peer_post) (auto intro!: postE_bind_eq dest!: peers_invD(2) simp: setPeerMaster_slot split: if_splits)

lemma postE_conj: "postE m P \<Longrightarrow> postE m Q \<Longrightarrow> postE m (\<lambda>x. P x \<and> Q x)"
  by (simp add: postE_def)

lemma drop_host_inv:
  assumes "peers_inv X s" and "crdtMasters s ! nat g = Some p"
  shows "postE (on_peer g (\<lambda>p. crdtReplicationDiscardCachedMaster (p\<lparr>masterhost := None\<rparr>)) s)
     (\<lambda>s. peers_inv (insert g X) s \<and> crdtMasters s ! nat g \<noteq> None)"
proof (rule postE_conj)
  show "postE (on_peer g (\<lambda>p. crdtReplicationDiscardCachedMaster (p\<lparr>masterhost := None\<rparr>)) s)
      (peers_inv (insert g X))"
    by (rule on_peer_inv)
       (use assms(1) in \<open>auto intro: peers_inv_weaken simp: peer_ok_def crdtReplicationDiscardCachedMaster_def\<close>)
  show "postE (on_peer g (\<lambda>p. crdtReplicationDiscardCachedMaster (p\<lparr>masterhost := None\<rparr>)) s)
      (\<lambda>s. crdtMasters s ! nat g \<noteq> None)"
    unfolding on_peer_def
    by (rule peer_post [OF assms(1)])
       (use assms in \<open>auto simp: setPeerMaster_slot dest!: peers_invD(2)\<close>)
qed

lemma crdtReplicationUnsetMaster_inv:
  assumes "peers_inv X s"
  shows "postE (crdtReplicationUnsetMaster g s) (peers_inv X)"
  unfolding crdtReplicationUnsetMaster_def
proof (rule peer_post [OF assms])
  fix p
  assume p: "crdtMasters s ! nat g = Some p"
  have "postE (crdtCancelReplicationHandshake g s1)
      (\<lambda>s. peers_inv (insert g X) s \<and> crdtMasters s ! nat g \<noteq> None)"
    if "peers_inv (insert g X) s1 \<and> crdtMasters s1 ! nat g \<noteq> None" for s1
    using that crdtCancelReplicationHandshake_inv [of "insert g X" s1 g]
      crdtCancel_keeps_peer [of "insert g X" s1 g "nat g"]
    by (auto simp: postE_def)
  then show "postE (case Some p of None \<Rightarrow> Inr s | Some p \<Rightarrow>
      bindE (on_peer g (\<lambda>p. crdtReplicationDiscardCachedMaster (p\<lparr>masterhost := None\<rparr>)) s) (\<lambda>s.
      bindE (crdtCancelReplicationHandshake g s) (\<lambda>s. bindE (freePeerMaster g s) tryCleanCrdtServerLoading)))
      (peers_inv X)"
    by (auto intro!: postE_bind [OF drop_host_inv [OF assms p]] postE_bind [OF freePeerMaster_inv]
        tryCleanCrdtServerLoading_inv intro: postE_bind)
qed (use assms in simp)

lemma createPeerMaster_post:
  "peers_inv X s \<Longrightarrow> postE (createPeerMaster t None g s) (\<lambda>(p, s'). peers_inv X s' \<and> peer_ok {g} g p)"
  unfolding createPeerMaster_def
  by (rule postE_bind [OF addPeerSet_inv]) (auto simp: peer_ok_def vc_wf_def)

lemma crdtReplicationSetMaster_inv:
  assumes "peers_inv X s"
  shows "postE (crdtReplicationSetMaster t g ip port s) (peers_inv X)"
proof -
  have set: "postE (let s = setPeerMaster g (Some (p\<lparr>masterhost := Some ip, masterport := port, lazy_time := NO_LAZY_TIME\<rparr>)) s
     in if iAmMaster s then
          bindE (freeMasterClient g s) (\<lambda>s.
          bindE (crdtCancelReplicationHandshake g s) (\<lambda>s.
          on_peer g (\<lambda>p. p\<lparr>repl_state := REPL_STATE_CONNECT, repl_down_since := 0\<rparr>) s))
        else Inr s) (peers_inv X)"
    if "peers_inv X s" "peer_ok Y g p" "0 \<le> g" for s p Y
  proof -
    have "peers_inv X (setPeerMaster g (Some (p\<lparr>masterhost := Some ip, masterport := port, lazy_time := 0\<rparr>)) s)"
      using that by (auto intro!: setPeerMaster_inv simp: peer_ok_def)
    then show ?thesis
      by (auto simp: Let_def peer_ok_def intro!: postE_bind [OF freeMasterClient_inv]
          postE_bind [OF crdtCancelReplicationHandshake_inv] on_peer_inv)
  qed
  show ?thesis
    unfolding crdtReplicationSetMaster_def
    by (rule peer_post [OF assms])
       (auto intro!: postE_bind [OF createPeerMaster_post [OF assms]] set assms)
qed

subsection \<open>Role changes\<close>

lemma getPeerMaster_set [simp]:
  "length (crdtMasters s) = 16 \<Longrightarrow> 0 \<le> g \<Longrightarrow> g < 16 \<Longrightarrow> getPeerMaster g (setPeerMaster g m s) = Inr m"
  by (simp add: getPeerMaster_def setPeerMaster_def)

lemma setPeerMaster_twice [simp]: "setPeerMaster g m (setPeerMaster g m' s) = setPeerMaster g m s"
  by (simp add: setPeerMaster_def)

lemma on_peer_at:
  "length (crdtMasters s) = 16 \<Longrightarrow> 0 \<le> g \<Longrightarrow> g < 16
   \<Longrightarrow> on_peer g f (setPeerMaster g (Some p) s) = Inr (setPeerMaster g (Some (f p)) s)"
  by (simp add: on_peer_def)

lemma setPeerMaster_same: "0 \<le> g \<Longrightarrow> crdtMasters s ! nat g = m \<Longrightarrow> setPeerMaster g m s = s"
  by (auto simp: setPeerMaster_def)

text \<open>Every peer has a client, or one kept for a partial resynchronisation.\<close>

definition linked :: "crdt_server \<Rightarrow> bool" where
  "linked s \<longleftrightarrow> (\<forall>i < 16. pred_option (\<lambda>p. master p \<noteq> None \<or> cached_master p \<noteq> None) (crdtMasters s ! i))"

lemma linked_set:
  "linked s \<Longrightarrow> length (crdtMasters s) = 16 \<Longrightarrow> 0 \<le> g \<Longrightarrow> g < 16 \<Longrightarrow> master p \<noteq> None
   \<Longrightarrow> linked (setPeerMaster g (Some p) s)"
  by (auto simp: linked_def setPeerMaster_slot)

definition same_core :: "CRDT_Master_Instance \<Rightarrow> CRDT_Master_Instance \<Rightarrow> bool" where
  "same_core p q \<longleftrightarrow> pm_gid q = pm_gid p \<and> masterhost q = masterhost p \<and> pm_vectorClock q = pm_vectorClock p
     \<and> backstream_vc q = backstream_vc p \<and> cached_master q = cached_master p"

lemma cancel_at:
  assumes "length (crdtMasters s) = 16" "0 \<le> g" "g < 16"
  shows "postE (crdtCancelReplicationHandshake g (setPeerMaster g (Some p) s))
     (\<lambda>s'. \<exists>q. s' = setPeerMaster g (Some q) s \<and> same_core p q)"
proof -
  have "\<exists>q. setPeerMaster g (Some p') s = setPeerMaster g (Some q) s \<and> same_core p q" if "same_core p p'" for p'
    using that by blast
  with assms show ?thesis
    by (simp add: crdtCancelReplicationHandshake_def crdtReplicationAbortSyncTransfer_def
        crdtUndoConnectWithMaster_def Let_def same_core_def split: option.splits)
qed

lemma peer_reset_step_inv:
  assumes "peers_inv X s" and "linked s" and "i < 16"
  shows "postE (peer_reset_step i s) (\<lambda>s. peers_inv X s \<and> linked s)"
proof -
  have len: "length (crdtMasters s) = 16" using assms(1) by (rule peers_invD)
  have get: "getPeerMaster (int i) s = Inr (crdtMasters s ! i)" using len assms(3) by (simp add: getPeerMaster_def)
  show ?thesis
  proof (cases "crdtMasters s ! i")
    case None
    with get assms show ?thesis by (simp add: peer_reset_step_def)
  next
    case (Some p)
    have ok: "peer_ok X (int i) p" using assms Some by (simp add: peers_inv_def pred_option_iff)
    define c where "c = copy_client (cached_master p) (copy_client (master p) ((fake_client (unixtime s))\<lparr>mc_gid := int i\<rparr>))"
    have link: "link_ok (int i) c"
      using ok assms(2,3) Some
      by (auto simp: c_def copy_client_def peer_ok_def linked_def link_ok_def fake_client_def pred_option_iff
          split: option.splits)
    have fin: "peers_inv X (setPeerMaster (int i) (Some (q\<lparr>master := Some c, repl_state := REPL_STATE_NONE\<rparr>)) s)
        \<and> linked (setPeerMaster (int i) (Some (q\<lparr>master := Some c, repl_state := REPL_STATE_NONE\<rparr>)) s)"
      if "same_core (crdtReplicationDiscardCachedMaster p) q" for q
      using that ok link assms len
      by (intro conjI setPeerMaster_inv linked_set)
         (auto simp: peer_ok_def same_core_def crdtReplicationDiscardCachedMaster_def split: if_splits)
    have s: "s = setPeerMaster (int i) (Some p) s" using Some by (simp add: setPeerMaster_same)
    show ?thesis
      unfolding peer_reset_step_def get Some bindE_Inr option.case c_def [symmetric] Let_def
      apply (subst s)
      using assms(3) len fin
      by (auto simp: on_peer_at same_core_def intro!: postE_bind [OF cancel_at])
  qed
qed

end
