(* ===== verification/Crdt_Peer_Steps.thy ===== *)
theory Crdt_Peer_Steps
  imports Crdt_Peer_Inv
begin

section \<open>The commands keep the peer table well-formed\<close>

text \<open>
  The invariant \<open>peers_inv\<close> through each whole command on peers: role changes, PEEROF with its options, the
  two commands around the merge of a snapshot, replication id changes, restart and backstreaming.
\<close>

lemma crdtReplicationAllPeersStateReset_inv:
  assumes "peers_inv X s" and "linked s"
  shows "postE (crdtReplicationAllPeersStateReset s) (peers_inv X)"
proof -
  have "postE (crdtReplicationAllPeersStateReset s) (\<lambda>s. peers_inv X s \<and> linked s)"
    unfolding crdtReplicationAllPeersStateReset_def
    by (rule postE_fold) (use assms in \<open>auto intro: peer_reset_step_inv\<close>)
  then show ?thesis by (rule postE_mono) simp
qed

lemma idle_inv: "peers_inv X s \<Longrightarrow> postE (on_peer g (\<lambda>p. p\<lparr>repl_state := REPL_STATE_NONE\<rparr>) s) (peers_inv X)"
  by (rule on_peer_inv) (auto simp: peer_ok_def)

lemma discard_inv: "peers_inv X s \<Longrightarrow> postE (on_peer g crdtReplicationDiscardCachedMaster s) (peers_inv X)"
  by (rule on_peer_inv) (auto intro: peer_ok_discard)

lemma crdtReplicationCacheAllMaster_inv:
  "peers_inv X s \<Longrightarrow> postE (crdtReplicationCacheAllMaster s) (peers_inv X)"
  unfolding crdtReplicationCacheAllMaster_def
proof (rule postE_fold)
  fix i s
  assume s: "peers_inv X s"
  show "postE (cache_all_step i s) (peers_inv X)"
    unfolding cache_all_step_def
    by (rule peer_post [OF s])
       (auto split: option.splits
          intro!: s idle_inv postE_bind [OF discard_inv] postE_bind [OF crdtReplicationCacheMaster_inv] simp: bindE_assoc)
qed

lemma crdtReplicationCloseAllMasters_inv:
  "peers_inv X s \<Longrightarrow> postE (crdtReplicationCloseAllMasters s) (peers_inv X)"
  unfolding crdtReplicationCloseAllMasters_def
proof (rule postE_fold)
  fix i s
  assume s: "peers_inv X s"
  show "postE (close_all_step i s) (peers_inv X)"
    unfolding close_all_step_def
    by (rule peer_post [OF s])
       (auto intro!: s idle_inv postE_bind [OF discard_inv] postE_bind [OF freeMasterClient_inv]
          postE_bind [OF crdtCancelReplicationHandshake_inv])
qed

subsection \<open>PEEROF\<close>

lemma peerof_opts_inv:
  "peers_inv X s \<Longrightarrow> vc_wf (fst acc) \<Longrightarrow> postE (peerof_opts argv args acc s)
     (\<lambda>(r, s). peers_inv X s \<and> (case r of Inl _ \<Rightarrow> True | Inr (bvc, _) \<Rightarrow> vc_wf bvc))"
proof (induction argv args acc s rule: peerof_opts.induct)
  case (1 argv acc s)
  then show ?case by (cases acc) simp
next
  case (2 argv a rest bvc pt px s)
  have "check_gid (crdt_gid s)" using 2(4) by (simp add: peers_inv_def clocks_wf_def)
  then have wf: "addVectorClockUnit bvc (crdt_gid s) t = Inr r \<Longrightarrow> vc_wf r" for t r
    using addVectorClockUnit_ok [of bvc "crdt_gid s" t] 2(5) by auto
  consider (backstream) "strcaseeq a ''backstream''"
    | (proxy) "\<not> strcaseeq a ''backstream''" "strcaseeq a ''proxy-type''"
    | (other) "\<not> strcaseeq a ''backstream''" "\<not> strcaseeq a ''proxy-type''" by blast
  then show ?case
  proof cases
    case backstream
    show ?thesis
    proof (cases rest)
      case (Cons v rest')
      have "postE (bindE (addVectorClockUnit bvc (crdt_gid s) vcu)
          (\<lambda>bvc. peerof_opts argv rest' (bvc, pt, px) (s\<lparr>crdt_loading := True\<rparr>)))
          (\<lambda>(r, s). peers_inv X s \<and> (case r of Inl _ \<Rightarrow> True | Inr (bvc, _) \<Rightarrow> vc_wf bvc))" if "string2ll v = Some vcu" for vcu
        using 2(1) [OF backstream Cons that] 2(4) wf by (intro postE_bind_eq) simp
      then show ?thesis using backstream Cons 2(4) by (simp split: option.split)
    qed (use backstream in simp)
  next
    case proxy
    show ?thesis
    proof (cases rest)
      case (Cons v rest')
      have "postE (bindE (parseProxyByRobjArray (getProxyType v) argv) (\<lambda>px. case px of
            None \<Rightarrow> Inr (Inl (ReplyError ''proxy params error''), s)
          | Some x \<Rightarrow> peerof_opts argv rest' (bvc, getProxyType v, Some x) s))
          (\<lambda>(r, s). peers_inv X s \<and> (case r of Inl _ \<Rightarrow> True | Inr (bvc, _) \<Rightarrow> vc_wf bvc))" if "getProxyType v \<noteq> NONE_PROXY"
        using 2(2) [OF proxy Cons that] 2(4,5) by (intro postE_bind_eq) (simp split: option.split)
      then show ?thesis using proxy Cons 2(4) by simp
    qed (use proxy in simp)
  next
    case other
    then show ?thesis using 2(3) [OF other 2(4)] 2(5) by simp
  qed
qed

lemma peerof_same_inv:
  assumes "peers_inv X s" and "0 \<le> g" and "pred_option (peer_ok X g) m"
  shows "postE (peerof_same m ip port acc g s) (\<lambda>r. case r of Inl (_, s') \<Rightarrow> peers_inv X s' | Inr _ \<Rightarrow> True)"
proof (cases acc)
  case (fields bvc pt px)
  have upd: "peer_ok X g p \<Longrightarrow> peer_ok X g (p\<lparr>pm_proxy := v\<rparr>)" "peer_ok X g p \<Longrightarrow> peer_ok X g (p\<lparr>lazy_time := t\<rparr>)" for p v t
    by (simp_all add: peer_ok_def)
  show ?thesis
    using assms unfolding fields peerof_same_def
    by (auto split: option.splits intro!: postE_bind_eq setPeerMaster_inv upd simp: Let_def)
qed

lemma peerof_commit_inv:
  assumes "peers_inv {} s" and "vc_wf bvc"
  shows "postE (peerof_commit t err g ip port (bvc, pt, px) s) (\<lambda>(r, s). peers_inv {} s)"
proof -
  have upd: "peer_ok {} g ((if \<not> isNullVectorClock bvc then p\<lparr>backstream_vc := bvc\<rparr> else p)
      \<lparr>pm_proxy_type := pt, pm_proxy := px\<rparr>)" if "peer_ok {} g p" for p
    using that assms(2) by (simp add: peer_ok_def)
  show ?thesis
    unfolding peerof_commit_def prod.case
    by (rule postE_bind [OF crdtReplicationSetMaster_inv [OF assms(1)]],
        rule postE_bind [OF on_peer_inv [OF _ upd]])
       (auto split: option.split intro!: postE_bind [OF crdtReplicationUnsetMaster_inv] postE_bind [OF addPeerSet_inv])
qed

lemma peerofCommand_inv:
  assumes "peers_inv {} s"
  shows "postE (peerofCommand t err argv s) (\<lambda>(r, s). peers_inv {} s)"
proof -
  have conn: "postE (bindE (getPeerMaster g s) (\<lambda>m. bindE (peerof_same m ip port (bvc, pt, px) g s) (\<lambda>r.
      case r of Inl done \<Rightarrow> Inr done | Inr px \<Rightarrow> peerof_commit t err g ip port (bvc, pt, px) s))) (\<lambda>(r, s). peers_inv {} s)"
    if "peers_inv {} s" "vc_wf bvc" for g ip port bvc pt px s
    by (rule postE_bind [OF getPeerMaster_post [OF that(1)]], rule postE_bind [OF peerof_same_inv [OF that(1)]])
       (auto split: sum.split sum.split_asm prod.split intro: peerof_commit_inv [OF that])
  have opts: "postE (bindE (peerof_opts argv args ([], NONE_PROXY, None) s) (\<lambda>(r, s).
      case r of Inl reply \<Rightarrow> Inr (reply, s) | Inr (bvc, pt, px) \<Rightarrow>
        bindE (getPeerMaster g s) (\<lambda>m. bindE (peerof_same m ip port (bvc, pt, px) g s) (\<lambda>r.
        case r of Inl done \<Rightarrow> Inr done | Inr px \<Rightarrow> peerof_commit t err g ip port (bvc, pt, px) s)))) (\<lambda>(r, s). peers_inv {} s)"
    for args ip port g
    by (rule postE_bind [OF peerof_opts_inv [OF assms]])
       (auto split: sum.split sum.split_asm prod.split intro: conn simp: vc_wf_def)
  have unset: "postE (bindE (crdtReplicationUnsetMaster g s) (\<lambda>s. Inr (ReplyOk, s\<lparr>dirty := dirty s + 1\<rparr>)))
      (\<lambda>(r, s). peers_inv {} s)" for g
    by (rule postE_bind [OF crdtReplicationUnsetMaster_inv [OF assms]]) simp
  show ?thesis
    unfolding peerofCommand_def Let_def
    using assms by (auto split: option.split intro: unset opts)
qed

subsection \<open>Clocks\<close>

lemma peers_inv_clocks:
  "peers_inv X s \<Longrightarrow> vc_wf vc \<Longrightarrow> gidw (crdt_gid s) \<in> gids vc \<Longrightarrow> peers_inv X (s\<lparr>vectorClock := vc\<rparr>)"
  "peers_inv X s \<Longrightarrow> vc_wf vc \<Longrightarrow> peers_inv X (s\<lparr>vectorClockCache := vc\<rparr>)"
  "peers_inv X s \<Longrightarrow> vc_wf vc \<Longrightarrow> peers_inv X (s\<lparr>gcVectorClock := vc\<rparr>)"
  by (simp_all add: peers_inv_def clocks_wf_def)

lemma peers_inv_clocksD:
  assumes "peers_inv X s"
  shows "check_gid (crdt_gid s)" "vc_wf (vectorClock s)" "vc_wf (vectorClockCache s)" "vc_wf (gcVectorClock s)"
    "gidw (crdt_gid s) \<in> gids (vectorClock s)"
  using assms by (simp_all add: peers_inv_def clocks_wf_def)

lemma mergeLogicClock_ok:
  assumes "vc_wf dst" and "vc_wf src" and "check_gid g"
  shows "\<exists>r. mergeLogicClock dst src g = Inr r \<and> vc_wf r \<and> gids dst \<subseteq> gids r
     \<and> (\<forall>h. h \<noteq> gidw g \<longrightarrow> vc_map r h = vc_map dst h)
     \<and> vc_map r (gidw g) = max (vc_map dst (gidw g)) (vc_map src (gidw g))"
  using updateProcess_ok [OF assms, of "g + 1"]
  by (simp add: mergeLogicClock_def updateProcessVectorClock_def)

lemma addVectorClockUnit_gids:
  assumes "vc_wf vc" and "check_gid g"
  shows "\<exists>r. addVectorClockUnit vc g t = Inr r \<and> vc_wf r \<and> gids r = insert (gidw g) (gids vc)"
proof -
  obtain r where r: "addVectorClockUnit vc g t = Inr r" "vc_wf r" "vc_map r = (vc_map vc)(gidw g \<mapsto> word_of_int t)"
    using addVectorClockUnit_ok [OF assms] by blast
  have "gids r = insert (gidw g) (gids vc)" using arg_cong [OF r(3), of dom] by (simp add: dom_vc_map)
  with r show ?thesis by blast
qed

lemma gids_incrLogicClock:
  assumes "vc_wf vc" and "check_gid g"
  shows "gids (incrLogicClock vc g d) = gids vc"
proof -
  have "dom (vc_map (incrLogicClock vc g d)) = dom (vc_map vc)"
    using incrLogicClock_map [OF assms] by (auto simp: dom_def)
  then show ?thesis by (simp add: dom_vc_map)
qed

lemma gids_resetVectorClock [simp]: "gids (resetVectorClock vc) = gids vc"
  by (simp add: resetVectorClock_def set_logic_clock_def image_image)

lemma incrLocalVcUnit_inv:
  assumes "peers_inv X s"
  shows "peers_inv X (incrLocalVcUnit d s)"
proof -
  note wf = peers_inv_clocksD [OF assms]
  have "peers_inv X (s\<lparr>vectorClock := incrLogicClock (vectorClock s) (crdt_gid s) d\<rparr>)"
    using wf by (intro peers_inv_clocks(1) assms incrLogicClock_wf(1)) (simp_all only: gids_incrLogicClock)
  then show ?thesis
    using wf(3) by (simp add: incrLocalVcUnit_def Let_def peers_inv_clocks(2) incrLogicClock_wf(1))
qed

lemma jumpVectorClock_inv: "peers_inv X s \<Longrightarrow> peers_inv X (jumpVectorClock q s)"
  by (simp add: jumpVectorClock_def incrLocalVcUnit_inv)

subsection \<open>The merge commands\<close>

lemma merge_err_inv: "peers_inv X s \<Longrightarrow> postE (merge_err r g s) (\<lambda>(r, s). peers_inv X s)"
  unfolding merge_err_def by (auto intro!: postE_bind [OF crdtCancelReplicationHandshake_inv])

lemma vectorClockMerge_post: "vc_wf a \<Longrightarrow> vc_wf b \<Longrightarrow> postE (vectorClockMerge a b) (\<lambda>(r, _, _). vc_wf r)"
  using vectorClockMerge_ok [of a b] by auto

lemma addVectorClockUnit_post:
  "vc_wf vc \<Longrightarrow> check_gid g \<Longrightarrow> postE (addVectorClockUnit vc g t) (\<lambda>r. vc_wf r \<and> gids vc \<subseteq> gids r)"
  using addVectorClockUnit_gids [of vc g t] by auto

lemma merge_start_peer_ok: "peer_ok {} g p \<Longrightarrow> postE (merge_start_peer p s) (peer_ok {} g)"
  by (auto simp: merge_start_peer_def peer_ok_def crdtReplicationCreateMasterClient_def link_ok_def
      fake_client_def Let_def)

lemma merge_start_clocks_inv:
  assumes "peers_inv X s" and "check_gid g" and "postE (sdsToVectorClock text) vc_wf"
  shows "postE (merge_start_clocks g text s) (\<lambda>(r, s). peers_inv X s)"
proof -
  note wf = peers_inv_clocksD [OF assms(1)]
  have unit: "postE (if isNullVectorClockUnit (getVectorClockUnit (vectorClock s) g)
      then addVectorClockUnit (vectorClock s) g 0 else Inr (vectorClock s)) (\<lambda>r. vc_wf r \<and> gids (vectorClock s) \<subseteq> gids r)"
    using addVectorClockUnit_post [OF wf(2) assms(2)] wf(2) by simp
  have "peers_inv X (s\<lparr>gcVectorClock := gc, vectorClock := vc, dirty := d\<rparr>)"
    if "vc_wf gc" "vc_wf vc \<and> gids (vectorClock s) \<subseteq> gids vc" for gc vc d
    using that wf assms(1) unfolding peers_inv_def clocks_wf_def by (simp add: subset_iff)
  then show ?thesis
    unfolding merge_start_clocks_def
    by (intro postE_bind [OF assms(3)] postE_bind [OF vectorClockMerge_post [OF wf(4)]];
        clarify?; intro postE_bind [OF unit])
       auto
qed

lemma crdtMergeStartCommand_inv:
  assumes "peers_inv {} s" and "postE (sdsToVectorClock (argv ! 2)) vc_wf"
  shows "postE (crdtMergeStartCommand argv s) (\<lambda>(r, s). peers_inv {} s)"
proof -
  have "postE (bindE (getPeerMaster g s) (\<lambda>m. case m of None \<Rightarrow> Inl NullDeref | Some p \<Rightarrow>
      bindE (merge_start_peer p s) (\<lambda>p. merge_start_clocks g (argv ! 2) (setPeerMaster g (Some p) s))))
      (\<lambda>(r, s). peers_inv {} s)" if "check_gid g" for g
    by (rule peer_post [OF assms(1)])
       (auto intro!: postE_bind [OF merge_start_peer_ok] merge_start_clocks_inv setPeerMaster_inv assms that)
  then show ?thesis
    unfolding crdtMergeStartCommand_def
    by (auto split: option.split intro: merge_err_inv [OF assms(1)])
qed

lemma merge_end_clocks_inv:
  assumes "peers_inv X s" and "check_gid g" and "peer_ok X g p" and "postE (sdsToVectorClock text) vc_wf"
  shows "postE (merge_end_clocks g text p s) (peers_inv X)"
  unfolding merge_end_clocks_def
proof (rule postE_bind [OF assms(4)])
  fix pvc
  assume pvc: "vc_wf pvc"
  note wf = peers_inv_clocksD [OF assms(1)]
  obtain vc where vc: "mergeLogicClock (vectorClock s) pvc g = Inr vc" "vc_wf vc" "gids (vectorClock s) \<subseteq> gids vc"
    using mergeLogicClock_ok [OF wf(2) pvc assms(2)] by blast
  obtain gc a' pvc' where gc: "mergeMinVectorClock (gcVectorClock s) pvc = Inr (gc, a', pvc')" "vc_wf gc" "vc_wf pvc'"
    using mergeMin_args [OF wf(4) pvc] by blast
  have "peers_inv X (setPeerMaster g (Some (p\<lparr>pm_vectorClock := pvc'\<rparr>)) s)"
    using assms(2,3) gc(3) by (intro setPeerMaster_inv assms(1)) (auto simp: peer_ok_def check_gid_def)
  moreover have "gidw (crdt_gid s) \<in> gids vc" using wf(5) vc(3) by (rule set_rev_mp)
  ultimately have "peers_inv X ((setPeerMaster g (Some (p\<lparr>pm_vectorClock := pvc'\<rparr>)) s)\<lparr>vectorClock := vc, gcVectorClock := gc\<rparr>)"
    using vc(2) gc(2) by (intro peers_inv_clocks(3) peers_inv_clocks(1)) (simp_all add: setPeerMaster_def)
  then show "postE (bindE (mergeLogicClock (vectorClock s) pvc g) (\<lambda>vc.
     bindE (mergeMinVectorClock (gcVectorClock s) pvc) (\<lambda>(gc, _, pvc).
     Inr ((setPeerMaster g (Some (p\<lparr>pm_vectorClock := pvc\<rparr>)) s)\<lparr>vectorClock := vc, gcVectorClock := gc\<rparr>)))) (peers_inv X)"
    using vc(1) gc(1) by simp
qed

lemma merge_end_link_ok: "peer_ok {} g p \<Longrightarrow> postE (merge_end_link rid off p) (peer_ok {} g)"
  by (auto simp: merge_end_link_def peer_ok_def link_ok_def intro!: postE_bind_eq split: option.splits)

lemma merge_end_backstream_inv:
  assumes "peers_inv X s"
  shows "postE (merge_end_backstream qps g s) (peers_inv X)"
proof -
  have "peers_inv X (setPeerMaster g (Some (p\<lparr>backstream_vc := []\<rparr>)) s)" if "0 \<le> g" "peer_ok X g p" for p
    using that(2) by (intro setPeerMaster_inv assms that(1)) (simp add: peer_ok_def vc_wf_def)
  then show ?thesis
    unfolding merge_end_backstream_def
    by (intro peer_post [OF assms])
       (auto simp: Let_def tryCleanCrdtServerLoading_inv jumpVectorClock_inv incrLocalVcUnit_inv assms)
qed

definition has_link :: "int \<Rightarrow> crdt_server \<Rightarrow> bool" where
  "has_link g s \<longleftrightarrow> pred_option (\<lambda>p. master p \<noteq> None) (crdtMasters s ! nat g)"

lemma merge_end_ack_inv:
  assumes "peers_inv X s" and "has_link g s"
  shows "postE (merge_end_ack cgid g s) (\<lambda>(a, s). peers_inv X s)"
proof -
  have "postE (on_peer g (\<lambda>p. p\<lparr>repl_state := REPL_STATE_CONNECTED, repl_transfer_lastio := unixtime s\<rparr>) s) (peers_inv X)"
    unfolding on_peer_def
    by (rule peer_post [OF assms(1)])
       (use assms in \<open>auto intro!: setPeerMaster_inv simp: peer_ok_def has_link_def\<close>)
  then show ?thesis
    unfolding merge_end_ack_def using assms(1) by (auto intro!: postE_bind_eq intro: postE_D)
qed

lemma crdtMasters_clock_ops [simp]:
  "crdtMasters (incrLocalVcUnit d s) = crdtMasters s" "crdtMasters (jumpVectorClock q s) = crdtMasters s"
  "crdt_gid (incrLocalVcUnit d s) = crdt_gid s" "crdt_gid (jumpVectorClock q s) = crdt_gid s"
  by (simp_all add: incrLocalVcUnit_def jumpVectorClock_def Let_def)

lemma clean_loading_fields:
  "postE (clean_loading_loop is s) (\<lambda>s'. \<exists>b. s' = s\<lparr>crdt_loading := b\<rparr>)"
proof (induction "is")
  case Nil
  show ?case by auto
next
  case (Cons i "is")
  have "\<exists>b. s = s\<lparr>crdt_loading := b\<rparr>" by (rule exI [of _ "crdt_loading s"]) simp
  with Cons show ?case by (auto intro!: postE_bind_eq split: option.splits)
qed

lemma has_link_fields [simp]:
  "has_link g (s\<lparr>crdt_loading := b\<rparr>) = has_link g s" "has_link g (incrLocalVcUnit d s) = has_link g s"
  "has_link g (jumpVectorClock q s) = has_link g s"
  by (simp_all add: has_link_def)

lemma has_link_set:
  "peers_inv X s \<Longrightarrow> 0 \<le> g \<Longrightarrow> g < 16 \<Longrightarrow> master p \<noteq> None \<Longrightarrow> has_link g (setPeerMaster g (Some p) s)"
  by (simp add: has_link_def setPeerMaster_slot peers_invD)

lemma merge_end_backstream_link:
  assumes "peers_inv X s" and "has_link g s"
  shows "postE (merge_end_backstream qps g s) (has_link g)"
proof -
  have *: "postE (tryCleanCrdtServerLoading s') (has_link g)" if "has_link g s'" for s'
    unfolding tryCleanCrdtServerLoading_def by (rule postE_mono [OF clean_loading_fields]) (use that in auto)
  have "has_link g (setPeerMaster g (Some (p\<lparr>backstream_vc := []\<rparr>)) s)"
    if "0 \<le> g" "g < 16" "crdtMasters s ! nat g = Some p" for p
    using that assms by (intro has_link_set) (auto simp: has_link_def)
  then show ?thesis
    unfolding merge_end_backstream_def
    by (intro peer_post [OF assms(1)]) (auto simp: Let_def assms intro!: *)
qed

lemma merge_end_finish_inv:
  assumes "peers_inv {} s"
  shows "postE (merge_end_finish qps cgid g rid offset s) (\<lambda>(r, a, s). peers_inv {} s)"
proof -
  have link: "postE (merge_end_link rid offset p) (\<lambda>p. peer_ok {} g p \<and> master p \<noteq> None)" if "peer_ok {} g p" for p
    by (rule postE_conj [OF merge_end_link_ok [OF that]])
       (auto simp: merge_end_link_def intro!: postE_bind_eq split: option.splits)
  have bstream: "postE (merge_end_backstream qps g (setPeerMaster g (Some p) s)) (\<lambda>s. peers_inv {} s \<and> has_link g s)"
    if "0 \<le> g" "g < 16" "peer_ok {} g p \<and> master p \<noteq> None" for p
  proof -
    have inv: "peers_inv {} (setPeerMaster g (Some p) s)" using assms that by (simp add: setPeerMaster_inv)
    moreover have "has_link g (setPeerMaster g (Some p) s)" using assms that by (simp add: has_link_set)
    ultimately show ?thesis by (intro postE_conj merge_end_backstream_inv merge_end_backstream_link)
  qed
  show ?thesis
    unfolding merge_end_finish_def
    by (rule peer_post [OF assms])
       (auto intro!: postE_bind [OF link] postE_bind [OF bstream] postE_bind [OF merge_end_ack_inv])
qed

lemma crdtMergeEndCommand_inv:
  assumes "peers_inv {} s" and "postE (sdsToVectorClock (argv ! 2)) vc_wf"
  shows "postE (crdtMergeEndCommand qps cgid argv s) (\<lambda>(r, a, s). peers_inv {} s)"
proof -
  have err: "postE (bindE (merge_err r g s) (\<lambda>(r, s). Inr (r, [], s))) (\<lambda>(r, a, s). peers_inv {} s)" for r g
    by (rule postE_bind [OF merge_err_inv [OF assms(1)]]) auto
  have "postE (bindE (merge_end_clocks g (argv ! 2) p s) (\<lambda>s. case string2ll (argv ! 4) of
      None \<Rightarrow> Inr (e, [], s) | Some offset \<Rightarrow> merge_end_finish qps cgid g (argv ! 3) offset s)) (\<lambda>(r, a, s). peers_inv {} s)"
    if "check_gid g" "peer_ok {} g p" for g p e
    by (rule postE_bind [OF merge_end_clocks_inv [OF assms(1) that assms(2)]])
       (auto split: option.split intro: merge_end_finish_inv)
  then show ?thesis
    unfolding crdtMergeEndCommand_def Let_def
    by (auto split: option.split intro: err intro!: peer_post [OF assms(1)])
qed

lemma peerChangeCommand_inv:
  assumes "peers_inv {} s"
  shows "postE (peerChangeCommand argv s) (\<lambda>(r, s). peers_inv {} s)"
proof -
  have "postE (bindE (memcpy_replid (mc_replid c) rid) (\<lambda>crid. bindE (memcpy_replid (master_replid p) rid) (\<lambda>mrid.
      Inr (ReplyOk, (setPeerMaster g (Some (p\<lparr>master := Some (c\<lparr>mc_replid := crid\<rparr>), master_replid := mrid\<rparr>)) s)
        \<lparr>dirty := dirty s + 1\<rparr>)))) (\<lambda>(r, s). peers_inv {} s)"
    if "0 \<le> g" "peer_ok {} g p" "master p = Some c" for g p c rid
    using that by (intro postE_bind_eq) (auto intro!: setPeerMaster_inv assms simp: peer_ok_def link_ok_def)
  then show ?thesis
    unfolding peerChangeCommand_def
    by (auto split: option.split intro!: peer_post [OF assms] simp: assms)
qed

subsection \<open>Restart and collection\<close>

lemma set_backstream_inv:
  assumes "peers_inv X s" and "0 \<le> g" and "peer_ok X g p"
  shows "postE (set_backstream g p t s) (peers_inv X)"
proof -
  have "vc_wf (backstream_vc p)" using assms(3) by (simp add: peer_ok_def)
  from addVectorClockUnit_post [OF this peers_inv_clocksD(1) [OF assms(1)]] show ?thesis
    unfolding set_backstream_def
    by (rule postE_bind) (use assms in \<open>auto intro!: setPeerMaster_inv simp: peer_ok_def\<close>)
qed

lemma ask_step_inv:
  "(case acc of (v, g, l, s) \<Rightarrow> peers_inv X s) \<Longrightarrow> postE (ask_step ask i acc) (\<lambda>(v, g, l, s). peers_inv X s)"
  by (cases acc)
     (auto simp: ask_step_def split: option.split intro!: peer_post [of X] postE_bind [OF set_backstream_inv])

lemma assign_step_inv: "peers_inv X s \<Longrightarrow> postE (assign_step v g i s) (peers_inv X)"
  unfolding assign_step_def by (rule peer_post) (auto intro!: set_backstream_inv)

lemma cleanSlavePeerBackStream_inv: "peers_inv X s \<Longrightarrow> postE (cleanSlavePeerBackStream s) (peers_inv X)"
  unfolding cleanSlavePeerBackStream_def
  by (rule postE_bind [where Q = "peers_inv X"], rule postE_fold)
     (auto simp: clean_backstream_step_def intro!: on_peer_inv simp: peer_ok_def vc_wf_def)

lemma peerBackStream_inv:
  assumes "peers_inv X s"
  shows "postE (peerBackStream ask dbs s) (\<lambda>(l, e, s). peers_inv X s)"
proof -
  have reset: "peers_inv X (s\<lparr>vectorClock := resetVectorClock (vectorClock s), gcVectorClock := resetVectorClock (gcVectorClock s)\<rparr>)"
    if "peers_inv X s" for s
    using peers_inv_clocksD [OF that] by (intro peers_inv_clocks(3,1) that resetVectorClock_facts(1)) simp_all
  have "postE (foldE (ask_step ask) [0..<16] (- 1, - 1, False, s)) (\<lambda>(v, g, l, s). peers_inv X s)"
    by (rule postE_fold) (use assms in \<open>auto intro!: ask_step_inv\<close>)
  then show ?thesis
    unfolding peerBackStream_def
    by (rule postE_bind)
       (auto simp: Let_def reset intro!: postE_bind [OF cleanSlavePeerBackStream_inv]
          postE_bind [OF postE_fold [where P = "peers_inv X"]] assign_step_inv)
qed

lemma lazyPeerof_inv: "peers_inv X s \<Longrightarrow> postE (lazyPeerof now d s) (peers_inv X)"
  unfolding lazyPeerof_def by (rule postE_fold) (auto intro!: on_peer_inv simp: peer_ok_def)

end
