(* ===== verification/Client_Output.thy ===== *)
theory Client_Output
  imports Num_Text Vector_Clock
begin

section \<open>Client output buffers\<close>

text \<open>
  The reply side of \<^verbatim>\<open>src/src/networking.c\<close>: a client owns a static buffer and, once that is full,
  a list of strings; every \<^verbatim>\<open>addReply*\<close> function ends in one of them, and \<open>writeToClient\<close> drains them
  into the socket. The record \<open>client\<close> keeps the fields of \<^verbatim>\<open>struct client\<close> these functions, the
  protocol parser and the replication code use; \<^verbatim>\<open>flags\<close> is the set of flags that are on. Only the
  used part of the static buffer is kept, so \<^verbatim>\<open>bufpos\<close> is its length. \<^verbatim>\<open>None\<close> in the reply list is the
  \<^verbatim>\<open>NULL\<close> placeholder of a deferred length. The record \<open>net\<close> holds the fields of \<^verbatim>\<open>server\<close> these
  functions touch, with clients named by their id.
\<close>

datatype client_flag =
    CLIENT_SLAVE | CLIENT_MASTER | CLIENT_MONITOR | CLIENT_MULTI | CLIENT_BLOCKED
  | CLIENT_CLOSE_AFTER_REPLY | CLIENT_LUA | CLIENT_ASKING | CLIENT_CLOSE_ASAP
  | CLIENT_MASTER_FORCE_REPLY | CLIENT_PRE_PSYNC | CLIENT_PUBSUB | CLIENT_PENDING_WRITE
  | CLIENT_REPLY_OFF | CLIENT_REPLY_SKIP_NEXT | CLIENT_REPLY_SKIP | CLIENT_MODULE
  | CLIENT_CRDT_SLAVE | CLIENT_CRDT_MASTER

datatype slave_state =
    SLAVE_STATE_NONE | SLAVE_STATE_WAIT_BGSAVE_START | SLAVE_STATE_WAIT_BGSAVE_END
  | SLAVE_STATE_SEND_BULK | SLAVE_STATE_ONLINE

datatype slave_capa = SLAVE_CAPA_EOF | SLAVE_CAPA_PSYNC2 | SLAVE_CAPA_CRDT | SLAVE_CAPA_BACKSTREAM

record client =
  c_id :: nat
  c_fd :: int
  c_flags :: "client_flag set"
  c_buf :: string
  c_reply :: "string option list"
  c_reply_bytes :: nat
  c_sentlen :: nat
  c_obuf_soft_limit_reached_time :: int
  c_lastinteraction :: int
  c_replstate :: slave_state
  c_repl_put_online_on_ack :: bool
  c_repl_ack_time :: int
  c_psync_initial_offset :: int
  c_slave_capa :: "slave_capa set"
  c_querybuf :: string
  c_reqtype :: nat
  c_argv :: "string list"
  c_multibulklen :: int
  c_bulklen :: int
  c_repldbfd :: int
  c_repldboff :: nat
  c_repldbsize :: nat
  c_replpreamble :: "string option"
  c_repl_ack_off :: int
  c_slave_listening_port :: int
  c_slave_ip :: string
  c_vectorClock :: VectorClock
  c_filterVectorClock :: VectorClock

record clientBufferLimitsConfig =
  hard_limit_bytes :: nat
  soft_limit_bytes :: nat
  soft_limit_seconds :: int

record net =
  clients_pending_write :: "nat list"
  clients_to_close :: "nat list"
  client_obuf_limits :: "clientBufferLimitsConfig list"
  stat_net_output_bytes :: nat
  net_unixtime :: int

abbreviation PROTO_REPLY_CHUNK_BYTES :: nat where "PROTO_REPLY_CHUNK_BYTES \<equiv> 16384"
abbreviation NET_MAX_WRITES_PER_EVENT :: nat where "NET_MAX_WRITES_PER_EVENT \<equiv> 65536"
abbreviation SIZE_MAX :: nat where "SIZE_MAX \<equiv> 18446744073709551615"
abbreviation OBJ_SHARED_BULKHDR_LEN :: int where "OBJ_SHARED_BULKHDR_LEN \<equiv> 32"
abbreviation crlf :: string where "crlf \<equiv> [CHR 0x0D, CHR 0x0A]"

text \<open>A string object is a raw string or, with \<^verbatim>\<open>OBJ_ENCODING_INT\<close>, an integer.\<close>

datatype robj = RawObj string | IntObj int

subsection \<open>Client classes and output limits\<close>

datatype client_type =
    CLIENT_TYPE_NORMAL | CLIENT_TYPE_SLAVE | CLIENT_TYPE_PUBSUB | CLIENT_TYPE_MASTER
  | CLIENT_TYPE_CRDT_SLAVE | CLIENT_TYPE_CRDT_MASTER

fun type_index :: "client_type \<Rightarrow> nat" where
  "type_index CLIENT_TYPE_NORMAL = 0"
| "type_index CLIENT_TYPE_SLAVE = 1"
| "type_index CLIENT_TYPE_PUBSUB = 2"
| "type_index CLIENT_TYPE_MASTER = 3"
| "type_index CLIENT_TYPE_CRDT_SLAVE = 4"
| "type_index CLIENT_TYPE_CRDT_MASTER = 5"

definition getClientType :: "client \<Rightarrow> client_type" where
  "getClientType c =
     (if CLIENT_MASTER \<in> c_flags c then CLIENT_TYPE_MASTER
      else if CLIENT_SLAVE \<in> c_flags c \<and> CLIENT_MONITOR \<notin> c_flags c then CLIENT_TYPE_SLAVE
      else if CLIENT_CRDT_MASTER \<in> c_flags c then CLIENT_TYPE_CRDT_MASTER
      else if CLIENT_CRDT_SLAVE \<in> c_flags c then CLIENT_TYPE_CRDT_SLAVE
      else if CLIENT_PUBSUB \<in> c_flags c then CLIENT_TYPE_PUBSUB
      else CLIENT_TYPE_NORMAL)"

text \<open>\<^verbatim>\<open>sizeof(listNode)\<close> is 24 on the 64-bit targets.\<close>

definition getClientOutputBufferMemoryUsage :: "client \<Rightarrow> nat" where
  "getClientOutputBufferMemoryUsage c = c_reply_bytes c + (24 + 5) * length (c_reply c)"

text \<open>
  \<open>checkClientOutputBufferLimits\<close> indexes \<^verbatim>\<open>client_obuf_limits\<close>, an array of
  \<^verbatim>\<open>CLIENT_TYPE_OBUF_COUNT\<close> entries, by the class of the client.
\<close>

definition checkClientOutputBufferLimits :: "net \<Rightarrow> client \<Rightarrow> (bool \<times> client) res" where
  "checkClientOutputBufferLimits n c =
     (let used_mem = getClientOutputBufferMemoryUsage c;
          cls = (if getClientType c = CLIENT_TYPE_MASTER then CLIENT_TYPE_NORMAL
                 else getClientType c)
      in if length (client_obuf_limits n) \<le> type_index cls then Inl OutOfBounds
         else
           let lim = client_obuf_limits n ! type_index cls;
               hard = (hard_limit_bytes lim \<noteq> 0 \<and> hard_limit_bytes lim \<le> used_mem);
               soft = (soft_limit_bytes lim \<noteq> 0 \<and> soft_limit_bytes lim \<le> used_mem)
           in if soft then
                if c_obuf_soft_limit_reached_time c = 0
                then Inr (hard, c\<lparr>c_obuf_soft_limit_reached_time := net_unixtime n\<rparr>)
                else Inr (hard \<or> soft_limit_seconds lim
                                  < net_unixtime n - c_obuf_soft_limit_reached_time c, c)
              else Inr (hard, c\<lparr>c_obuf_soft_limit_reached_time := 0\<rparr>))"

definition freeClientAsync :: "net \<times> client \<Rightarrow> net \<times> client" where
  "freeClientAsync = (\<lambda>(n, c).
     if CLIENT_CLOSE_ASAP \<in> c_flags c \<or> CLIENT_LUA \<in> c_flags c then (n, c)
     else (n\<lparr>clients_to_close := clients_to_close n @ [c_id c]\<rparr>,
           c\<lparr>c_flags := insert CLIENT_CLOSE_ASAP (c_flags c)\<rparr>))"

definition asyncCloseClientOnOutputBufferLimitReached :: "net \<times> client \<Rightarrow> (net \<times> client) res" where
  "asyncCloseClientOnOutputBufferLimitReached = (\<lambda>(n, c).
     bindE (assertE (c_reply_bytes c < SIZE_MAX - 1024 * 64)) (\<lambda>_.
     if c_reply_bytes c = 0 \<or> CLIENT_CLOSE_ASAP \<in> c_flags c then Inr (n, c)
     else bindE (checkClientOutputBufferLimits n c) (\<lambda>(over, c).
          Inr (if over then freeClientAsync (n, c) else (n, c)))))"

subsection \<open>Queueing bytes\<close>

definition clientHasPendingReplies :: "client \<Rightarrow> bool" where
  "clientHasPendingReplies c \<longleftrightarrow> c_buf c \<noteq> [] \<or> c_reply c \<noteq> []"

definition prepareClientToWrite :: "net \<times> client \<Rightarrow> bool \<times> (net \<times> client)" where
  "prepareClientToWrite = (\<lambda>(n, c).
     if CLIENT_LUA \<in> c_flags c \<or> CLIENT_MODULE \<in> c_flags c then (True, n, c)
     else if CLIENT_REPLY_OFF \<in> c_flags c \<or> CLIENT_REPLY_SKIP \<in> c_flags c then (False, n, c)
     else if (CLIENT_MASTER \<in> c_flags c \<or> CLIENT_CRDT_MASTER \<in> c_flags c)
             \<and> CLIENT_MASTER_FORCE_REPLY \<notin> c_flags c then (False, n, c)
     else if c_fd c \<le> 0 then (False, n, c)
     else if \<not> clientHasPendingReplies c \<and> CLIENT_PENDING_WRITE \<notin> c_flags c
             \<and> (c_replstate c = SLAVE_STATE_NONE
                 \<or> c_replstate c = SLAVE_STATE_ONLINE \<and> \<not> c_repl_put_online_on_ack c)
          then (True, n\<lparr>clients_pending_write := c_id c # clients_pending_write n\<rparr>,
                c\<lparr>c_flags := insert CLIENT_PENDING_WRITE (c_flags c)\<rparr>)
     else (True, n, c))"

definition addReplyToBuffer :: "client \<Rightarrow> string \<Rightarrow> bool \<times> client" where
  "addReplyToBuffer c s =
     (if CLIENT_CLOSE_AFTER_REPLY \<in> c_flags c then (True, c)
      else if c_reply c \<noteq> [] then (False, c)
      else if PROTO_REPLY_CHUNK_BYTES - length (c_buf c) < length s then (False, c)
      else (True, c\<lparr>c_buf := c_buf c @ s\<rparr>))"

text \<open>
  The step the three list functions share: glue the bytes to the last node while it stays within a
  chunk, otherwise start a node.
\<close>

definition reply_list_append :: "client \<Rightarrow> string \<Rightarrow> client" where
  "reply_list_append c s =
     (let nodes = (if c_reply c = [] then [Some s]
                   else case last (c_reply c) of
                          Some tail \<Rightarrow>
                            if length tail + length s \<le> PROTO_REPLY_CHUNK_BYTES
                            then butlast (c_reply c) @ [Some (tail @ s)]
                            else c_reply c @ [Some s]
                        | None \<Rightarrow> c_reply c @ [Some s])
      in c\<lparr>c_reply := nodes, c_reply_bytes := c_reply_bytes c + length s\<rparr>)"

definition addReplyStringToList :: "net \<times> client \<Rightarrow> string \<Rightarrow> (net \<times> client) res" where
  "addReplyStringToList = (\<lambda>(n, c) s.
     if CLIENT_CLOSE_AFTER_REPLY \<in> c_flags c then Inr (n, c)
     else asyncCloseClientOnOutputBufferLimitReached (n, reply_list_append c s))"

definition addReplySdsToList :: "net \<times> client \<Rightarrow> string \<Rightarrow> (net \<times> client) res" where
  "addReplySdsToList = (\<lambda>(n, c) s.
     if CLIENT_CLOSE_AFTER_REPLY \<in> c_flags c then Inr (n, c)
     else asyncCloseClientOnOutputBufferLimitReached (n, reply_list_append c s))"

definition addReplyObjectToList :: "net \<times> client \<Rightarrow> string \<Rightarrow> (net \<times> client) res" where
  "addReplyObjectToList = (\<lambda>(n, c) s.
     if CLIENT_CLOSE_AFTER_REPLY \<in> c_flags c then Inr (n, c)
     else asyncCloseClientOnOutputBufferLimitReached (n, reply_list_append c s))"

text \<open>The text \<open>ll2string\<close> leaves in a buffer of \<open>sz\<close> bytes.\<close>

definition ll_text :: "nat \<Rightarrow> int \<Rightarrow> string" where
  "ll_text sz v = (let (buf, len) = ll2string (replicate sz (CHR 0x00)) v in take len buf)"

definition addReplyString :: "net \<times> client \<Rightarrow> string \<Rightarrow> (net \<times> client) res" where
  "addReplyString st s =
     (case prepareClientToWrite st of
        (False, n, c) \<Rightarrow> Inr (n, c)
      | (True, n, c) \<Rightarrow>
          (case addReplyToBuffer c s of
             (True, c) \<Rightarrow> Inr (n, c)
           | (False, c) \<Rightarrow> addReplyStringToList (n, c) s))"

definition addReplySds :: "net \<times> client \<Rightarrow> string \<Rightarrow> (net \<times> client) res" where
  "addReplySds st s =
     (case prepareClientToWrite st of
        (False, n, c) \<Rightarrow> Inr (n, c)
      | (True, n, c) \<Rightarrow>
          (case addReplyToBuffer c s of
             (True, c) \<Rightarrow> Inr (n, c)
           | (False, c) \<Rightarrow> addReplySdsToList (n, c) s))"

definition addReply :: "net \<times> client \<Rightarrow> robj \<Rightarrow> (net \<times> client) res" where
  "addReply st obj =
     (case prepareClientToWrite st of
        (False, n, c) \<Rightarrow> Inr (n, c)
      | (True, n, c) \<Rightarrow>
          (case obj of
             RawObj s \<Rightarrow>
               (case addReplyToBuffer c s of
                  (True, c) \<Rightarrow> Inr (n, c)
                | (False, c) \<Rightarrow> addReplyObjectToList (n, c) s)
           | IntObj v \<Rightarrow>
               (case (if c_reply c = [] \<and> 32 \<le> PROTO_REPLY_CHUNK_BYTES - length (c_buf c)
                      then addReplyToBuffer c (ll_text 32 v) else (False, c)) of
                  (True, c) \<Rightarrow> Inr (n, c)
                | (False, c) \<Rightarrow>
                    (case addReplyToBuffer c (ll_text 32 v) of
                       (True, c) \<Rightarrow> Inr (n, c)
                     | (False, c) \<Rightarrow> addReplyObjectToList (n, c) (ll_text 32 v)))))"

subsection \<open>Protocol replies\<close>

definition addReplyErrorLength :: "net \<times> client \<Rightarrow> string \<Rightarrow> (net \<times> client) res" where
  "addReplyErrorLength st s =
     bindE (addReplyString st ''-ERR '') (\<lambda>st.
     bindE (addReplyString st s) (\<lambda>st.
     addReplyString st crlf))"

definition addReplyErrorFormat :: "net \<times> client \<Rightarrow> string \<Rightarrow> (net \<times> client) res" where
  "addReplyErrorFormat st s =
     addReplyErrorLength st (map (\<lambda>ch. if ch = CHR 0x0D \<or> ch = CHR 0x0A then CHR '' '' else ch) s)"

definition addReplyStatusLength :: "net \<times> client \<Rightarrow> string \<Rightarrow> (net \<times> client) res" where
  "addReplyStatusLength st s =
     bindE (addReplyString st ''+'') (\<lambda>st.
     bindE (addReplyString st s) (\<lambda>st.
     addReplyString st crlf))"

text \<open>
  \<^verbatim>\<open>shared.mbulkhdr[j]\<close> and \<^verbatim>\<open>shared.bulkhdr[j]\<close> are built once with the format \<^verbatim>\<open>"*%d\r\n"\<close>
  (\<^verbatim>\<open>"$%d\r\n"\<close>), for \<open>j\<close> below 32.
\<close>

definition shared_hdr :: "char \<Rightarrow> int \<Rightarrow> robj" where
  "shared_hdr prefix j = RawObj (prefix # show_int j @ crlf)"

definition addReplyLongLongWithPrefix :: "net \<times> client \<Rightarrow> int \<Rightarrow> char \<Rightarrow> (net \<times> client) res" where
  "addReplyLongLongWithPrefix st ll prefix =
     (if prefix = CHR ''*'' \<and> ll < OBJ_SHARED_BULKHDR_LEN \<and> 0 \<le> ll
      then addReply st (shared_hdr (CHR ''*'') ll)
      else if prefix = CHR ''$'' \<and> ll < OBJ_SHARED_BULKHDR_LEN \<and> 0 \<le> ll
      then addReply st (shared_hdr (CHR ''$'') ll)
      else addReplyString st (prefix # ll_text 127 ll @ crlf))"

definition addReplyLongLong :: "net \<times> client \<Rightarrow> int \<Rightarrow> (net \<times> client) res" where
  "addReplyLongLong st ll =
     (if ll = 0 then addReply st (RawObj ('':0'' @ crlf))
      else if ll = 1 then addReply st (RawObj ('':1'' @ crlf))
      else addReplyLongLongWithPrefix st ll (CHR '':''))"

text \<open>A negative length would index \<^verbatim>\<open>shared.mbulkhdr\<close> below its first entry.\<close>

definition addReplyMultiBulkLen :: "net \<times> client \<Rightarrow> int \<Rightarrow> (net \<times> client) res" where
  "addReplyMultiBulkLen st len =
     (if len < 0 then Inl OutOfBounds
      else if len < OBJ_SHARED_BULKHDR_LEN then addReply st (shared_hdr (CHR ''*'') len)
      else addReplyLongLongWithPrefix st len (CHR ''*''))"

fun radix10_len :: "nat \<Rightarrow> nat" where
  "radix10_len n = (if n div 10 = 0 then 0 else Suc (radix10_len (n div 10)))"

declare radix10_len.simps [simp del]

definition obj_len :: "robj \<Rightarrow> nat" where
  "obj_len obj =
     (case obj of
        RawObj s \<Rightarrow> length s
      | IntObj v \<Rightarrow> (if v < 0 then 2 + radix10_len (nat (- v)) else 1 + radix10_len (nat v)))"

definition addReplyBulkLen :: "net \<times> client \<Rightarrow> robj \<Rightarrow> (net \<times> client) res" where
  "addReplyBulkLen st obj =
     (let len = int (obj_len obj)
      in if len < OBJ_SHARED_BULKHDR_LEN then addReply st (shared_hdr (CHR ''$'') len)
         else addReplyLongLongWithPrefix st len (CHR ''$''))"

definition addReplyBulk :: "net \<times> client \<Rightarrow> robj \<Rightarrow> (net \<times> client) res" where
  "addReplyBulk st obj =
     bindE (addReplyBulkLen st obj) (\<lambda>st.
     bindE (addReply st obj) (\<lambda>st.
     addReply st (RawObj crlf)))"

definition addReplyBulkCBuffer :: "net \<times> client \<Rightarrow> string \<Rightarrow> (net \<times> client) res" where
  "addReplyBulkCBuffer st p =
     bindE (addReplyLongLongWithPrefix st (int (length p)) (CHR ''$'')) (\<lambda>st.
     bindE (addReplyString st p) (\<lambda>st.
     addReply st (RawObj crlf)))"

definition addReplyBulkSds :: "net \<times> client \<Rightarrow> string \<Rightarrow> (net \<times> client) res" where
  "addReplyBulkSds st s =
     bindE (addReplyLongLongWithPrefix st (int (length s)) (CHR ''$'')) (\<lambda>st.
     bindE (addReplySds st s) (\<lambda>st.
     addReply st (RawObj crlf)))"

definition addReplyBulkCString :: "net \<times> client \<Rightarrow> string option \<Rightarrow> (net \<times> client) res" where
  "addReplyBulkCString st s =
     (case s of None \<Rightarrow> addReply st (RawObj (''$-1'' @ crlf))
              | Some s \<Rightarrow> addReplyBulkCBuffer st s)"

definition addReplyBulkLongLong :: "net \<times> client \<Rightarrow> int \<Rightarrow> (net \<times> client) res" where
  "addReplyBulkLongLong st ll = addReplyBulkCBuffer st (ll_text 64 ll)"

text \<open>
  A deferred length: \<open>addDeferredMultiBulkLength\<close> appends the placeholder and returns the position of
  its node (\<^verbatim>\<open>NULL\<close> when the client takes no writes); \<open>setDeferredMultiBulkLength\<close> fills it in and
  glues the next node to it.
\<close>

definition addDeferredMultiBulkLength :: "net \<times> client \<Rightarrow> nat option \<times> (net \<times> client)" where
  "addDeferredMultiBulkLength st =
     (case prepareClientToWrite st of
        (False, n, c) \<Rightarrow> (None, n, c)
      | (True, n, c) \<Rightarrow> (Some (length (c_reply c)), n, c\<lparr>c_reply := c_reply c @ [None]\<rparr>))"

definition setDeferredMultiBulkLength ::
  "net \<times> client \<Rightarrow> nat option \<Rightarrow> int \<Rightarrow> (net \<times> client) res" where
  "setDeferredMultiBulkLength = (\<lambda>(n, c) node len.
     case node of
       None \<Rightarrow> Inr (n, c)
     | Some i \<Rightarrow>
         let hdr = CHR ''*'' # show_int len @ crlf;
             reply = (c_reply c)[i := Some hdr];
             reply = (if Suc i < length reply then
                        case reply ! Suc i of
                          None \<Rightarrow> reply
                        | Some next \<Rightarrow> take i reply @ [Some (hdr @ next)] @ drop (i + 2) reply
                      else reply)
         in asyncCloseClientOnOutputBufferLimitReached
              (n, c\<lparr>c_reply := reply, c_reply_bytes := c_reply_bytes c + length hdr\<rparr>))"

definition copyClientOutputBuffer :: "client \<Rightarrow> client \<Rightarrow> client" where
  "copyClientOutputBuffer dst src =
     dst\<lparr>c_reply := c_reply src, c_buf := c_buf src, c_reply_bytes := c_reply_bytes src\<rparr>"

subsection \<open>Draining to the socket\<close>

text \<open>
  Each \<^verbatim>\<open>write(2)\<close> of the loop takes the next answer of the socket from a list: some bytes were
  taken (never more than offered), the socket would block, or it failed; an exhausted list keeps
  blocking. \<open>may_stop\<close> says, by the number of bytes written so far, whether
  \<^verbatim>\<open>server.maxmemory == 0 || zmalloc_used_memory() < server.maxmemory\<close> holds. The loop returns the
  client, the bytes that reached the socket and the last answer.
\<close>

datatype write_res = Wrote nat | WouldBlock | WriteErr

fun next_write :: "write_res list \<Rightarrow> write_res \<times> write_res list" where
  "next_write [] = (WouldBlock, [])"
| "next_write (w # ws) = (w, ws)"

definition node_bytes :: "string option \<Rightarrow> string" where
  "node_bytes nd = (case nd of None \<Rightarrow> [] | Some s \<Rightarrow> s)"

definition pending_size :: "client \<Rightarrow> nat" where
  "pending_size c = (length (c_buf c) + length (concat (map node_bytes (c_reply c))) - c_sentlen c)
                    + length (c_reply c)"

definition stop_writing :: "(nat \<Rightarrow> bool) \<Rightarrow> client \<Rightarrow> nat \<Rightarrow> bool" where
  "stop_writing may_stop c tot \<longleftrightarrow>
     NET_MAX_WRITES_PER_EVENT < tot \<and> may_stop tot \<and> CLIENT_SLAVE \<notin> c_flags c"

text \<open>One pass of the loop body: \<open>Inr (c, sent, answer, ws, go)\<close>, with \<open>go\<close> false on a \<^verbatim>\<open>break\<close>.\<close>

definition write_step ::
  "client \<Rightarrow> write_res list \<Rightarrow> (client \<times> string \<times> write_res \<times> write_res list \<times> bool) res" where
  "write_step c ws =
     (if c_buf c \<noteq> [] then
        (case next_write ws of
           (Wrote k, ws) \<Rightarrow>
             let avail = drop (c_sentlen c) (c_buf c);
                 k = min k (length avail);
                 c' = c\<lparr>c_sentlen := c_sentlen c + k\<rparr>
             in if k = 0 then Inr (c, [], Wrote 0, ws, False)
                else Inr (if c_sentlen c' = length (c_buf c)
                          then c'\<lparr>c_buf := [], c_sentlen := 0\<rparr> else c',
                          take k avail, Wrote k, ws, True)
         | (r, ws) \<Rightarrow> Inr (c, [], r, ws, False))
      else
        (case hd (c_reply c) of
           None \<Rightarrow> Inl NullDeref
         | Some obj \<Rightarrow>
             if obj = [] then Inr (c\<lparr>c_reply := tl (c_reply c)\<rparr>, [], Wrote 0, ws, True)
             else
               (case next_write ws of
                  (Wrote k, ws) \<Rightarrow>
                    let avail = drop (c_sentlen c) obj;
                        k = min k (length avail);
                        c' = c\<lparr>c_sentlen := c_sentlen c + k\<rparr>
                    in if k = 0 then Inr (c, [], Wrote 0, ws, False)
                       else if c_sentlen c' = length obj
                       then let c' = c'\<lparr>c_reply := tl (c_reply c), c_sentlen := 0,
                                        c_reply_bytes := c_reply_bytes c - length obj\<rparr>
                            in bindE (assertE (c_reply c' = [] \<longrightarrow> c_reply_bytes c' = 0)) (\<lambda>_.
                               Inr (c', take k avail, Wrote k, ws, True))
                       else Inr (c', take k avail, Wrote k, ws, True)
                | (r, ws) \<Rightarrow> Inr (c, [], r, ws, False))))"

lemma write_step_decreases:
  assumes "write_step c ws = Inr (c', out, r, ws', True)" and "clientHasPendingReplies c"
  shows "pending_size c' < pending_size c"
proof (cases "c_buf c = []")
  case False
  then show ?thesis
    using assms(1)
    by (auto simp: write_step_def pending_size_def Let_def split: prod.splits write_res.splits if_splits)
next
  case True
  with assms(2) obtain nd nds where r: "c_reply c = nd # nds"
    by (auto simp: clientHasPendingReplies_def neq_Nil_conv)
  with True assms(1) obtain obj where "nd = Some obj"
    by (cases nd) (simp_all add: write_step_def)
  with True r assms(1) show ?thesis
    by (auto simp: write_step_def pending_size_def node_bytes_def Let_def bindE_eq_Inr
        split: prod.splits write_res.splits if_splits)
qed

function write_loop ::
  "(nat \<Rightarrow> bool) \<Rightarrow> client \<Rightarrow> write_res list \<Rightarrow> string \<Rightarrow> (client \<times> string \<times> write_res) res" where
  "write_loop may_stop c ws out =
     (if clientHasPendingReplies c then
        case write_step c ws of
          Inl f \<Rightarrow> Inl f
        | Inr (c', s, r, ws', go) \<Rightarrow>
            if \<not> go then Inr (c', out, r)
            else if s \<noteq> [] \<and> stop_writing may_stop c' (length (out @ s))
            then Inr (c', out @ s, r)
            else write_loop may_stop c' ws' (out @ s)
      else Inr (c, out, Wrote 0))"
  by pat_completeness auto
termination
  by (relation "measure (\<lambda>(_, c, _, _). pending_size c)") (auto simp: write_step_decreases)

declare write_loop.simps [simp del]

text \<open>
  \<open>writeToClient\<close> returns the server's counters, the bytes that reached the socket, and the client,
  or \<^term>\<open>None\<close> when it was released with \<^verbatim>\<open>freeClient\<close> (the function's \<^verbatim>\<open>C_ERR\<close>).
\<close>

definition writeToClient ::
  "(nat \<Rightarrow> bool) \<Rightarrow> write_res list \<Rightarrow> net \<times> client \<Rightarrow> (net \<times> string \<times> client option) res" where
  "writeToClient may_stop ws = (\<lambda>(n, c).
     bindE (write_loop may_stop c ws []) (\<lambda>(c, out, r).
     let n = n\<lparr>stat_net_output_bytes := stat_net_output_bytes n + length out\<rparr>
     in if r = WriteErr then Inr (n, out, None)
        else
          let c = (if out \<noteq> [] \<and> CLIENT_MASTER \<notin> c_flags c \<and> CLIENT_CRDT_MASTER \<notin> c_flags c
                   then c\<lparr>c_lastinteraction := net_unixtime n\<rparr> else c)
          in if \<not> clientHasPendingReplies c then
               let c = c\<lparr>c_sentlen := 0\<rparr>
               in Inr (n, out, if CLIENT_CLOSE_AFTER_REPLY \<in> c_flags c then None else Some c)
             else Inr (n, out, Some c)))"

subsection \<open>The bytes a client still has to receive\<close>

text \<open>
  \<open>queued\<close> is everything in the two buffers and \<open>pending\<close> the part not yet written. \<open>obuf_wf\<close> is the
  invariant: the static buffer fits, \<^verbatim>\<open>reply_bytes\<close> is the size of the list, no placeholder is left,
  and \<^verbatim>\<open>sentlen\<close> points into the buffer that is being sent.
\<close>

definition list_bytes :: "client \<Rightarrow> string" where
  "list_bytes c = concat (map node_bytes (c_reply c))"

definition queued :: "client \<Rightarrow> string" where
  "queued c = c_buf c @ list_bytes c"

definition pending :: "client \<Rightarrow> string" where
  "pending c = drop (c_sentlen c) (queued c)"

fun sent_ok :: "string \<Rightarrow> string option list \<Rightarrow> nat \<Rightarrow> bool" where
  "sent_ok (ch # buf) reply k \<longleftrightarrow> k \<le> length buf"
| "sent_ok [] (Some s # reply) k \<longleftrightarrow> k = 0 \<or> k < length s"
| "sent_ok [] reply k \<longleftrightarrow> k = 0"

definition obuf_wf :: "client \<Rightarrow> bool" where
  "obuf_wf c \<longleftrightarrow> length (c_buf c) \<le> PROTO_REPLY_CHUNK_BYTES \<and> None \<notin> set (c_reply c)
     \<and> c_reply_bytes c = length (list_bytes c) \<and> sent_ok (c_buf c) (c_reply c) (c_sentlen c)"

lemma sent_ok_zero [simp]: "sent_ok buf reply 0"
  by (cases "(buf, reply, 0 :: nat)" rule: sent_ok.cases) simp_all

lemma sent_ok_buf: "buf \<noteq> [] \<Longrightarrow> sent_ok buf reply k \<longleftrightarrow> k < length buf"
  by (cases buf) auto

lemma sent_ok_append:
  "sent_ok buf [] k \<Longrightarrow> sent_ok (buf @ s) [] k"
  by (cases buf; cases s) auto

lemma sent_ok_list:
  assumes "sent_ok buf reply k" "reply \<noteq> []" and "reply' = reply @ [Some s] \<or>
     (\<exists>t. last reply = Some t \<and> reply' = butlast reply @ [Some (t @ s)])"
  shows "sent_ok buf reply' k"
proof (cases buf)
  case Nil
  then show ?thesis using assms by (cases reply; cases "tl reply"; cases "hd reply") (auto split: if_splits)
next
  case (Cons a list)
  with assms(1) show ?thesis by simp
qed

definition writable :: "client \<Rightarrow> bool" where
  "writable c \<longleftrightarrow> CLIENT_LUA \<in> c_flags c \<or> CLIENT_MODULE \<in> c_flags c
     \<or> CLIENT_REPLY_OFF \<notin> c_flags c \<and> CLIENT_REPLY_SKIP \<notin> c_flags c
       \<and> (CLIENT_MASTER \<notin> c_flags c \<and> CLIENT_CRDT_MASTER \<notin> c_flags c
           \<or> CLIENT_MASTER_FORCE_REPLY \<in> c_flags c) \<and> 0 < c_fd c"

definition ready :: "net \<times> client \<Rightarrow> bool" where
  "ready = (\<lambda>(n, c). writable c \<and> CLIENT_CLOSE_AFTER_REPLY \<notin> c_flags c
     \<and> getClientType c \<noteq> CLIENT_TYPE_CRDT_MASTER \<and> length (client_obuf_limits n) = 5 \<and> obuf_wf c)"

definition out_cap :: nat where
  "out_cap = SIZE_MAX - 1024 * 64"

lemma c_buf_update_same [simp]:
  "getClientType (c\<lparr>c_buf := b\<rparr>) = getClientType c" "writable (c\<lparr>c_buf := b\<rparr>) = writable c"
  by (simp_all add: getClientType_def writable_def)

lemma prepareClientToWrite_cases:
  "prepareClientToWrite (n, c) = (writable c, n, c)
   \<or> prepareClientToWrite (n, c)
      = (writable c, n\<lparr>clients_pending_write := c_id c # clients_pending_write n\<rparr>,
         c\<lparr>c_flags := insert CLIENT_PENDING_WRITE (c_flags c)\<rparr>)"
  unfolding prepareClientToWrite_def writable_def
  by (cases "CLIENT_LUA \<in> c_flags c"; cases "CLIENT_MODULE \<in> c_flags c";
      cases "CLIENT_REPLY_OFF \<in> c_flags c"; cases "CLIENT_REPLY_SKIP \<in> c_flags c";
      cases "CLIENT_MASTER_FORCE_REPLY \<in> c_flags c"; cases "c_fd c \<le> 0") simp_all

lemma prepareClientToWrite_writable:
  obtains n' c' where "prepareClientToWrite (n, c) = (writable c, n', c')"
    and "c_buf c' = c_buf c" "c_reply c' = c_reply c" "c_reply_bytes c' = c_reply_bytes c"
    and "c_sentlen c' = c_sentlen c" "writable c' = writable c"
    and "CLIENT_CLOSE_AFTER_REPLY \<in> c_flags c' \<longleftrightarrow> CLIENT_CLOSE_AFTER_REPLY \<in> c_flags c"
    and "getClientType c' = getClientType c" "client_obuf_limits n' = client_obuf_limits n"
  using prepareClientToWrite_cases [of n c]
proof (elim disjE)
  assume "prepareClientToWrite (n, c) = (writable c, n, c)"
  from that [OF this] show thesis by simp
next
  assume "prepareClientToWrite (n, c)
      = (writable c, n\<lparr>clients_pending_write := c_id c # clients_pending_write n\<rparr>,
         c\<lparr>c_flags := insert CLIENT_PENDING_WRITE (c_flags c)\<rparr>)"
  from that [OF this] show thesis by (simp add: writable_def getClientType_def)
qed

lemma checkClientOutputBufferLimits_total:
  assumes "length (client_obuf_limits n) = 5" "getClientType c \<noteq> CLIENT_TYPE_CRDT_MASTER"
  obtains b t where "checkClientOutputBufferLimits n c
      = Inr (b, c\<lparr>c_obuf_soft_limit_reached_time := t\<rparr>)"
proof -
  have "type_index (getClientType c) < 5" using assms(2) by (cases "getClientType c") auto
  then have "\<exists>b t. checkClientOutputBufferLimits n c
      = Inr (b, c\<lparr>c_obuf_soft_limit_reached_time := t\<rparr>)"
    using assms(1) exI [of "\<lambda>t. c = c\<lparr>c_obuf_soft_limit_reached_time := t\<rparr>"
        "c_obuf_soft_limit_reached_time c"]
    by (auto simp: checkClientOutputBufferLimits_def Let_def)
  with that show ?thesis by blast
qed

lemma asyncClose_keeps:
  assumes "length (client_obuf_limits n) = 5" "getClientType c \<noteq> CLIENT_TYPE_CRDT_MASTER"
    and "c_reply_bytes c < out_cap"
  obtains n' fl t where "asyncCloseClientOnOutputBufferLimitReached (n, c)
      = Inr (n', c\<lparr>c_flags := fl, c_obuf_soft_limit_reached_time := t\<rparr>)"
    and "fl = c_flags c \<or> fl = insert CLIENT_CLOSE_ASAP (c_flags c)"
    and "client_obuf_limits n' = client_obuf_limits n"
proof -
  obtain b t where ck: "checkClientOutputBufferLimits n c
      = Inr (b, c\<lparr>c_obuf_soft_limit_reached_time := t\<rparr>)"
    by (rule checkClientOutputBufferLimits_total [OF assms(1,2)])
  have as: "assertE (c_reply_bytes c < 18446744073709486079) = Inr ()"
    using assms(3) by (simp add: out_cap_def)
  let ?r = "asyncCloseClientOnOutputBufferLimitReached (n, c)"
  consider "c_reply_bytes c = 0 \<or> CLIENT_CLOSE_ASAP \<in> c_flags c"
    | "\<not> (c_reply_bytes c = 0 \<or> CLIENT_CLOSE_ASAP \<in> c_flags c)" "\<not> b \<or> CLIENT_LUA \<in> c_flags c"
    | "\<not> (c_reply_bytes c = 0 \<or> CLIENT_CLOSE_ASAP \<in> c_flags c)" "b" "CLIENT_LUA \<notin> c_flags c"
    by blast
  then show thesis
  proof cases
    case 1
    then have "?r = Inr (n, c)" by (auto simp: asyncCloseClientOnOutputBufferLimitReached_def as)
    then show thesis
      using that [of n "c_obuf_soft_limit_reached_time c" "c_flags c"] by simp
  next
    case 2
    then have "?r = Inr (n, c\<lparr>c_obuf_soft_limit_reached_time := t\<rparr>)"
      by (auto simp: asyncCloseClientOnOutputBufferLimitReached_def as ck freeClientAsync_def)
    then show thesis using that [of n t "c_flags c"] by simp
  next
    case 3
    then have "?r = Inr (n\<lparr>clients_to_close := clients_to_close n @ [c_id c]\<rparr>,
        c\<lparr>c_flags := insert CLIENT_CLOSE_ASAP (c_flags c), c_obuf_soft_limit_reached_time := t\<rparr>)"
      by (simp add: asyncCloseClientOnOutputBufferLimitReached_def as ck freeClientAsync_def)
    then show thesis using that by simp
  qed
qed

lemma list_bytes_append:
  assumes "c' = reply_list_append c s"
  shows "list_bytes c' = list_bytes c @ s" and "c_buf c' = c_buf c" and "c_sentlen c' = c_sentlen c"
    and "c_reply_bytes c' = c_reply_bytes c + length s" and "c_flags c' = c_flags c"
    and "c_fd c' = c_fd c" and "None \<notin> set (c_reply c) \<Longrightarrow> None \<notin> set (c_reply c')"
proof -
  have eq: "xs \<noteq> [] \<Longrightarrow> concat (map node_bytes xs) = concat (map node_bytes (butlast xs)) @ node_bytes (last xs)"
    for xs :: "string option list"
    by (induction xs) auto
  show "list_bytes c' = list_bytes c @ s"
    using eq [of "c_reply c"]
    by (auto simp: assms reply_list_append_def list_bytes_def Let_def node_bytes_def split: option.splits)
qed (auto simp: assms reply_list_append_def Let_def split: option.splits dest: in_set_butlastD)

lemma sent_ok_reply_list_append:
  assumes "sent_ok (c_buf c) (c_reply c) (c_sentlen c)"
  shows "sent_ok (c_buf c) (c_reply (reply_list_append c s)) (c_sentlen c)"
proof (cases "c_reply c = []")
  case True
  with assms show ?thesis
    by (cases "c_buf c") (simp_all add: reply_list_append_def Let_def)
next
  case False
  with assms show ?thesis
    by (intro sent_ok_list [OF assms False, of _ s])
      (auto simp: reply_list_append_def Let_def split: option.splits)
qed

lemma list_append_ready:
  assumes "ready (n, c)" and "length (queued c) + length s < out_cap"
  shows "\<exists>st'. asyncCloseClientOnOutputBufferLimitReached (n, reply_list_append c s) = Inr st'
      \<and> queued (snd st') = queued c @ s \<and> ready st'"
proof -
  let ?c = "reply_list_append c s"
  note app = list_bytes_append [of ?c c s, OF refl]
  have ty: "getClientType ?c = getClientType c" and wr: "writable ?c = writable c"
    by (simp_all add: getClientType_def writable_def app)
  have cap: "c_reply_bytes ?c < out_cap"
    using assms by (simp add: app ready_def obuf_wf_def queued_def)
  have l5: "length (client_obuf_limits n) = 5" and nt: "getClientType ?c \<noteq> CLIENT_TYPE_CRDT_MASTER"
    using assms(1) by (simp_all add: ready_def ty)
  obtain n' fl t where r: "asyncCloseClientOnOutputBufferLimitReached (n, ?c)
      = Inr (n', ?c\<lparr>c_flags := fl, c_obuf_soft_limit_reached_time := t\<rparr>)"
    and fl: "fl = c_flags ?c \<or> fl = insert CLIENT_CLOSE_ASAP (c_flags ?c)"
    and lim: "client_obuf_limits n' = client_obuf_limits n"
    by (rule asyncClose_keeps [OF l5 nt cap])
  let ?d = "?c\<lparr>c_flags := fl, c_obuf_soft_limit_reached_time := t\<rparr>"
  have "getClientType ?d = getClientType c" "writable ?d = writable c"
    using fl by (auto simp: getClientType_def writable_def app)
  moreover have "obuf_wf ?d"
    using assms(1) app sent_ok_reply_list_append [of c s]
    by (auto simp: ready_def obuf_wf_def list_bytes_def)
  moreover have "queued ?d = queued c @ s"
    using app(1,2) by (simp add: queued_def list_bytes_def)
  ultimately show ?thesis
    using r lim fl assms(1) by (auto simp: ready_def app)
qed

subsection \<open>The interface of a byte sink\<close>

text \<open>
  What a caller of the \<^verbatim>\<open>addReply*\<close> functions relies on: below the capacity, an output operation on a
  ready sink returns, appends its bytes and leaves the sink ready. Sequences of such operations append
  the concatenation of their bytes.
\<close>

definition emits :: "('s \<Rightarrow> string) \<Rightarrow> ('s \<Rightarrow> bool) \<Rightarrow> nat \<Rightarrow> ('s \<Rightarrow> 's res) \<Rightarrow> string \<Rightarrow> bool" where
  "emits content rdy cap f b \<longleftrightarrow>
     (\<forall>s. rdy s \<longrightarrow> length (content s) + length b < cap
          \<longrightarrow> (\<exists>s'. f s = Inr s' \<and> content s' = content s @ b \<and> rdy s'))"

lemma emits_bind:
  assumes "emits content rdy cap f a" "emits content rdy cap g b"
  shows "emits content rdy cap (\<lambda>s. bindE (f s) g) (a @ b)"
  unfolding emits_def
proof (intro allI impI)
  fix s assume s: "rdy s" "length (content s) + length (a @ b) < cap"
  then obtain s' where s': "f s = Inr s'" "content s' = content s @ a" "rdy s'"
    using assms(1) unfolding emits_def by fastforce
  with s obtain s'' where "g s' = Inr s''" "content s'' = content s' @ b" "rdy s''"
    using assms(2) unfolding emits_def by fastforce
  with s' show "\<exists>s''. bindE (f s) g = Inr s'' \<and> content s'' = content s @ a @ b \<and> rdy s''" by simp
qed

locale byte_sink =
  fixes content :: "'s \<Rightarrow> string" and rdy :: "'s \<Rightarrow> bool" and cap :: nat
    and put :: "'s \<Rightarrow> 'b \<Rightarrow> 's res" and bytes :: "'b \<Rightarrow> string" and ok :: "'b \<Rightarrow> bool"
  assumes put_emits: "ok b \<Longrightarrow> emits content rdy cap (\<lambda>s. put s b) (bytes b)"
begin

lemma put_appends:
  assumes "ok b" "rdy s" "length (content s) + length (bytes b) < cap"
  shows "\<exists>s'. put s b = Inr s' \<and> content s' = content s @ bytes b \<and> rdy s'"
  using put_emits [OF assms(1)] assms(2,3) by (simp add: emits_def)

lemma puts_emit:
  "(\<And>b. b \<in> set bs \<Longrightarrow> ok b) \<Longrightarrow>
   emits content rdy cap (foldE (\<lambda>b s. put s b) bs) (concat (map bytes bs))"
proof (induction bs)
  case Nil
  then show ?case by (simp add: emits_def)
next
  case (Cons b bs)
  with emits_bind [OF put_emits [of b], of "foldE (\<lambda>b s. put s b) bs"]
  show ?case by simp
qed

end

abbreviation client_emits :: "(net \<times> client \<Rightarrow> (net \<times> client) res) \<Rightarrow> string \<Rightarrow> bool" where
  "client_emits \<equiv> emits (\<lambda>st. queued (snd st)) ready out_cap"

text \<open>The common shape of \<open>addReplyString\<close>, \<open>addReplySds\<close> and \<open>addReply\<close> on a raw string.\<close>

definition queue_bytes :: "net \<times> client \<Rightarrow> string \<Rightarrow> (net \<times> client) res" where
  "queue_bytes st s =
     (case prepareClientToWrite st of
        (False, n, c) \<Rightarrow> Inr (n, c)
      | (True, n, c) \<Rightarrow>
          (case addReplyToBuffer c s of
             (True, c) \<Rightarrow> Inr (n, c)
           | (False, c) \<Rightarrow> addReplyStringToList (n, c) s))"

lemma list_functions_agree:
  "addReplySdsToList = addReplyStringToList" "addReplyObjectToList = addReplyStringToList"
  by (simp_all only: addReplyStringToList_def addReplySdsToList_def addReplyObjectToList_def)

lemma queue_bytes_eq: "addReplyString st s = queue_bytes st s" "addReplySds st s = queue_bytes st s"
  "addReply st (RawObj s) = queue_bytes st s"
  unfolding addReplyString_def addReplySds_def addReply_def queue_bytes_def list_functions_agree
    robj.case
  by simp_all

lemma queue_bytes_emits: "client_emits (\<lambda>st. queue_bytes st s) s"
  unfolding emits_def
proof (intro allI impI)
  fix st assume st: "ready st" "length (queued (snd st)) + length s < out_cap"
  obtain n c where nc: "st = (n, c)" by (cases st)
  obtain n' c' where p: "prepareClientToWrite (n, c) = (writable c, n', c')"
    and same: "c_buf c' = c_buf c" "c_reply c' = c_reply c" "c_reply_bytes c' = c_reply_bytes c"
      "c_sentlen c' = c_sentlen c" "writable c' = writable c"
      "CLIENT_CLOSE_AFTER_REPLY \<in> c_flags c' \<longleftrightarrow> CLIENT_CLOSE_AFTER_REPLY \<in> c_flags c"
      "getClientType c' = getClientType c" "client_obuf_limits n' = client_obuf_limits n"
    by (rule prepareClientToWrite_writable)
  have q: "queued c' = queued c" and rdy: "ready (n', c')"
    using st(1) nc same by (simp_all add: queued_def list_bytes_def ready_def obuf_wf_def)
  have w: "writable c" and cl: "CLIENT_CLOSE_AFTER_REPLY \<notin> c_flags c'" using rdy same by (simp_all add: ready_def)
  show "\<exists>s'. queue_bytes st s = Inr s' \<and> queued (snd s') = queued (snd st) @ s \<and> ready s'"
  proof (cases "c_reply c' = [] \<and> \<not> PROTO_REPLY_CHUNK_BYTES - length (c_buf c') < length s")
    case True
    then have "queue_bytes st s = Inr (n', c'\<lparr>c_buf := c_buf c' @ s\<rparr>)"
      using w cl by (simp add: nc queue_bytes_def p addReplyToBuffer_def)
    moreover have "sent_ok (c_buf c' @ s) (c_reply c') (c_sentlen c')"
      using rdy True by (simp add: ready_def obuf_wf_def sent_ok_append)
    then have "ready (n', c'\<lparr>c_buf := c_buf c' @ s\<rparr>)"
      using rdy True by (auto simp: ready_def obuf_wf_def list_bytes_def)
    ultimately show ?thesis
      using True q by (simp add: nc queued_def list_bytes_def)
  next
    case False
    then have "queue_bytes st s = asyncCloseClientOnOutputBufferLimitReached (n', reply_list_append c' s)"
      using w cl by (auto simp: nc queue_bytes_def p addReplyToBuffer_def addReplyStringToList_def)
    with list_append_ready [OF rdy, of s] st(2) q show ?thesis by (simp add: nc)
  qed
qed

interpretation raw_sink: byte_sink "\<lambda>st. queued (snd st)" ready out_cap addReplyString "\<lambda>s. s" "\<lambda>_. True"
  by unfold_locales (simp add: queue_bytes_eq queue_bytes_emits)

interpretation sds_sink: byte_sink "\<lambda>st. queued (snd st)" ready out_cap addReplySds "\<lambda>s. s" "\<lambda>_. True"
  by unfold_locales (simp add: queue_bytes_eq queue_bytes_emits)

definition obj_text :: "robj \<Rightarrow> string" where
  "obj_text obj = (case obj of RawObj s \<Rightarrow> s | IntObj v \<Rightarrow> show_int v)"

definition obj_ok :: "robj \<Rightarrow> bool" where
  "obj_ok obj \<longleftrightarrow> (case obj of RawObj s \<Rightarrow> int (length s) \<le> LLONG_MAX | IntObj v \<Rightarrow> LLONG_MIN < v \<and> v \<le> LLONG_MAX)"

lemma length_show_int:
  assumes "LLONG_MIN \<le> v" "v \<le> LLONG_MAX"
  shows "length (show_int v) \<le> 20"
proof -
  have "nat v < 10 ^ 19" "nat (- v) < 10 ^ 19" using assms by auto
  then show ?thesis
    using length_show_nat_le [of "nat v" 19] length_show_nat_le [of "nat (- v)" 19]
    by (simp add: show_int_def)
qed

lemma ll_text_show_int:
  "20 < sz \<Longrightarrow> LLONG_MIN \<le> v \<Longrightarrow> v \<le> LLONG_MAX \<Longrightarrow> ll_text sz v = show_int v"
  using length_show_int [of v] by (simp add: ll_text_def ll2string_writes_int)

lemma radix10_len_length: "Suc (radix10_len n) = length (show_nat n)"
proof (induction n rule: radix10_len.induct)
  case (1 n)
  then show ?case
    by (cases "n < 10") (simp_all add: radix10_len.simps [of n] show_nat_small show_nat_large)
qed

lemma obj_len_text: "obj_len obj = length (obj_text obj)"
  using radix10_len_length [of "nat (- (case obj of IntObj v \<Rightarrow> v))"]
    radix10_len_length [of "nat (case obj of IntObj v \<Rightarrow> v)"]
  by (cases obj) (simp_all add: obj_len_def obj_text_def show_int_def)

lemma addReply_emits: "obj_ok obj \<Longrightarrow> client_emits (\<lambda>st. addReply st obj) (obj_text obj)"
proof (cases obj)
  case (RawObj s)
  then show ?thesis using queue_bytes_emits [of s] by (simp add: obj_text_def queue_bytes_eq)
next
  case (IntObj v)
  assume "obj_ok obj"
  then have "ll_text 32 v = show_int v" using IntObj by (simp add: obj_ok_def ll_text_show_int)
  then have "addReply st obj = queue_bytes st (show_int v)" for st
    by (auto simp: IntObj addReply_def queue_bytes_def list_functions_agree addReplyToBuffer_def
        split: prod.splits bool.splits)
  then show ?thesis using queue_bytes_emits [of "show_int v"] by (simp add: IntObj obj_text_def)
qed

interpretation obj_sink: byte_sink "\<lambda>st. queued (snd st)" ready out_cap addReply obj_text obj_ok
  by unfold_locales (rule addReply_emits)

subsection \<open>Replies in protocol format\<close>

definition hdr_text :: "char \<Rightarrow> int \<Rightarrow> string" where
  "hdr_text prefix k = prefix # show_int k @ crlf"

definition bulk_text :: "string \<Rightarrow> string" where
  "bulk_text s = hdr_text (CHR ''$'') (int (length s)) @ s @ crlf"

definition command_text :: "string list \<Rightarrow> string" where
  "command_text argv = hdr_text (CHR ''*'') (int (length argv)) @ concat (map bulk_text argv)"

lemma raw_emits: "int (length s) \<le> LLONG_MAX \<Longrightarrow> client_emits (\<lambda>st. addReply st (RawObj s)) s"
  using addReply_emits [of "RawObj s"] by (simp add: obj_ok_def obj_text_def)

lemma shared_hdr_emits: "client_emits (\<lambda>st. addReply st (shared_hdr p k)) (hdr_text p k)"
  using queue_bytes_emits [of "hdr_text p k"]
  by (simp add: shared_hdr_def hdr_text_def queue_bytes_eq)

lemma addReplyLongLongWithPrefix_emits:
  assumes "LLONG_MIN \<le> k" "k \<le> LLONG_MAX"
  shows "client_emits (\<lambda>st. addReplyLongLongWithPrefix st k p) (hdr_text p k)"
proof (cases "(p = CHR ''*'' \<or> p = CHR ''$'') \<and> 0 \<le> k \<and> k < OBJ_SHARED_BULKHDR_LEN")
  case True
  then have "addReplyLongLongWithPrefix st k p = addReply st (shared_hdr p k)" for st
    by (auto simp: addReplyLongLongWithPrefix_def)
  then show ?thesis using shared_hdr_emits by simp
next
  case False
  then have "addReplyLongLongWithPrefix st k p = addReplyString st (hdr_text p k)" for st
    using assms by (auto simp: addReplyLongLongWithPrefix_def ll_text_show_int hdr_text_def)
  then show ?thesis using raw_sink.put_emits by simp
qed

lemma addReplyMultiBulkLen_emits:
  assumes "0 \<le> k" "k \<le> LLONG_MAX"
  shows "client_emits (\<lambda>st. addReplyMultiBulkLen st k) (hdr_text (CHR ''*'') k)"
  using assms shared_hdr_emits [of "CHR ''*''" k] addReplyLongLongWithPrefix_emits [of k "CHR ''*''"]
  by (cases "k < OBJ_SHARED_BULKHDR_LEN") (simp_all add: addReplyMultiBulkLen_def)

lemma addReplyBulk_emits:
  assumes "obj_ok obj"
  shows "client_emits (\<lambda>st. addReplyBulk st obj) (bulk_text (obj_text obj))"
proof -
  let ?k = "int (obj_len obj)"
  have le: "?k \<le> LLONG_MAX"
  proof (cases obj)
    case (RawObj s)
    then show ?thesis using assms by (simp add: obj_ok_def obj_len_def)
  next
    case (IntObj v)
    then have "length (show_int v) \<le> 20"
      using assms by (intro length_show_int) (simp_all add: obj_ok_def)
    then show ?thesis by (simp add: IntObj obj_len_text obj_text_def)
  qed
  have "client_emits (\<lambda>st. addReplyBulkLen st obj) (hdr_text (CHR ''$'') ?k)"
    using le shared_hdr_emits [of "CHR ''$''" ?k] addReplyLongLongWithPrefix_emits [of ?k "CHR ''$''"]
    by (cases "?k < OBJ_SHARED_BULKHDR_LEN") (simp_all add: addReplyBulkLen_def Let_def)
  note 1 = this
  note 2 = addReply_emits [OF assms]
  have 3: "client_emits (\<lambda>st. addReply st (RawObj crlf)) crlf" by (rule raw_emits) simp
  from emits_bind [OF 1 emits_bind [OF 2 3]] show ?thesis
    by (simp add: addReplyBulk_def bulk_text_def obj_len_text)
qed

interpretation bulk_sink:
  byte_sink "\<lambda>st. queued (snd st)" ready out_cap addReplyBulk "\<lambda>obj. bulk_text (obj_text obj)" obj_ok
  by unfold_locales (rule addReplyBulk_emits)

lemma addReplyBulkCBuffer_emits:
  assumes "int (length p) \<le> LLONG_MAX"
  shows "client_emits (\<lambda>st. addReplyBulkCBuffer st p) (bulk_text p)"
proof -
  have 1: "client_emits (\<lambda>st. addReplyLongLongWithPrefix st (int (length p)) (CHR ''$''))
      (hdr_text (CHR ''$'') (int (length p)))"
    using assms by (intro addReplyLongLongWithPrefix_emits) simp_all
  note 2 = raw_sink.put_emits [OF TrueI, of p]
  have 3: "client_emits (\<lambda>st. addReply st (RawObj crlf)) crlf" by (rule raw_emits) simp
  from emits_bind [OF 1 emits_bind [OF 2 3]] show ?thesis
    by (simp add: addReplyBulkCBuffer_def bulk_text_def)
qed

subsection \<open>Draining loses nothing\<close>

lemma split_at:
  assumes "i + k \<le> length xs"
  shows "drop i (xs @ ys) = take k (drop i xs) @ drop (i + k) (xs @ ys)"
proof -
  have "drop i xs = take k (drop i xs) @ drop (i + k) xs"
    using append_take_drop_id [of k "drop i xs"] by (simp add: add.commute)
  with assms show ?thesis by simp
qed

lemma write_step_buf:
  assumes "obuf_wf c" "c_buf c \<noteq> []" "next_write ws = (Wrote m, ws')"
  shows "\<exists>c' s r go. write_step c ws = Inr (c', s, r, ws', go)
           \<and> obuf_wf c' \<and> pending c = s @ pending c' \<and> c_flags c' = c_flags c
           \<and> (go \<or> s = [] \<and> c' = c)"
proof -
  have sent: "c_sentlen c < length (c_buf c)" using assms by (simp add: obuf_wf_def sent_ok_buf)
  define k where "k = min m (length (c_buf c) - c_sentlen c)"
  have k: "c_sentlen c + k \<le> length (c_buf c)" using sent by (simp add: k_def)
  have p: "pending c = take k (drop (c_sentlen c) (c_buf c)) @ drop (c_sentlen c + k) (queued c)"
    unfolding pending_def queued_def by (rule split_at [OF k])
  consider "k = 0" | "k \<noteq> 0" "c_sentlen c + k = length (c_buf c)"
    | "k \<noteq> 0" "c_sentlen c + k < length (c_buf c)" using k by linarith
  then show ?thesis
  proof cases
    case 1
    then have "write_step c ws = Inr (c, [], Wrote 0, ws', False)"
      using assms by (simp add: write_step_def Let_def k_def)
    with assms(1) show ?thesis by (simp add: ex_bool_eq)
  next
    case 2
    then have "write_step c ws = Inr (c\<lparr>c_buf := [], c_sentlen := 0\<rparr>,
        take k (drop (c_sentlen c) (c_buf c)), Wrote k, ws', True)"
      using assms by (simp add: write_step_def Let_def flip: k_def)
    with 2 assms(1) p show ?thesis
      by (simp add: ex_bool_eq obuf_wf_def pending_def queued_def list_bytes_def)
  next
    case 3
    then have "write_step c ws = Inr (c\<lparr>c_sentlen := c_sentlen c + k\<rparr>,
        take k (drop (c_sentlen c) (c_buf c)), Wrote k, ws', True)"
      using assms by (simp add: write_step_def Let_def flip: k_def)
    with 3 assms(1,2) p show ?thesis
      by (simp add: ex_bool_eq obuf_wf_def pending_def queued_def list_bytes_def sent_ok_buf)
  qed
qed

lemma write_step_node:
  assumes "obuf_wf c" "c_buf c = []" "c_reply c = Some obj # nds" "obj \<noteq> []"
    "next_write ws = (Wrote m, ws')"
  shows "\<exists>c' s r go. write_step c ws = Inr (c', s, r, ws', go)
           \<and> obuf_wf c' \<and> pending c = s @ pending c' \<and> c_flags c' = c_flags c
           \<and> (go \<or> s = [] \<and> c' = c)"
proof -
  have sent: "c_sentlen c < length obj" using assms by (auto simp: obuf_wf_def)
  define k where "k = min m (length obj - c_sentlen c)"
  let ?rest = "concat (map node_bytes nds)"
  have q: "queued c = obj @ ?rest" using assms by (simp add: queued_def list_bytes_def node_bytes_def)
  have wf: "None \<notin> set nds" "c_reply_bytes c = length obj + length ?rest"
    using assms by (auto simp: obuf_wf_def list_bytes_def node_bytes_def)
  have k: "c_sentlen c + k \<le> length obj" using sent by (simp add: k_def)
  have p: "pending c = take k (drop (c_sentlen c) obj) @ drop (c_sentlen c + k) (queued c)"
    unfolding pending_def q by (rule split_at [OF k])
  consider "k = 0" | "k \<noteq> 0" "c_sentlen c + k = length obj" | "k \<noteq> 0" "c_sentlen c + k < length obj"
    using k by linarith
  then show ?thesis
  proof cases
    case 1
    then have "write_step c ws = Inr (c, [], Wrote 0, ws', False)"
      using assms by (simp add: write_step_def Let_def k_def)
    with assms(1) show ?thesis by (simp add: ex_bool_eq)
  next
    case 2
    then have "write_step c ws = Inr (c\<lparr>c_reply := nds, c_sentlen := 0, c_reply_bytes := length ?rest\<rparr>,
        take k (drop (c_sentlen c) obj), Wrote k, ws', True)"
      using assms wf by (simp add: write_step_def Let_def flip: k_def)
    with 2 assms(2) wf p q show ?thesis
      by (simp add: ex_bool_eq obuf_wf_def pending_def queued_def list_bytes_def)
  next
    case 3
    then have "write_step c ws = Inr (c\<lparr>c_sentlen := c_sentlen c + k\<rparr>,
        take k (drop (c_sentlen c) obj), Wrote k, ws', True)"
      using assms by (simp add: write_step_def Let_def flip: k_def)
    with 3 assms(1,2,3) p show ?thesis
      by (simp add: ex_bool_eq obuf_wf_def pending_def queued_def list_bytes_def)
  qed
qed

lemma write_step_ok:
  assumes "obuf_wf c" "clientHasPendingReplies c"
  shows "\<exists>c' s r ws' go. write_step c ws = Inr (c', s, r, ws', go)
           \<and> obuf_wf c' \<and> pending c = s @ pending c' \<and> c_flags c' = c_flags c
           \<and> (go \<or> s = [] \<and> c' = c)"
proof -
  obtain w ws' where w: "next_write ws = (w, ws')" by (cases "next_write ws")
  consider "c_buf c \<noteq> []" | obj nds where "c_buf c = []" "c_reply c = Some obj # nds"
    using assms by (cases "c_reply c"; cases "hd (c_reply c)") (auto simp: clientHasPendingReplies_def obuf_wf_def)
  then show ?thesis
  proof cases
    case 1
    then show ?thesis
      using assms(1) w write_step_buf [OF assms(1) 1, of ws]
      by (cases w) (blast, simp_all add: write_step_def ex_bool_eq)
  next
    case 2
    show ?thesis
    proof (cases "obj = []")
      case True
      with 2 assms(1) show ?thesis
        by (simp add: ex_bool_eq write_step_def obuf_wf_def pending_def queued_def list_bytes_def node_bytes_def)
    next
      case False
      then show ?thesis
        using 2 assms(1) w write_step_node [OF assms(1) 2 False, of ws]
        by (cases w) (blast, simp_all add: write_step_def ex_bool_eq)
    qed
  qed
qed

lemma write_loop_ok:
  "obuf_wf c \<Longrightarrow> \<exists>c' s r. write_loop may_stop c ws out = Inr (c', out @ s, r)
     \<and> obuf_wf c' \<and> pending c = s @ pending c' \<and> c_flags c' = c_flags c"
proof (induction may_stop c ws out rule: write_loop.induct)
  case (1 may_stop c ws out)
  show ?case
  proof (cases "clientHasPendingReplies c")
    case False
    with "1.prems" show ?thesis by (subst write_loop.simps) simp
  next
    case True
    then obtain c' s r ws' go where st: "write_step c ws = Inr (c', s, r, ws', go)"
      and c': "obuf_wf c'" "pending c = s @ pending c'" "c_flags c' = c_flags c"
      and stop: "go \<or> s = [] \<and> c' = c"
      using write_step_ok [OF "1.prems"] by blast
    consider "\<not> go" | "go" "s \<noteq> [] \<and> stop_writing may_stop c' (length (out @ s))"
      | "go" "\<not> (s \<noteq> [] \<and> stop_writing may_stop c' (length (out @ s)))" by blast
    then show ?thesis
    proof cases
      case 1
      with True st stop "1.prems" show ?thesis by (subst write_loop.simps) simp
    next
      case 2
      with True st c' show ?thesis by (subst write_loop.simps) simp
    next
      case 3
      from "1.IH" [OF True st refl refl refl refl _ 3(2)] 3(1) c'(1)
      obtain d t q where "write_loop may_stop c' ws' (out @ s) = Inr (d, (out @ s) @ t, q)"
        "obuf_wf d" "pending c' = t @ pending d" "c_flags d = c_flags c'" by auto
      with True st 3 c' show ?thesis by (subst write_loop.simps) simp
    qed
  qed
qed

lemma write_step_progress:
  assumes "obuf_wf c" "clientHasPendingReplies c" "ws \<noteq> []" "hd ws = Wrote (Suc k)"
  shows "\<exists>c' s r ws'. write_step c ws = Inr (c', s, r, ws', True) \<and> (ws' = ws \<or> ws' = tl ws)"
proof (cases "c_buf c = []")
  case False
  then have "c_sentlen c < length (c_buf c)" using assms(1) by (simp add: obuf_wf_def sent_ok_buf)
  with False assms(3,4) show ?thesis by (cases ws) (auto simp: write_step_def Let_def)
next
  case True
  with assms(1,2) obtain obj nds where r: "c_reply c = Some obj # nds"
    by (cases "c_reply c"; cases "hd (c_reply c)") (auto simp: clientHasPendingReplies_def obuf_wf_def)
  have rb: "c_reply_bytes c = length obj + length (concat (map node_bytes nds))"
    and sent: "obj \<noteq> [] \<Longrightarrow> c_sentlen c < length obj"
    using assms(1) True r by (auto simp: obuf_wf_def list_bytes_def node_bytes_def)
  show ?thesis
    using True r rb sent assms(3,4) by (cases ws; cases "obj = []") (auto simp: write_step_def Let_def)
qed

lemma write_loop_drains:
  assumes "obuf_wf c" "CLIENT_SLAVE \<in> c_flags c" "pending_size c \<le> length ws"
    and "\<And>w. w \<in> set ws \<Longrightarrow> \<exists>k. w = Wrote (Suc k)"
  shows "\<exists>c'. write_loop may_stop c ws out = Inr (c', out @ pending c, Wrote 0)
     \<and> c_flags c' = c_flags c \<and> \<not> clientHasPendingReplies c'"
  using assms
proof (induction may_stop c ws out rule: write_loop.induct)
  case (1 may_stop c ws out)
  show ?case
  proof (cases "clientHasPendingReplies c")
    case False
    then have "pending c = []" by (simp add: clientHasPendingReplies_def pending_def queued_def list_bytes_def)
    with False show ?thesis by (subst write_loop.simps) simp
  next
    case True
    then have "0 < pending_size c"
      using "1.prems"(1) by (cases "c_buf c") (auto simp: pending_size_def clientHasPendingReplies_def obuf_wf_def)
    with "1.prems"(3) have ne: "ws \<noteq> []" by auto
    then obtain k where hd: "hd ws = Wrote (Suc k)" using "1.prems"(4) [of "hd ws"] by auto
    obtain c' s r ws' where st: "write_step c ws = Inr (c', s, r, ws', True)" and ws': "ws' = ws \<or> ws' = tl ws"
      using write_step_progress [OF "1.prems"(1) True ne hd] by blast
    have c': "obuf_wf c'" "pending c = s @ pending c'" "c_flags c' = c_flags c"
      using write_step_ok [OF "1.prems"(1) True, of ws] st by auto
    have ns: "\<not> (s \<noteq> [] \<and> stop_writing may_stop c' (length (out @ s)))"
      using c'(3) "1.prems"(2) by (simp add: stop_writing_def)
    have len: "pending_size c' \<le> length ws'"
      using write_step_decreases [OF st True] "1.prems"(3) ws' by auto
    have el: "\<And>w. w \<in> set ws' \<Longrightarrow> \<exists>k. w = Wrote (Suc k)"
      using "1.prems"(4) ws' ne by (auto dest: list.set_sel(2))
    from "1.IH" [OF True st refl refl refl refl _ ns c'(1) _ len el] "1.prems"(2) c'(3)
    obtain d where "write_loop may_stop c' ws' (out @ s) = Inr (d, (out @ s) @ pending c', Wrote 0)"
      "c_flags d = c_flags c'" "\<not> clientHasPendingReplies d" by auto
    with True st ns c' show ?thesis by (subst write_loop.simps) auto
  qed
qed

subsection \<open>Properties\<close>

text \<open>A client with nothing queued, for the examples.\<close>

definition blank_client :: client where
  "blank_client = \<lparr>c_id = 7, c_fd = 9, c_flags = {}, c_buf = [], c_reply = [], c_reply_bytes = 0,
     c_sentlen = 0, c_obuf_soft_limit_reached_time = 0, c_lastinteraction = 0,
     c_replstate = SLAVE_STATE_NONE, c_repl_put_online_on_ack = False, c_repl_ack_time = 0,
     c_psync_initial_offset = 0, c_slave_capa = {}, c_querybuf = [], c_reqtype = 0, c_argv = [],
     c_multibulklen = 0, c_bulklen = - 1, c_repldbfd = - 1, c_repldboff = 0, c_repldbsize = 0, c_replpreamble = None,
     c_repl_ack_off = 0, c_slave_listening_port = 0, c_slave_ip = [], c_vectorClock = [], c_filterVectorClock = []\<rparr>"

definition blank_net :: net where
  "blank_net = \<lparr>clients_pending_write = [], clients_to_close = [],
     client_obuf_limits = replicate 5 \<lparr>hard_limit_bytes = 0, soft_limit_bytes = 0, soft_limit_seconds = 0\<rparr>,
     stat_net_output_bytes = 0, net_unixtime = 1000\<rparr>"

lemmas blank_defs = blank_client_def blank_net_def

text \<open>
  C27. Refinement of a byte stream: on a client that takes writes, each of \<open>addReplyString\<close>,
  \<open>addReplySds\<close>, \<open>addReply\<close> and \<open>addReplyBulk\<close> returns without a fault, appends exactly its bytes to
  what the client is owed, wherever they end up (static buffer, last node or new node), and keeps the
  invariant of the buffers; \<open>addReplyBulk\<close> appends the protocol's bulk format.
\<close>

theorem client_output_refines_stream:
  assumes "ready st" and "obj_ok obj"
    and "length (queued (snd st)) + length (bulk_text (obj_text obj)) < out_cap"
  shows "(\<exists>st'. addReplyString st (obj_text obj) = Inr st'
            \<and> queued (snd st') = queued (snd st) @ obj_text obj \<and> ready st')
       \<and> (\<exists>st'. addReplySds st (obj_text obj) = Inr st'
            \<and> queued (snd st') = queued (snd st) @ obj_text obj \<and> ready st')
       \<and> (\<exists>st'. addReply st obj = Inr st'
            \<and> queued (snd st') = queued (snd st) @ obj_text obj \<and> ready st')
       \<and> (\<exists>st'. addReplyBulk st obj = Inr st'
            \<and> queued (snd st') = queued (snd st) @ bulk_text (obj_text obj) \<and> ready st')"
proof -
  have "length (queued (snd st)) + length (obj_text obj) < out_cap"
    using assms(3) by (simp add: bulk_text_def)
  with assms show ?thesis
    using raw_sink.put_appends sds_sink.put_appends obj_sink.put_appends bulk_sink.put_appends by simp
qed

lemma blank_ready: "ready (blank_net, blank_client)"
  by (simp add: ready_def blank_defs writable_def getClientType_def obuf_wf_def list_bytes_def)

theorem client_output_refines_stream_witness:
  "ready (blank_net, blank_client) \<and> obj_ok (RawObj ''PING'')
   \<and> (\<exists>st'. addReplyBulk (blank_net, blank_client) (RawObj ''PING'') = Inr st'
        \<and> queued (snd st') = bulk_text ''PING'' \<and> ready st')"
proof -
  have q: "queued blank_client = []" by (simp add: queued_def list_bytes_def blank_client_def)
  have l: "length (bulk_text ''PING'') < out_cap"
    by (simp add: bulk_text_def hdr_text_def show_int_def show_nat_small out_cap_def)
  show ?thesis
    using client_output_refines_stream [of "(blank_net, blank_client)" "RawObj ''PING''"] blank_ready q l
    by (simp add: obj_ok_def obj_text_def)
qed

text \<open>
  C25. Safety of \<open>writeToClient\<close>: whatever the socket answers (short writes, blocking, errors), the bytes
  that reach it followed by what is still pending afterwards are exactly what was pending before, in
  order; nothing is lost, repeated or reordered, no fault occurs (in particular the assertion that
  \<^verbatim>\<open>reply_bytes\<close> is zero once the list is empty holds), and the invariant is kept. A client that is
  released received a prefix.
\<close>

theorem writeToClient_no_loss:
  assumes "obuf_wf c"
  shows "\<exists>n' sent oc. writeToClient may_stop ws (n, c) = Inr (n', sent, oc)
     \<and> stat_net_output_bytes n' = stat_net_output_bytes n + length sent
     \<and> (case oc of Some c' \<Rightarrow> obuf_wf c' \<and> pending c = sent @ pending c'
                  | None \<Rightarrow> \<exists>rest. pending c = sent @ rest)"
proof -
  obtain c' s r where l: "write_loop may_stop c ws [] = Inr (c', s, r)"
    and c': "obuf_wf c'" "pending c = s @ pending c'"
    using write_loop_ok [OF assms, of may_stop ws "[]"] by auto
  have z: "sent_ok (c_buf c') (c_reply c') 0" by simp
  show ?thesis
    using l c' z
    by (auto simp: writeToClient_def Let_def obuf_wf_def pending_def queued_def list_bytes_def
        clientHasPendingReplies_def)
qed

theorem writeToClient_no_loss_witness:
  "obuf_wf (blank_client\<lparr>c_buf := ''abc''\<rparr>)
   \<and> (\<exists>n' sent oc. writeToClient (\<lambda>_. True) [Wrote 2] (blank_net, blank_client\<lparr>c_buf := ''abc''\<rparr>)
        = Inr (n', sent, oc)
      \<and> stat_net_output_bytes n' = length sent
      \<and> (case oc of Some c' \<Rightarrow> obuf_wf c' \<and> pending (blank_client\<lparr>c_buf := ''abc''\<rparr>) = sent @ pending c'
                   | None \<Rightarrow> \<exists>rest. pending (blank_client\<lparr>c_buf := ''abc''\<rparr>) = sent @ rest))"
proof -
  have wf: "obuf_wf (blank_client\<lparr>c_buf := ''abc''\<rparr>)"
    by (simp add: obuf_wf_def blank_client_def list_bytes_def)
  have "stat_net_output_bytes blank_net = 0" by (simp add: blank_net_def)
  with wf writeToClient_no_loss [OF wf, of "\<lambda>_. True" "[Wrote 2]" blank_net] show ?thesis by simp
qed

text \<open>
  C26. Liveness of \<open>writeToClient\<close>: for a replica (\<^verbatim>\<open>CLIENT_SLAVE\<close>, which the per-event write limit does
  not cover) and a socket that takes at least one byte on every call, as many calls as there are bytes
  and nodes pending deliver everything.
\<close>

theorem writeToClient_drains_slave:
  assumes "obuf_wf c" "CLIENT_SLAVE \<in> c_flags c" "CLIENT_CLOSE_AFTER_REPLY \<notin> c_flags c"
    and "pending_size c \<le> length ks"
  shows "\<exists>n' c'. writeToClient may_stop (map (\<lambda>k. Wrote (Suc k)) ks) (n, c) = Inr (n', pending c, Some c')
     \<and> \<not> clientHasPendingReplies c' \<and> c_sentlen c' = 0"
proof -
  obtain c' where "write_loop may_stop c (map (\<lambda>k. Wrote (Suc k)) ks) [] = Inr (c', pending c, Wrote 0)"
    and "c_flags c' = c_flags c" "\<not> clientHasPendingReplies c'"
    using write_loop_drains [of c "map (\<lambda>k. Wrote (Suc k)) ks" may_stop "[]"] assms by auto
  with assms(3) show ?thesis
    by (auto simp: writeToClient_def Let_def clientHasPendingReplies_def)
qed

theorem writeToClient_drains_slave_witness:
  "\<exists>n' c'. writeToClient (\<lambda>_. True) (map (\<lambda>k. Wrote (Suc k)) [0, 5, 0])
       (blank_net, blank_client\<lparr>c_buf := ''abc'', c_flags := {CLIENT_SLAVE}\<rparr>)
     = Inr (n', ''abc'', Some c') \<and> \<not> clientHasPendingReplies c' \<and> c_sentlen c' = 0"
  using writeToClient_drains_slave
    [of "blank_client\<lparr>c_buf := ''abc'', c_flags := {CLIENT_SLAVE}\<rparr>" "[0, 5, 0]" "\<lambda>_. True" blank_net]
  by (simp add: obuf_wf_def blank_client_def list_bytes_def pending_def queued_def pending_size_def)

text \<open>
  A reply to a peer master that does not fit the static buffer reads past the table of limits:
  \<open>getClientType\<close> yields \<^verbatim>\<open>CLIENT_TYPE_CRDT_MASTER\<close> (5), \<^verbatim>\<open>client_obuf_limits\<close> has five entries, and
  only \<^verbatim>\<open>CLIENT_TYPE_MASTER\<close> is redirected to the normal class.
\<close>

theorem crdt_master_reply_out_of_bounds:
  assumes "c_flags c = {CLIENT_CRDT_MASTER, CLIENT_MASTER_FORCE_REPLY, CLIENT_PENDING_WRITE}"
    and "0 < c_fd c" "obuf_wf c" "c_reply c = []" "length (client_obuf_limits n) = 5"
    and "PROTO_REPLY_CHUNK_BYTES < length (c_buf c) + length s" "length s < out_cap" "s \<noteq> []"
  shows "addReplyString (n, c) s = Inl OutOfBounds"
proof -
  have p: "prepareClientToWrite (n, c) = (True, n, c)"
    using assms(1,2) by (simp add: prepareClientToWrite_def)
  have b: "addReplyToBuffer c s = (False, c)"
  proof -
    have "PROTO_REPLY_CHUNK_BYTES - length (c_buf c) < length s" using assms(6,8) length_greater_0_conv [of s]
      by linarith
    with assms(1,4) show ?thesis by (simp add: addReplyToBuffer_def)
  qed
  let ?c = "reply_list_append c s"
  have rb: "c_reply_bytes ?c = length s"
    using assms(3,4) by (simp add: reply_list_append_def Let_def obuf_wf_def list_bytes_def)
  have fl: "c_flags ?c = c_flags c" by (simp add: list_bytes_append [OF refl])
  have "checkClientOutputBufferLimits n ?c = Inl OutOfBounds"
    using assms(1,5) fl by (simp add: checkClientOutputBufferLimits_def getClientType_def Let_def)
  then have "asyncCloseClientOnOutputBufferLimitReached (n, ?c) = Inl OutOfBounds"
    using rb fl assms(1,7,8) by (simp add: asyncCloseClientOnOutputBufferLimitReached_def out_cap_def)
  then show ?thesis
    using p b assms(1) by (simp add: addReplyString_def addReplyStringToList_def)
qed

theorem crdt_master_reply_out_of_bounds_witness:
  "addReplyString (blank_net, blank_client\<lparr>c_buf := replicate 16384 (CHR ''x''),
      c_flags := {CLIENT_CRDT_MASTER, CLIENT_MASTER_FORCE_REPLY, CLIENT_PENDING_WRITE}\<rparr>) ''a''
   = Inl OutOfBounds"
proof -
  have "addReplyString (blank_net, blank_client\<lparr>c_buf := xs,
      c_flags := {CLIENT_CRDT_MASTER, CLIENT_MASTER_FORCE_REPLY, CLIENT_PENDING_WRITE}\<rparr>) ''a''
    = Inl OutOfBounds" if "length xs = 16384" for xs
  proof (rule crdt_master_reply_out_of_bounds)
    show "obuf_wf (blank_client\<lparr>c_buf := xs,
        c_flags := {CLIENT_CRDT_MASTER, CLIENT_MASTER_FORCE_REPLY, CLIENT_PENDING_WRITE}\<rparr>)"
      using that by (simp add: obuf_wf_def blank_client_def list_bytes_def)
  qed (use that in \<open>simp_all add: blank_client_def blank_net_def out_cap_def\<close>)
  then show ?thesis by (simp only: length_replicate)
qed

end
