(* ===== verification/Resp_Parser.thy ===== *)
theory Resp_Parser
  imports Client_Output Sds_Strings
begin

section \<open>The request parser\<close>

text \<open>
  The input side of \<^verbatim>\<open>src/src/networking.c\<close>: \<open>processMultibulkBuffer\<close> and \<open>processInlineBuffer\<close> turn
  the bytes of \<^verbatim>\<open>querybuf\<close> into an argument vector. Both are called again whenever more bytes have
  arrived, so what they leave in the client is the state of an incremental parser: \<^verbatim>\<open>multibulklen\<close>
  arguments are missing and \<^verbatim>\<open>bulklen\<close> is the length of the next one, or -1 while its header has not
  been read. The functions return \<^verbatim>\<open>C_OK\<close> as \<^term>\<open>True\<close>. \<open>proto_max_bulk_len\<close> is a parameter.
\<close>

abbreviation PROTO_INLINE_MAX_SIZE :: nat where "PROTO_INLINE_MAX_SIZE \<equiv> 65536"
abbreviation PROTO_MBULK_BIG_ARG :: int where "PROTO_MBULK_BIG_ARG \<equiv> 32768"
abbreviation cr :: char where "cr \<equiv> CHR 0x0D"
abbreviation lf :: char where "lf \<equiv> CHR 0x0A"

text \<open>\<^verbatim>\<open>strchr(s, ch)\<close>: the distance to the first \<open>ch\<close> before the terminating zero byte.\<close>

fun strchr_pos :: "string \<Rightarrow> char \<Rightarrow> nat option" where
  "strchr_pos [] ch = None"
| "strchr_pos (x # s) ch =
     (if x = ch then Some 0 else if x = CHR 0x00 then None else map_option Suc (strchr_pos s ch))"

definition resetClient :: "bool \<Rightarrow> client \<Rightarrow> client" where
  "resetClient prev_is_asking c =
     (let c = c\<lparr>c_argv := [], c_reqtype := 0, c_multibulklen := 0, c_bulklen := - 1\<rparr>;
          fl = (if CLIENT_MULTI \<notin> c_flags c \<and> \<not> prev_is_asking
                then c_flags c - {CLIENT_ASKING} else c_flags c);
          fl = fl - {CLIENT_REPLY_SKIP};
          fl = (if CLIENT_REPLY_SKIP_NEXT \<in> fl
                then insert CLIENT_REPLY_SKIP (fl - {CLIENT_REPLY_SKIP_NEXT}) else fl)
      in c\<lparr>c_flags := fl\<rparr>)"

text \<open>Closes the client after the error reply and drops the bytes before \<open>pos\<close>; logging aside.\<close>

definition setProtocolError :: "nat \<Rightarrow> client \<Rightarrow> client" where
  "setProtocolError pos c =
     c\<lparr>c_flags := insert CLIENT_CLOSE_AFTER_REPLY (c_flags c),
       c_querybuf := sdsrange (c_querybuf c) (int pos) (- 1)\<rparr>"

definition protocol_error :: "net \<times> client \<Rightarrow> string \<Rightarrow> nat \<Rightarrow> (net \<times> client) res" where
  "protocol_error st msg pos =
     bindE (addReplyErrorLength st msg) (\<lambda>(n, c). Inr (n, setProtocolError pos c))"

definition processInlineBuffer :: "net \<times> client \<Rightarrow> (bool \<times> net \<times> client) res" where
  "processInlineBuffer = (\<lambda>(n, c).
     case strchr_pos (c_querybuf c) lf of
       None \<Rightarrow>
         if PROTO_INLINE_MAX_SIZE < length (c_querybuf c)
         then bindE (protocol_error (n, c) ''Protocol error: too big inline request'' 0) (\<lambda>st. Inr (False, st))
         else Inr (False, n, c)
     | Some newline \<Rightarrow>
         let querylen = (if newline \<noteq> 0 \<and> c_querybuf c ! (newline - 1) = cr then newline - 1 else newline)
         in case sdssplitargs (take querylen (c_querybuf c)) of
              None \<Rightarrow>
                bindE (protocol_error (n, c) ''Protocol error: unbalanced quotes in request'' 0)
                  (\<lambda>st. Inr (False, st))
            | Some argv \<Rightarrow>
                let c = (if querylen = 0 \<and> CLIENT_SLAVE \<in> c_flags c
                         then c\<lparr>c_repl_ack_time := net_unixtime n\<rparr> else c);
                    c = c\<lparr>c_querybuf := sdsrange (c_querybuf c) (int (querylen + 2)) (- 1),
                          c_argv := filter (\<lambda>a. a \<noteq> []) argv\<rparr>
                in Inr (True, n, c))"

text \<open>
  One pass of the loop of \<open>processMultibulkBuffer\<close> is \<open>read_bulklen\<close> followed by \<open>read_bulk\<close>; \<open>MbBreak\<close>
  leaves the loop and waits for more bytes, \<open>MbErr\<close> is the return with a protocol error.
\<close>

datatype mb_step = MbGo | MbBreak | MbErr

definition read_bulklen :: "int \<Rightarrow> net \<times> client \<Rightarrow> nat \<Rightarrow> (mb_step \<times> nat \<times> net \<times> client) res" where
  "read_bulklen max_bulk = (\<lambda>(n, c) pos.
     if c_bulklen c \<noteq> - 1 then Inr (MbGo, pos, n, c)
     else
       let q = c_querybuf c
       in case strchr_pos (drop pos q) cr of
            None \<Rightarrow>
              if PROTO_INLINE_MAX_SIZE < length q
              then bindE (protocol_error (n, c) ''Protocol error: too big bulk count string'' 0)
                     (\<lambda>st. Inr (MbErr, pos, st))
              else Inr (MbBreak, pos, n, c)
          | Some k \<Rightarrow>
              let newline = pos + k
              in if int (length q) - 2 < int newline then Inr (MbBreak, pos, n, c)
                 else if q ! pos \<noteq> CHR ''$''
                 then bindE (addReplyErrorFormat (n, c)
                               (''Protocol error: expected '' @ [CHR 0x27, CHR ''$'', CHR 0x27]
                                @ '', got '' @ [CHR 0x27, q ! pos, CHR 0x27]))
                        (\<lambda>(n, c). Inr (MbErr, pos, n, setProtocolError pos c))
                 else
                   case string2ll (take (newline - (pos + 1)) (drop (pos + 1) q)) of
                     None \<Rightarrow>
                       bindE (protocol_error (n, c) ''Protocol error: invalid bulk length'' pos)
                         (\<lambda>st. Inr (MbErr, pos, st))
                   | Some ll \<Rightarrow>
                       if ll < 0 \<or> max_bulk < ll
                       then bindE (protocol_error (n, c) ''Protocol error: invalid bulk length'' pos)
                              (\<lambda>st. Inr (MbErr, pos, st))
                       else if PROTO_MBULK_BIG_ARG \<le> ll
                       then Inr (MbGo, 0, n, c\<lparr>c_querybuf := sdsrange q (int (newline + 2)) (- 1),
                                               c_bulklen := ll\<rparr>)
                       else Inr (MbGo, newline + 2, n, c\<lparr>c_bulklen := ll\<rparr>))"

definition read_bulk :: "client \<Rightarrow> nat \<Rightarrow> mb_step \<times> nat \<times> client" where
  "read_bulk c pos =
     (let q = c_querybuf c; len = nat (c_bulklen c)
      in if length q - pos < len + 2 then (MbBreak, pos, c)
         else
           let big = (pos = 0 \<and> PROTO_MBULK_BIG_ARG \<le> c_bulklen c \<and> length q = len + 2);
               c' = (if big then c\<lparr>c_argv := c_argv c @ [take len q], c_querybuf := []\<rparr>
                     else c\<lparr>c_argv := c_argv c @ [take len (drop pos q)]\<rparr>)
           in (MbGo, if big then 0 else pos + len + 2,
               c'\<lparr>c_bulklen := - 1, c_multibulklen := c_multibulklen c - 1\<rparr>))"

text \<open>The loop; its first argument is the value of \<^verbatim>\<open>multibulklen\<close>. \<open>Inr (ok, pos, st)\<close> is false in \<open>ok\<close> after an error.\<close>

fun mbulk_loop :: "int \<Rightarrow> nat \<Rightarrow> net \<times> client \<Rightarrow> nat \<Rightarrow> (bool \<times> nat \<times> net \<times> client) res" where
  "mbulk_loop max_bulk 0 st pos = Inr (True, pos, st)"
| "mbulk_loop max_bulk (Suc k) st pos =
     bindE (read_bulklen max_bulk st pos) (\<lambda>(s, pos, n, c).
     case s of
       MbErr \<Rightarrow> Inr (False, pos, n, c)
     | MbBreak \<Rightarrow> Inr (True, pos, n, c)
     | MbGo \<Rightarrow>
         (case read_bulk c pos of
            (MbGo, pos, c) \<Rightarrow> mbulk_loop max_bulk k (n, c) pos
          | (_, pos, c) \<Rightarrow> Inr (True, pos, n, c)))"

definition mbulk_args :: "int \<Rightarrow> net \<times> client \<Rightarrow> nat \<Rightarrow> (bool \<times> net \<times> client) res" where
  "mbulk_args max_bulk = (\<lambda>(n, c) pos.
     bindE (assertE (0 < c_multibulklen c)) (\<lambda>_.
     bindE (mbulk_loop max_bulk (nat (c_multibulklen c)) (n, c) pos) (\<lambda>(ok, pos, n, c).
     if \<not> ok then Inr (False, n, c)
     else
       let c = (if pos \<noteq> 0 then c\<lparr>c_querybuf := sdsrange (c_querybuf c) (int pos) (- 1)\<rparr> else c)
       in Inr (c_multibulklen c = 0, n, c))))"

definition processMultibulkBuffer :: "int \<Rightarrow> net \<times> client \<Rightarrow> (bool \<times> net \<times> client) res" where
  "processMultibulkBuffer max_bulk = (\<lambda>(n, c).
     let q = c_querybuf c
     in if c_multibulklen c = 0 then
          bindE (assertE (c_argv c = [])) (\<lambda>_.
          case strchr_pos q cr of
            None \<Rightarrow>
              if PROTO_INLINE_MAX_SIZE < length q
              then bindE (protocol_error (n, c) ''Protocol error: too big mbulk count string'' 0)
                     (\<lambda>st. Inr (False, st))
              else Inr (False, n, c)
          | Some newline \<Rightarrow>
              if int (length q) - 2 < int newline then Inr (False, n, c)
              else
                bindE (assertE (q ! 0 = CHR ''*'')) (\<lambda>_.
                case string2ll (take (newline - 1) (drop 1 q)) of
                  None \<Rightarrow>
                    bindE (protocol_error (n, c) ''Protocol error: invalid multibulk length'' 0)
                      (\<lambda>st. Inr (False, st))
                | Some ll \<Rightarrow>
                    if 1024 * 1024 < ll
                    then bindE (protocol_error (n, c) ''Protocol error: invalid multibulk length'' 0)
                           (\<lambda>st. Inr (False, st))
                    else if ll \<le> 0
                    then Inr (True, n, c\<lparr>c_querybuf := sdsrange q (int (newline + 2)) (- 1)\<rparr>)
                    else mbulk_args max_bulk (n, c\<lparr>c_multibulklen := ll\<rparr>) (newline + 2)))
        else mbulk_args max_bulk (n, c) 0)"

subsection \<open>Scanning a header\<close>

lemma sdsrange_drop [simp]: "sdsrange s (int pos) (- 1) = drop pos s"
  by (cases "length s = 0") (auto simp: sdsrange_take_drop Let_def)

lemma strchr_pos_found:
  "ch \<notin> set u \<Longrightarrow> CHR 0x00 \<notin> set u \<Longrightarrow> strchr_pos (u @ ch # v) ch = Some (length u)"
  by (induction u) auto

lemma strchr_pos_absent: "ch \<notin> set u \<Longrightarrow> strchr_pos u ch = None"
  by (induction u) auto

lemma show_int_plain: "0 \<le> k \<Longrightarrow> cr \<notin> set (show_int k)" "0 \<le> k \<Longrightarrow> CHR 0x00 \<notin> set (show_int k)"
  using show_int_digits [of k cr] show_int_digits [of k "CHR 0x00"] by (auto simp: digit_in_def)

lemma hdr_scan:
  assumes "0 \<le> k" "p \<noteq> cr" "p \<noteq> CHR 0x00"
  shows "strchr_pos (hdr_text p k @ w) cr = Some (Suc (length (show_int k)))"
  using strchr_pos_found [of cr "p # show_int k" "lf # w"] assms show_int_plain [of k]
  by (simp add: hdr_text_def)

lemma hdr_scan_partial:
  assumes "hdr_text p k = xs @ vs" "vs \<noteq> []" "0 \<le> k" "p \<noteq> cr" "p \<noteq> CHR 0x00"
  shows "strchr_pos xs cr = None \<or> (xs \<noteq> [] \<and> strchr_pos xs cr = Some (length xs - 1))"
proof -
  have "(p # show_int k @ [cr]) @ [lf] = xs @ vs" using assms(1) by (simp add: hdr_text_def)
  with assms(2) obtain vs' where "p # show_int k @ [cr] = xs @ vs'"
    by (cases vs rule: rev_cases) (auto simp flip: append_assoc)
  then have "(p # show_int k) @ [cr] = xs @ vs'" by simp
  then consider "vs' = []" "xs = (p # show_int k) @ [cr]" | us where "p # show_int k = xs @ us"
    by (cases vs' rule: rev_cases) (auto simp del: append_Cons simp flip: append_assoc)
  then show ?thesis
  proof cases
    case 1
    then show ?thesis using strchr_pos_found [of cr "p # show_int k" "[]"] assms show_int_plain by simp
  next
    case 2
    have "set xs \<subseteq> set (p # show_int k)" unfolding 2 by simp
    then have "cr \<notin> set xs" using assms show_int_plain by auto
    then show ?thesis by (simp add: strchr_pos_absent)
  qed
qed

lemma prefix_cases:
  assumes "xs @ rest = h @ w"
  obtains us where "xs = h @ us" "us @ rest = w" | vs where "vs \<noteq> []" "h = xs @ vs" "rest = vs @ w"
proof -
  from assms obtain us where "xs = h @ us \<and> us @ rest = w \<or> xs @ us = h \<and> rest = us @ w"
    unfolding append_eq_append_conv2 by blast
  with that show thesis by (cases "us = []") (force, blast)
qed

subsection \<open>What the parser still expects\<close>

text \<open>
  \<open>mb_expects c pos as rest tail\<close>: the arguments \<open>as\<close> are missing, and the unread bytes of \<^verbatim>\<open>querybuf\<close>
  followed by the bytes \<open>rest\<close> that have not arrived yet are their text followed by \<open>tail\<close>.
\<close>

definition mb_expects :: "client \<Rightarrow> nat \<Rightarrow> string list \<Rightarrow> string \<Rightarrow> string \<Rightarrow> bool" where
  "mb_expects c pos as rest tail \<longleftrightarrow>
     pos \<le> length (c_querybuf c) \<and> c_multibulklen c = int (length as)
     \<and> (c_bulklen c = - 1 \<and> drop pos (c_querybuf c) @ rest = concat (map bulk_text as) @ tail
        \<or> (\<exists>a as'. as = a # as' \<and> c_bulklen c = int (length a)
             \<and> drop pos (c_querybuf c) @ rest = a @ crlf @ concat (map bulk_text as') @ tail))"

definition arg_ok :: "int \<Rightarrow> string \<Rightarrow> bool" where
  "arg_ok max_bulk a \<longleftrightarrow> int (length a) \<le> max_bulk \<and> int (length a) \<le> LLONG_MAX"

lemma read_bulklen_expects:
  assumes "c_bulklen c = - 1" "pos \<le> length (c_querybuf c)" "arg_ok max_bulk a"
    and q: "drop pos (c_querybuf c) @ rest = bulk_text a @ w"
    and sz: "rest = [] \<or> length (c_querybuf c) \<le> PROTO_INLINE_MAX_SIZE"
  shows "read_bulklen max_bulk (n, c) pos = Inr (MbBreak, pos, n, c) \<and> rest \<noteq> []
    \<or> (\<exists>pos' q'. read_bulklen max_bulk (n, c) pos
          = Inr (MbGo, pos', n, c\<lparr>c_querybuf := q', c_bulklen := int (length a)\<rparr>)
        \<and> pos' \<le> length q' \<and> length q' \<le> length (c_querybuf c) \<and> drop pos' q' @ rest = a @ crlf @ w)"
proof -
  let ?q = "c_querybuf c" and ?p = "CHR ''$''" and ?k = "int (length a)"
  have "drop pos ?q @ rest = hdr_text ?p ?k @ a @ crlf @ w" using q by (simp add: bulk_text_def)
  then show ?thesis
  proof (cases rule: prefix_cases)
    case (1 us)
    let ?l = "Suc (length (show_int ?k))"
    have f: "strchr_pos (drop pos ?q) cr = Some ?l" unfolding 1(1) by (rule hdr_scan) simp_all
    have lq: "length ?q = pos + ?l + 2 + length us"
      using arg_cong [OF 1(1), of length] assms(2) by (simp add: hdr_text_def)
    have hd: "?q ! pos = ?p"
      using arg_cong [OF 1(1), of hd] lq by (simp add: hdr_text_def hd_drop_conv_nth)
    have num: "take (pos + ?l - (pos + 1)) (drop (pos + 1) ?q) = show_int ?k"
      using arg_cong [OF 1(1), of "drop 1"] by (simp add: hdr_text_def)
    have rd: "drop (pos + ?l + 2) ?q = us"
      using arg_cong [OF 1(1), of "drop (?l + 2)"] by (simp add: hdr_text_def add.commute add.left_commute)
    have sr: "sdsrange ?q (int (pos + ?l + 2)) (- 1) = us" using rd by (simp only: sdsrange_drop)
    have ll: "string2ll (show_int ?k) = Some ?k" using assms(3) by (simp add: string2ll_show_int arg_ok_def)
    have r: "read_bulklen max_bulk (n, c) pos
      = (if PROTO_MBULK_BIG_ARG \<le> ?k
         then Inr (MbGo, 0, n, c\<lparr>c_querybuf := us, c_bulklen := ?k\<rparr>)
         else Inr (MbGo, pos + ?l + 2, n, c\<lparr>c_bulklen := ?k\<rparr>))"
      using assms(1,3) f lq hd num ll sr by (simp add: read_bulklen_def Let_def arg_ok_def)
    show ?thesis
    proof (cases "PROTO_MBULK_BIG_ARG \<le> ?k")
      case True
      with r lq 1(2) show ?thesis by (intro disjI2 exI [of _ 0] exI [of _ us]) simp
    next
      case False
      with r lq 1(2) rd show ?thesis by (intro disjI2 exI [of _ "pos + ?l + 2"] exI [of _ ?q]) simp
    qed
  next
    case (2 vs)
    then have ne: "rest \<noteq> []" by simp
    have "strchr_pos (drop pos ?q) cr = None
        \<or> drop pos ?q \<noteq> [] \<and> strchr_pos (drop pos ?q) cr = Some (length (drop pos ?q) - 1)"
      by (rule hdr_scan_partial [OF 2(2,1)]) simp_all
    then have "read_bulklen max_bulk (n, c) pos = Inr (MbBreak, pos, n, c)"
      using assms(1) sz ne by (auto simp: read_bulklen_def Let_def)
    with ne show ?thesis by simp
  qed
qed

lemma read_bulk_expects:
  assumes "c_bulklen c = int (length a)" "pos \<le> length (c_querybuf c)"
    and q: "drop pos (c_querybuf c) @ rest = a @ crlf @ w"
  shows "read_bulk c pos = (MbBreak, pos, c) \<and> rest \<noteq> []
    \<or> (\<exists>pos' q'. read_bulk c pos = (MbGo, pos', c\<lparr>c_argv := c_argv c @ [a], c_querybuf := q',
            c_bulklen := - 1, c_multibulklen := c_multibulklen c - 1\<rparr>)
        \<and> pos' \<le> length q' \<and> length q' \<le> length (c_querybuf c) \<and> drop pos' q' @ rest = w)"
proof -
  let ?q = "c_querybuf c"
  have "drop pos ?q @ rest = (a @ crlf) @ w" using q by simp
  then show ?thesis
  proof (cases rule: prefix_cases)
    case (1 us)
    have lq: "length ?q = pos + length a + 2 + length us"
      using arg_cong [OF 1(1), of length] assms(2) by simp
    have rd: "drop (pos + length a + 2) ?q = us"
      using arg_cong [OF 1(1), of "drop (length a + 2)"] by (simp add: add.commute add.left_commute)
    have tk: "take (length a) (drop pos ?q) = a" by (simp add: 1(1))
    show ?thesis
    proof (cases "pos = 0 \<and> PROTO_MBULK_BIG_ARG \<le> int (length a) \<and> us = []")
      case True
      then have "read_bulk c pos = (MbGo, 0, c\<lparr>c_argv := c_argv c @ [a], c_querybuf := [],
            c_bulklen := - 1, c_multibulklen := c_multibulklen c - 1\<rparr>)"
        using assms(1) lq tk by (simp add: read_bulk_def Let_def)
      with 1(2) True show ?thesis by (intro disjI2 exI [of _ 0] exI [of _ "[]"]) simp
    next
      case False
      have us: "us = []" if "pos = 0" "pos + length a + 2 + length us = length a + 2" using that by simp
      have nb: "(pos = 0 \<and> PROTO_MBULK_BIG_ARG \<le> c_bulklen c \<and> length ?q = length a + 2) = False"
        unfolding assms(1) lq using False us by blast
      have "read_bulk c pos = (MbGo, pos + length a + 2, c\<lparr>c_argv := c_argv c @ [a],
            c_querybuf := ?q, c_bulklen := - 1, c_multibulklen := c_multibulklen c - 1\<rparr>)"
        unfolding read_bulk_def Let_def assms(1) nat_int nb [unfolded assms(1)] tk if_False
        using lq by simp
      with 1(2) lq rd show ?thesis
        by (intro disjI2 exI [of _ "pos + length a + 2"] exI [of _ ?q]) simp
    qed
  next
    case (2 vs)
    have "length a + 2 = length ?q - pos + length vs"
      using arg_cong [OF 2(2), of length] unfolding length_append length_drop by simp
    moreover have "0 < length vs" using 2(1) by simp
    ultimately have "length ?q - pos < length a + 2" by linarith
    with 2 assms(1) show ?thesis by (simp add: read_bulk_def Let_def)
  qed
qed

lemma mbulk_loop_expects:
  assumes "mb_expects c pos as rest tail" "\<forall>a \<in> set as. arg_ok max_bulk a"
    and "rest = [] \<or> length (c_querybuf c) \<le> PROTO_INLINE_MAX_SIZE"
  shows "\<exists>pos' c' as'. mbulk_loop max_bulk (length as) (n, c) pos = Inr (True, pos', n, c')
    \<and> mb_expects c' pos' as' rest tail \<and> c_argv c' @ as' = c_argv c @ as
    \<and> length (c_querybuf c') \<le> length (c_querybuf c) \<and> (as' \<noteq> [] \<longrightarrow> rest \<noteq> [])"
  using assms
proof (induction as arbitrary: c pos)
  case Nil
  then show ?case by auto
next
  case (Cons a as)
  let ?w = "concat (map bulk_text as) @ tail"
  have pos: "pos \<le> length (c_querybuf c)" and ml: "c_multibulklen c = 1 + int (length as)"
    using Cons.prems(1) by (simp_all add: mb_expects_def)
  have ok: "arg_ok max_bulk a" using Cons.prems(2) by simp
  have "read_bulklen max_bulk (n, c) pos = Inr (MbBreak, pos, n, c) \<and> rest \<noteq> []
    \<or> (\<exists>pos' q'. read_bulklen max_bulk (n, c) pos
          = Inr (MbGo, pos', n, c\<lparr>c_querybuf := q', c_bulklen := int (length a)\<rparr>)
        \<and> pos' \<le> length q' \<and> length q' \<le> length (c_querybuf c) \<and> drop pos' q' @ rest = a @ crlf @ ?w)"
  proof (cases "c_bulklen c = - 1")
    case True
    then have "drop pos (c_querybuf c) @ rest = bulk_text a @ ?w"
      using Cons.prems(1) by (auto simp: mb_expects_def)
    from read_bulklen_expects [OF True pos ok this Cons.prems(3)] show ?thesis .
  next
    case False
    then have b: "c_bulklen c = int (length a)" "drop pos (c_querybuf c) @ rest = a @ crlf @ ?w"
      using Cons.prems(1) by (auto simp: mb_expects_def)
    have "c = c\<lparr>c_querybuf := c_querybuf c, c_bulklen := int (length a)\<rparr>" using b(1) by simp
    moreover have "read_bulklen max_bulk (n, c) pos = Inr (MbGo, pos, n, c)"
      using False by (simp add: read_bulklen_def)
    ultimately show ?thesis using b(2) pos by (metis order_refl)
  qed
  then show ?case
  proof (elim disjE exE conjE)
    assume "read_bulklen max_bulk (n, c) pos = Inr (MbBreak, pos, n, c)" "rest \<noteq> []"
    with Cons.prems(1) show ?thesis by (intro exI [of _ pos] exI [of _ c] exI [of _ "a # as"]) simp
  next
    fix p1 q1
    let ?c1 = "c\<lparr>c_querybuf := q1, c_bulklen := int (length a)\<rparr>"
    assume 1: "read_bulklen max_bulk (n, c) pos = Inr (MbGo, p1, n, ?c1)"
      and p1: "p1 \<le> length q1" "length q1 \<le> length (c_querybuf c)" "drop p1 q1 @ rest = a @ crlf @ ?w"
    have "read_bulk ?c1 p1 = (MbBreak, p1, ?c1) \<and> rest \<noteq> []
      \<or> (\<exists>p2 q2. read_bulk ?c1 p1 = (MbGo, p2, ?c1\<lparr>c_argv := c_argv ?c1 @ [a], c_querybuf := q2,
              c_bulklen := - 1, c_multibulklen := c_multibulklen ?c1 - 1\<rparr>)
          \<and> p2 \<le> length q2 \<and> length q2 \<le> length (c_querybuf ?c1) \<and> drop p2 q2 @ rest = ?w)"
      by (rule read_bulk_expects) (use p1 in simp_all)
    then show ?thesis
    proof (elim disjE exE conjE)
      assume "read_bulk ?c1 p1 = (MbBreak, p1, ?c1)" "rest \<noteq> []"
      with 1 p1 ml show ?thesis
        by (intro exI [of _ p1] exI [of _ ?c1] exI [of _ "a # as"]) (simp add: mb_expects_def)
    next
      fix p2 q2
      let ?c2 = "?c1\<lparr>c_argv := c_argv ?c1 @ [a], c_querybuf := q2, c_bulklen := - 1,
        c_multibulklen := c_multibulklen ?c1 - 1\<rparr>"
      assume 2: "read_bulk ?c1 p1 = (MbGo, p2, ?c2)"
        and "p2 \<le> length q2" "length q2 \<le> length (c_querybuf ?c1)" "drop p2 q2 @ rest = ?w"
      then have p2: "p2 \<le> length q2" "length q2 \<le> length q1" "drop p2 q2 @ rest = ?w" by simp_all
      have ex: "mb_expects ?c2 p2 as rest tail" using p2 ml by (simp add: mb_expects_def)
      have sz: "rest = [] \<or> length (c_querybuf ?c2) \<le> PROTO_INLINE_MAX_SIZE"
        using Cons.prems(3) p1(2) p2(2) by auto
      have ok2: "\<forall>a \<in> set as. arg_ok max_bulk a" using Cons.prems(2) by simp
      obtain pos' c' as' where
        "mbulk_loop max_bulk (length as) (n, ?c2) p2 = Inr (True, pos', n, c')"
        "mb_expects c' pos' as' rest tail" "c_argv c' @ as' = c_argv ?c2 @ as"
        "length (c_querybuf c') \<le> length (c_querybuf ?c2)" "as' \<noteq> [] \<longrightarrow> rest \<noteq> []"
        using Cons.IH [OF ex ok2 sz] by (elim exE conjE) (rule that)
      with 1 2 p1(2) p2(2) show ?thesis
        by (intro exI [of _ pos'] exI [of _ c'] exI [of _ as']) simp
    qed
  qed
qed

subsection \<open>Reading a command in pieces\<close>

definition parse_inv :: "client \<Rightarrow> string list \<Rightarrow> string \<Rightarrow> string \<Rightarrow> bool" where
  "parse_inv c argv rest tail \<longleftrightarrow>
     (c_multibulklen c = 0 \<and> c_argv c = [] \<and> c_bulklen c = - 1
       \<and> c_querybuf c @ rest = command_text argv @ tail)
     \<or> (\<exists>as. as \<noteq> [] \<and> c_argv c @ as = argv \<and> mb_expects c 0 as rest tail)"

definition argv_ok :: "int \<Rightarrow> string list \<Rightarrow> bool" where
  "argv_ok max_bulk argv \<longleftrightarrow> argv \<noteq> [] \<and> int (length argv) \<le> 1024 * 1024 \<and> (\<forall>a \<in> set argv. arg_ok max_bulk a)"

definition parsed :: "client \<Rightarrow> string list \<Rightarrow> string \<Rightarrow> string \<Rightarrow> bool \<Rightarrow> bool" where
  "parsed c argv rest tail ok \<longleftrightarrow>
     (if ok then c_argv c = argv \<and> c_querybuf c @ rest = tail \<and> c_multibulklen c = 0 \<and> c_bulklen c = - 1
      else rest \<noteq> [] \<and> parse_inv c argv rest tail)"

lemma mbulk_args_expects:
  assumes "mb_expects c pos as rest tail" "as \<noteq> []" "c_argv c @ as = argv" "\<forall>a \<in> set as. arg_ok max_bulk a"
    and "rest = [] \<or> length (c_querybuf c) \<le> PROTO_INLINE_MAX_SIZE"
  shows "\<exists>ok c'. mbulk_args max_bulk (n, c) pos = Inr (ok, n, c') \<and> parsed c' argv rest tail ok
    \<and> length (c_querybuf c') \<le> length (c_querybuf c)"
proof -
  have ml: "c_multibulklen c = int (length as)" using assms(1) by (simp add: mb_expects_def)
  obtain pos' c' as' where l: "mbulk_loop max_bulk (length as) (n, c) pos = Inr (True, pos', n, c')"
    and e: "mb_expects c' pos' as' rest tail" and a: "c_argv c' @ as' = c_argv c @ as"
    and len: "length (c_querybuf c') \<le> length (c_querybuf c)" and r: "as' \<noteq> [] \<longrightarrow> rest \<noteq> []"
    using mbulk_loop_expects [OF assms(1,4,5), of n] by (elim exE conjE) (rule that)
  let ?d = "c'\<lparr>c_querybuf := drop pos' (c_querybuf c')\<rparr>"
  have "mbulk_args max_bulk (n, c) pos = Inr (as' = [], n, ?d)"
    using ml assms(2) l e by (auto simp: mbulk_args_def Let_def mb_expects_def)
  moreover have "mb_expects ?d 0 as' rest tail" using e by (simp add: mb_expects_def)
  then have "parsed ?d argv rest tail (as' = [])"
    using a r assms(3) by (auto simp: parsed_def parse_inv_def mb_expects_def)
  moreover have "length (c_querybuf ?d) \<le> length (c_querybuf c)" using len by simp
  ultimately show ?thesis by blast
qed

lemma processMultibulkBuffer_expects:
  assumes "parse_inv c argv rest tail" "argv_ok max_bulk argv"
    and "rest = [] \<or> length (c_querybuf c) \<le> PROTO_INLINE_MAX_SIZE"
  shows "\<exists>ok c'. processMultibulkBuffer max_bulk (n, c) = Inr (ok, n, c') \<and> parsed c' argv rest tail ok
    \<and> length (c_querybuf c') \<le> length (c_querybuf c)"
proof (cases "c_multibulklen c = 0")
  case False
  then obtain as where as: "as \<noteq> []" "c_argv c @ as = argv" "mb_expects c 0 as rest tail"
    using assms(1) by (auto simp: parse_inv_def)
  have "\<forall>a \<in> set as. arg_ok max_bulk a" using assms(2) as(2) by (auto simp: argv_ok_def)
  from mbulk_args_expects [OF as(3,1,2) this assms(3), of n] False show ?thesis
    by (simp add: processMultibulkBuffer_def)
next
  case True
  let ?q = "c_querybuf c" and ?k = "int (length argv)"
  have c: "c_argv c = []" "c_bulklen c = - 1" "?q @ rest = command_text argv @ tail"
    using assms(1) True by (auto simp: parse_inv_def mb_expects_def)
  have k: "0 < ?k" "?k \<le> 1024 * 1024" using assms(2) by (simp_all add: argv_ok_def)
  from c(3) have "?q @ rest = hdr_text (CHR ''*'') ?k @ concat (map bulk_text argv) @ tail"
    by (simp add: command_text_def)
  then show ?thesis
  proof (cases rule: prefix_cases)
    case (1 us)
    let ?l = "Suc (length (show_int ?k))"
    have f: "strchr_pos ?q cr = Some ?l" unfolding 1(1) by (rule hdr_scan) simp_all
    have lq: "length ?q = ?l + 2 + length us" and hd: "?q ! 0 = CHR ''*''"
      and num: "take (?l - 1) (drop 1 ?q) = show_int ?k" and rd: "drop (?l + 2) ?q = us"
      unfolding 1(1) by (simp_all add: hdr_text_def)
    have ll: "string2ll (show_int ?k) = Some ?k" using k by (intro string2ll_show_int) simp_all
    let ?d = "c\<lparr>c_multibulklen := ?k\<rparr>"
    have r: "processMultibulkBuffer max_bulk (n, c) = mbulk_args max_bulk (n, ?d) (?l + 2)"
      using True c f lq hd num ll k by (simp add: processMultibulkBuffer_def Let_def)
    have "mb_expects ?d (?l + 2) argv rest tail"
      using c(2) rd lq 1(2) by (simp add: mb_expects_def)
    from mbulk_args_expects [OF this, of argv max_bulk n] r show ?thesis
      using c(1) assms(2,3) by (simp add: argv_ok_def)
  next
    case (2 vs)
    have ne: "rest \<noteq> []" using 2 by simp
    have "strchr_pos ?q cr = None \<or> ?q \<noteq> [] \<and> strchr_pos ?q cr = Some (length ?q - 1)"
      by (rule hdr_scan_partial [OF 2(2,1)]) simp_all
    then have "processMultibulkBuffer max_bulk (n, c) = Inr (False, n, c)"
      using True c(1) ne assms(3) by (auto simp: processMultibulkBuffer_def Let_def)
    with ne assms(1) show ?thesis by (simp add: parsed_def ex_bool_eq)
  qed
qed

text \<open>
  The reader: \<open>readQueryFromClient\<close> appends the bytes a \<^verbatim>\<open>read(2)\<close> returned to \<^verbatim>\<open>querybuf\<close> and the parser is
  called on it; \<open>receive_all\<close> does so for a sequence of reads until a command is complete.
\<close>

fun receive_all :: "int \<Rightarrow> string list \<Rightarrow> net \<times> client \<Rightarrow> (bool \<times> net \<times> client) res" where
  "receive_all max_bulk [] st = Inr (False, st)"
| "receive_all max_bulk (chunk # chunks) (n, c) =
     bindE (processMultibulkBuffer max_bulk (n, c\<lparr>c_querybuf := c_querybuf c @ chunk\<rparr>)) (\<lambda>(ok, st).
     if ok then Inr (True, st) else receive_all max_bulk chunks st)"

lemma receive_all_expects:
  assumes "parse_inv c argv (concat chunks) []" "argv_ok max_bulk argv" "concat chunks \<noteq> []"
    and "length (c_querybuf c) + length (concat chunks) \<le> PROTO_INLINE_MAX_SIZE"
  shows "\<exists>c'. receive_all max_bulk chunks (n, c) = Inr (True, n, c') \<and> c_argv c' = argv \<and> c_querybuf c' = []"
  using assms
proof (induction chunks arbitrary: c)
  case Nil
  then show ?case by simp
next
  case (Cons ch chs)
  let ?c = "c\<lparr>c_querybuf := c_querybuf c @ ch\<rparr>"
  have "parse_inv ?c argv (concat chs) []"
    using Cons.prems(1) by (auto simp: parse_inv_def mb_expects_def)
  moreover have "length (c_querybuf ?c) \<le> PROTO_INLINE_MAX_SIZE" using Cons.prems(4) by simp
  ultimately obtain ok c' where p: "processMultibulkBuffer max_bulk (n, ?c) = Inr (ok, n, c')"
    and pd: "parsed c' argv (concat chs) [] ok" and len: "length (c_querybuf c') \<le> length (c_querybuf ?c)"
    using processMultibulkBuffer_expects [of ?c argv "concat chs" "[]" max_bulk n] Cons.prems(2) by blast
  show ?case
  proof (cases ok)
    case True
    with p pd show ?thesis by (simp add: parsed_def)
  next
    case False
    have "length (c_querybuf c') + length (concat chs) \<le> PROTO_INLINE_MAX_SIZE"
      using len Cons.prems(4) by simp
    with Cons.IH [of c'] pd Cons.prems(2) p False show ?thesis by (simp add: parsed_def)
  qed
qed

subsection \<open>Properties\<close>


lemma sample_argv_ok: "argv_ok 536870912 [''SET'', ''k'', [CHR 0x00, cr]]"
  by (simp add: argv_ok_def arg_ok_def)


text \<open>
  C24. The network may cut a command anywhere: however its text, up to 64 KB, is split into reads, the
  parser waits without error after each incomplete read, and the last byte makes it return exactly
  the argument vector with an empty buffer.
\<close>

theorem resp_any_chunking:
  assumes "argv_ok max_bulk argv" "c_multibulklen c = 0" "c_argv c = []" "c_bulklen c = - 1"
    and "c_querybuf c = []" "concat chunks = command_text argv"
    and "length (command_text argv) \<le> PROTO_INLINE_MAX_SIZE"
  shows "\<exists>c'. receive_all max_bulk chunks (n, c) = Inr (True, n, c') \<and> c_argv c' = argv \<and> c_querybuf c' = []"
proof (rule receive_all_expects [OF _ assms(1)])
  show "parse_inv c argv (concat chunks) []" using assms by (simp add: parse_inv_def)
  show "concat chunks \<noteq> []" unfolding assms(6) by (simp add: command_text_def hdr_text_def)
  show "length (c_querybuf c) + length (concat chunks) \<le> PROTO_INLINE_MAX_SIZE"
    unfolding assms(5,6) using assms(7) by simp
qed

theorem resp_any_chunking_witness:
  "\<exists>c'. receive_all 536870912 [[CHR ''*''], [], ''1'' @ [cr], [lf] @ ''$4'' @ crlf @ ''P'', ''ING'' @ crlf]
       (blank_net, blank_client) = Inr (True, blank_net, c') \<and> c_argv c' = [''PING''] \<and> c_querybuf c' = []"
proof -
  have t: "command_text [''PING''] = ''*1'' @ crlf @ ''$4'' @ crlf @ ''PING'' @ crlf"
    by code_simp
  show ?thesis
  proof (rule resp_any_chunking)
    show "argv_ok 536870912 [''PING'']" by (simp add: argv_ok_def arg_ok_def)
    show "length (command_text [''PING'']) \<le> PROTO_INLINE_MAX_SIZE" unfolding t by simp
  qed (simp_all add: blank_client_def t)
qed

lemma processInlineBuffer_split:
  assumes "strchr_pos (c_querybuf c) lf = Some k" "CLIENT_SLAVE \<notin> c_flags c"
    and "l = (if k \<noteq> 0 \<and> c_querybuf c ! (k - 1) = cr then k - 1 else k)"
    and "sdssplitargs (take l (c_querybuf c)) = Some argv"
  shows "processInlineBuffer (n, c)
       = Inr (True, n, c\<lparr>c_querybuf := drop (l + 2) (c_querybuf c), c_argv := filter (\<lambda>a. a \<noteq> []) argv\<rparr>)"
proof -
  have "sdsrange (c_querybuf c) (int (l + 2)) (- 1) = drop (l + 2) (c_querybuf c)" by (rule sdsrange_drop)
  with assms show ?thesis by (simp add: processInlineBuffer_def Let_def)
qed

text \<open>
  C34. An inline request ending in CR LF is split into its words and the bytes after it are kept; when
  it ends in a bare LF, \<open>processInlineBuffer\<close> still skips two bytes and the first byte of what follows
  is lost.
\<close>

theorem processInlineBuffer_line_end:
  assumes "lf \<notin> set w" "CHR 0x00 \<notin> set w" "w \<noteq> []" "last w \<noteq> cr" "sdssplitargs w = Some argv"
    and "CLIENT_SLAVE \<notin> c_flags c"
  shows "processInlineBuffer (n, c\<lparr>c_querybuf := w @ [cr, lf] @ after\<rparr>)
       = Inr (True, n, c\<lparr>c_querybuf := after, c_argv := filter (\<lambda>a. a \<noteq> []) argv\<rparr>)
     \<and> processInlineBuffer (n, c\<lparr>c_querybuf := w @ [lf] @ x # after\<rparr>)
       = Inr (True, n, c\<lparr>c_querybuf := after, c_argv := filter (\<lambda>a. a \<noteq> []) argv\<rparr>)"
proof
  have "strchr_pos (w @ [cr, lf] @ after) lf = Some (Suc (length w))"
    using strchr_pos_found [of lf "w @ [cr]" after] assms(1,2) by simp
  then show "processInlineBuffer (n, c\<lparr>c_querybuf := w @ [cr, lf] @ after\<rparr>)
       = Inr (True, n, c\<lparr>c_querybuf := after, c_argv := filter (\<lambda>a. a \<noteq> []) argv\<rparr>)"
    using processInlineBuffer_split [of "c\<lparr>c_querybuf := w @ [cr, lf] @ after\<rparr>" "Suc (length w)" "length w" argv n]
      assms(5,6) by simp
next
  have "(w @ [lf] @ x # after) ! (length w - 1) = last w"
    using assms(3) by (simp add: nth_append last_conv_nth)
  then have "length w = (if length w \<noteq> 0 \<and> (w @ [lf] @ x # after) ! (length w - 1) = cr then length w - 1 else length w)"
    using assms(4) by simp
  then show "processInlineBuffer (n, c\<lparr>c_querybuf := w @ [lf] @ x # after\<rparr>)
       = Inr (True, n, c\<lparr>c_querybuf := after, c_argv := filter (\<lambda>a. a \<noteq> []) argv\<rparr>)"
    using processInlineBuffer_split [of "c\<lparr>c_querybuf := w @ [lf] @ x # after\<rparr>" "length w" "length w" argv n]
      strchr_pos_found [of lf w "x # after"] assms(1,2,5,6) by simp
qed

theorem processInlineBuffer_line_end_witness:
  "processInlineBuffer (blank_net, blank_client\<lparr>c_querybuf := ''PING'' @ [cr, lf] @ ''X''\<rparr>)
     = Inr (True, blank_net, blank_client\<lparr>c_querybuf := ''X'', c_argv := [''PING'']\<rparr>)
   \<and> processInlineBuffer (blank_net, blank_client\<lparr>c_querybuf := ''PING'' @ [lf] @ CHR ''G'' # ''ET k''\<rparr>)
     = Inr (True, blank_net, blank_client\<lparr>c_querybuf := ''ET k'', c_argv := [''PING'']\<rparr>)"
proof -
  have s: "sdssplitargs ''PING'' = Some [''PING'']" by code_simp
  have f: "CLIENT_SLAVE \<notin> c_flags blank_client" by (simp add: blank_client_def)
  have w: "lf \<notin> set ''PING''" "CHR 0x00 \<notin> set ''PING''" "''PING'' \<noteq> []" "last ''PING'' \<noteq> cr" by simp_all
  show ?thesis
    using processInlineBuffer_line_end [OF w s f, of blank_net "''X''" "CHR ''G''"]
      processInlineBuffer_line_end [OF w s f, of blank_net "''ET k''" "CHR ''G''"] by simp
qed

end
