(* ===== verification/Repl_Backlog.thy ===== *)
theory Repl_Backlog
  imports Resp_Parser Xpipe_Proxy
begin

section \<open>The replication backlog\<close>

text \<open>
  The replication stream as a master keeps and sends it: the circular backlog of
  \<^verbatim>\<open>src/src/replication.c\<close>, the partial resynchronisation that reads it, and the functions of
  \<^verbatim>\<open>replication.c\<close> and \<^verbatim>\<open>ctrip_crdt_replication.c\<close> that write commands to it and to the replicas. The
  process has two such streams, \<^verbatim>\<open>server\<close> (local replicas) and \<^verbatim>\<open>crdtServer\<close> (peers), both
  \<^verbatim>\<open>struct redisServer\<close>; \<open>repl_server\<close> is the part of the struct they use. A byte of the backlog that was
  never written is \<^term>\<open>None\<close>, so that reading it is a fault. Offsets are \<^verbatim>\<open>long long\<close>.
\<close>

datatype rdb_child = RDB_CHILD_TYPE_DISK | RDB_CHILD_TYPE_SOCKET

record repl_server =
  slaves :: "client list"
  repl_backlog :: "char option list option"
  repl_backlog_size :: nat
  repl_backlog_histlen :: nat
  repl_backlog_idx :: nat
  repl_backlog_off :: int
  master_repl_offset :: int
  replid :: string
  replid2 :: string
  second_replid_offset :: int
  slaveseldb :: int
  repl_min_slaves_to_write :: int
  repl_min_slaves_max_lag :: int
  repl_good_slaves_count :: int
  srv_unixtime :: int
  rdb_child :: "rdb_child option"
  aof_child :: bool
  repl_diskless_sync :: bool
  repl_diskless_sync_delay :: int
  repl_timeout :: int
  repl_backlog_time_limit :: int
  repl_no_slaves_since :: int

abbreviation CONFIG_REPL_BACKLOG_MIN_SIZE :: nat where "CONFIG_REPL_BACKLOG_MIN_SIZE \<equiv> 16384"
abbreviation CONFIG_RUN_ID_SIZE :: nat where "CONFIG_RUN_ID_SIZE \<equiv> 40"
abbreviation LONG_STR_SIZE :: nat where "LONG_STR_SIZE \<equiv> 21"

subsection \<open>The circular buffer\<close>

definition createServerReplicationBacklog :: "repl_server \<Rightarrow> repl_server res" where
  "createServerReplicationBacklog srv =
     bindE (assertE (repl_backlog srv = None)) (\<lambda>_.
     Inr (srv\<lparr>repl_backlog := Some (replicate (repl_backlog_size srv) None),
              repl_backlog_histlen := 0, repl_backlog_idx := 0,
              repl_backlog_off := master_repl_offset srv + 1\<rparr>))"

definition createReplicationBacklog :: "repl_server \<times> repl_server \<Rightarrow> (repl_server \<times> repl_server) res" where
  "createReplicationBacklog = (\<lambda>(server, crdtServer).
     bindE (if repl_backlog server = None then createServerReplicationBacklog server else Inr server) (\<lambda>server.
     bindE (if repl_backlog crdtServer = None then createServerReplicationBacklog crdtServer
            else Inr crdtServer) (\<lambda>crdtServer.
     Inr (server, crdtServer))))"

definition resizeReplicationBacklog :: "repl_server \<Rightarrow> int \<Rightarrow> repl_server" where
  "resizeReplicationBacklog srv newsize =
     (let newsize = (if newsize < int CONFIG_REPL_BACKLOG_MIN_SIZE then int CONFIG_REPL_BACKLOG_MIN_SIZE
                     else newsize)
      in if int (repl_backlog_size srv) = newsize then srv
         else
           let srv = srv\<lparr>repl_backlog_size := nat newsize\<rparr>
           in if repl_backlog srv \<noteq> None
              then srv\<lparr>repl_backlog := Some (replicate (nat newsize) None), repl_backlog_histlen := 0,
                       repl_backlog_idx := 0, repl_backlog_off := master_repl_offset srv + 1\<rparr>
              else srv)"

definition freeReplicationBacklog :: "repl_server \<Rightarrow> repl_server res" where
  "freeReplicationBacklog srv =
     bindE (assertE (slaves srv = [])) (\<lambda>_. Inr (srv\<lparr>repl_backlog := None\<rparr>))"

text \<open>
  The copy loop of \<open>feedReplicationBacklog\<close>: as many bytes as fit before the end, then from the start.
  Each pass writes at least one byte as long as the write index is inside the buffer; an index at or
  past the end would write outside it.
\<close>

function feed_loop :: "nat \<Rightarrow> char option list \<Rightarrow> nat \<Rightarrow> nat \<Rightarrow> string
    \<Rightarrow> (char option list \<times> nat \<times> nat) res" where
  "feed_loop sz buf idx hist p =
     (if p = [] then Inr (buf, idx, hist)
      else if sz \<le> idx then Inl OutOfBounds
      else
        let thislen = min (sz - idx) (length p);
            buf = take idx buf @ map Some (take thislen p) @ drop (idx + thislen) buf;
            idx = idx + thislen
        in feed_loop sz buf (if idx = sz then 0 else idx) (hist + thislen) (drop thislen p))"
  by pat_completeness auto
termination
  by (relation "measure (\<lambda>(_, _, _, _, p). length p)") (auto simp: min_def)

declare feed_loop.simps [simp del]

definition feedReplicationBacklog :: "repl_server \<Rightarrow> string \<Rightarrow> repl_server res" where
  "feedReplicationBacklog srv p =
     (let srv = srv\<lparr>master_repl_offset := master_repl_offset srv + int (length p)\<rparr>
      in bindE (case repl_backlog srv of
                  None \<Rightarrow> if p = [] then Inr (None, repl_backlog_idx srv, repl_backlog_histlen srv)
                          else Inl NullDeref
                | Some buf \<Rightarrow>
                    bindE (feed_loop (repl_backlog_size srv) buf (repl_backlog_idx srv)
                             (repl_backlog_histlen srv) p) (\<lambda>(buf, idx, hist).
                    Inr (Some buf, idx, hist))) (\<lambda>(buf, idx, hist).
         let hist = (if repl_backlog_size srv < hist then repl_backlog_size srv else hist)
         in Inr (srv\<lparr>repl_backlog := buf, repl_backlog_idx := idx, repl_backlog_histlen := hist,
                     repl_backlog_off := master_repl_offset srv - int hist + 1\<rparr>)))"

definition feedReplicationBacklogWithObject :: "repl_server \<Rightarrow> robj \<Rightarrow> repl_server res" where
  "feedReplicationBacklogWithObject srv obj =
     feedReplicationBacklog srv (case obj of IntObj v \<Rightarrow> ll_text LONG_STR_SIZE v | RawObj s \<Rightarrow> s)"

text \<open>
  Reading the buffer, as \<open>addReplyReplicationBacklog\<close> and \<open>crdtReplicationCommand\<close> do: from index \<open>j\<close>,
  \<open>len\<close> bytes, continuing at the start after the end. A negative index or length, a read past the
  end and a read of a byte that was never written are faults. The result is the list of pieces.
\<close>

definition read_byte :: "char option \<Rightarrow> char res" where
  "read_byte b = (case b of None \<Rightarrow> Inl UninitRead | Some ch \<Rightarrow> Inr ch)"

function read_loop :: "nat \<Rightarrow> char option list \<Rightarrow> nat \<Rightarrow> nat \<Rightarrow> string list res" where
  "read_loop sz buf j len =
     (if len = 0 then Inr []
      else if sz \<le> j then Inl OutOfBounds
      else
        let thislen = (if sz - j < len then sz - j else len)
        in bindE (mapE read_byte (take thislen (drop j buf))) (\<lambda>s.
           bindE (read_loop sz buf 0 (len - thislen)) (\<lambda>t. Inr (s # t))))"
  by pat_completeness auto
termination
  by (relation "measure (\<lambda>(_, _, _, len). len)") auto

declare read_loop.simps [simp del]

text \<open>C's \<^verbatim>\<open>%\<close> truncates towards zero.\<close>

definition c_rem :: "int \<Rightarrow> int \<Rightarrow> int" where
  "c_rem a b = (if a < 0 then - ((- a) mod b) else a mod b)"

definition backlog_read :: "repl_server \<Rightarrow> int \<Rightarrow> int \<Rightarrow> string list res" where
  "backlog_read srv skip len =
     (case repl_backlog srv of
        None \<Rightarrow> if len = 0 then Inr [] else Inl NullDeref
      | Some buf \<Rightarrow>
          let sz = int (repl_backlog_size srv);
              j = c_rem (int (repl_backlog_idx srv) + (sz - int (repl_backlog_histlen srv))) sz;
              j = c_rem (j + skip) sz
          in if len = 0 then Inr []
             else if len < 0 \<or> j < 0 then Inl OutOfBounds
             else read_loop (repl_backlog_size srv) buf (nat j) (nat len))"

definition addReplyReplicationBacklog ::
  "repl_server \<Rightarrow> net \<times> client \<Rightarrow> int \<Rightarrow> (int \<times> (net \<times> client)) res" where
  "addReplyReplicationBacklog srv st offset =
     (if repl_backlog_histlen srv = 0 then Inr (0, st)
      else
        let skip = offset - repl_backlog_off srv;
            len = int (repl_backlog_histlen srv) - skip
        in bindE (backlog_read srv skip len) (\<lambda>pieces.
           bindE (foldE (\<lambda>s st. addReplySds st s) pieces st) (\<lambda>st.
           Inr (len, st))))"

definition getPsyncInitialOffset :: "repl_server \<Rightarrow> int" where
  "getPsyncInitialOffset srv = master_repl_offset srv"

text \<open>
  \<open>getRandomHexChars\<close> is the parameter \<open>fresh\<close>; the crdt stream takes over the id of the local one.
\<close>

definition changeReplicationId :: "string \<Rightarrow> bool \<Rightarrow> repl_server \<Rightarrow> repl_server \<Rightarrow> repl_server" where
  "changeReplicationId fresh is_server server srv =
     (if is_server then srv\<lparr>replid := take CONFIG_RUN_ID_SIZE fresh\<rparr> else srv\<lparr>replid := replid server\<rparr>)"

definition clearReplicationId2 :: "repl_server \<Rightarrow> repl_server" where
  "clearReplicationId2 srv =
     srv\<lparr>replid2 := replicate CONFIG_RUN_ID_SIZE (CHR ''0''), second_replid_offset := - 1\<rparr>"

definition shiftReplicationId :: "string \<Rightarrow> bool \<Rightarrow> repl_server \<Rightarrow> repl_server \<Rightarrow> repl_server" where
  "shiftReplicationId fresh is_server server srv =
     changeReplicationId fresh is_server server
       (srv\<lparr>replid2 := replid srv, second_replid_offset := master_repl_offset srv + 1\<rparr>)"

subsection \<open>Partial resynchronisation\<close>

definition getLongLongFromObjectOrReply ::
  "net \<times> client \<Rightarrow> string \<Rightarrow> string option \<Rightarrow> (int option \<times> (net \<times> client)) res" where
  "getLongLongFromObjectOrReply st s msg =
     (case string2ll s of
        None \<Rightarrow>
          bindE (addReplyErrorLength st (case msg of Some m \<Rightarrow> m
                   | None \<Rightarrow> ''value is not an integer or out of range'')) (\<lambda>st. Inr (None, st))
      | Some v \<Rightarrow> Inr (Some v, st))"

text \<open>
  \<open>write_ok\<close> is whether the direct \<^verbatim>\<open>write(2)\<close> of the reply line took all its bytes. The result carries
  the line written to the socket.
\<close>

definition refreshGoodSlavesCount :: "repl_server \<Rightarrow> repl_server" where
  "refreshGoodSlavesCount srv =
     (if repl_min_slaves_to_write srv = 0 \<or> repl_min_slaves_max_lag srv = 0 then srv
      else srv\<lparr>repl_good_slaves_count := int (length (filter (\<lambda>slave. c_replstate slave = SLAVE_STATE_ONLINE
               \<and> srv_unixtime srv - c_repl_ack_time slave \<le> repl_min_slaves_max_lag srv) (slaves srv)))\<rparr>)"

definition replicationSetupSlaveForFullResync ::
  "repl_server \<Rightarrow> net \<times> client \<Rightarrow> int \<Rightarrow> bool \<Rightarrow> bool \<times> string \<times> repl_server \<times> (net \<times> client)" where
  "replicationSetupSlaveForFullResync srv = (\<lambda>(n, slave) offset write_ok.
     let slave = slave\<lparr>c_psync_initial_offset := offset, c_replstate := SLAVE_STATE_WAIT_BGSAVE_END\<rparr>;
         srv = srv\<lparr>slaveseldb := - 1\<rparr>
     in if CLIENT_PRE_PSYNC \<notin> c_flags slave then
          let line = ''+FULLRESYNC '' @ replid srv @ '' '' @ show_int offset @ crlf
          in if \<not> write_ok then (False, line, srv, freeClientAsync (n, slave))
             else (True, line, srv, n, slave)
        else (True, [], srv, n, slave))"

definition psync_id_ok :: "repl_server \<Rightarrow> string \<Rightarrow> int \<Rightarrow> bool" where
  "psync_id_ok srv master_replid psync_offset \<longleftrightarrow>
     strcaseeq master_replid (replid srv)
     \<or> strcaseeq master_replid (replid2 srv) \<and> psync_offset \<le> second_replid_offset srv"

definition psync_in_backlog :: "repl_server \<Rightarrow> int \<Rightarrow> bool" where
  "psync_in_backlog srv psync_offset \<longleftrightarrow>
     repl_backlog srv \<noteq> None \<and> repl_backlog_off srv \<le> psync_offset
     \<and> psync_offset \<le> repl_backlog_off srv + int (repl_backlog_histlen srv)"

text \<open>
  The request of client \<open>c\<close> to stream \<open>srv\<close>, the crdt stream when \<open>is_crdt\<close>. In the result \<^term>\<open>None\<close> is
  the return of \<^verbatim>\<open>C_ERR\<close>, a full resynchronisation is needed; otherwise it is the line written and the
  two streams. The replica list holds the client as it is left.
\<close>

definition masterTryPartialResynchronization ::
  "bool \<Rightarrow> repl_server \<times> repl_server \<Rightarrow> net \<times> client \<Rightarrow> bool
   \<Rightarrow> ((string \<times> repl_server \<times> repl_server) option \<times> (net \<times> client)) res" where
  "masterTryPartialResynchronization is_crdt = (\<lambda>(server, crdtServer) (n, c) write_ok.
     let srv = (if is_crdt then crdtServer else server);
         attach = (\<lambda>c. let srv = srv\<lparr>slaves := slaves srv @ [c]\<rparr>
                       in if is_crdt then (server, srv) else (srv, crdtServer))
     in if is_crdt \<and> SLAVE_CAPA_BACKSTREAM \<in> c_slave_capa c then Inr (None, n, c)
        else if length (c_argv c) < 3 then Inl OutOfBounds
        else
          bindE (getLongLongFromObjectOrReply (n, c) (c_argv c ! 2) None) (\<lambda>(v, n, c).
          case v of
            None \<Rightarrow> Inr (None, n, c)
          | Some psync_offset \<Rightarrow>
              if \<not> psync_id_ok srv (c_argv c ! 1) psync_offset then Inr (None, n, c)
              else if \<not> psync_in_backlog srv psync_offset then Inr (None, n, c)
              else
                let c = c\<lparr>c_flags := insert (if is_crdt then CLIENT_CRDT_SLAVE else CLIENT_SLAVE) (c_flags c),
                          c_replstate := SLAVE_STATE_ONLINE, c_repl_ack_time := net_unixtime n,
                          c_repl_put_online_on_ack := False\<rparr>;
                    line = (if SLAVE_CAPA_PSYNC2 \<in> c_slave_capa c
                            then ''+CONTINUE '' @ replid srv @ crlf else ''+CONTINUE'' @ crlf)
                in if \<not> write_ok
                   then let (n, c) = freeClientAsync (n, c) in Inr (Some (line, attach c), n, c)
                   else
                     bindE (addReplyReplicationBacklog srv (n, c) psync_offset) (\<lambda>(_, n, c).
                     let (server, crdtServer) = attach c
                     in Inr (Some (line, refreshGoodSlavesCount server, crdtServer), n, c))))"

subsection \<open>Writing commands to the streams\<close>

text \<open>
  \<open>repl_env\<close> holds what the feed functions read besides the two streams: the gid, whether the instance
  is a replica that proxies the stream of its master (\<^verbatim>\<open>masterhost\<close>, \<^verbatim>\<open>repl_slave_repl_all\<close>, \<^verbatim>\<open>crdt_enabled\<close>,
  \<^verbatim>\<open>master_is_crdt\<close>), and the state of the client whose command is being propagated.
\<close>

record repl_env =
  env_crdt_gid :: int
  env_masterhost :: bool
  env_repl_slave_repl_all :: bool
  env_crdt_enabled :: bool
  env_master_is_crdt :: bool

record repl_world =
  w_net :: net
  w_server :: repl_server
  w_crdt :: repl_server

definition isSameTypeWithMaster :: "repl_env \<Rightarrow> bool" where
  "isSameTypeWithMaster env \<longleftrightarrow>
     (if env_crdt_enabled env \<and> env_master_is_crdt env then True
      else if \<not> env_crdt_enabled env \<and> \<not> env_master_is_crdt env then True
      else False)"

definition proxies_master :: "repl_env \<Rightarrow> bool" where
  "proxies_master env \<longleftrightarrow>
     env_masterhost env \<and> \<not> env_repl_slave_repl_all env \<and> isSameTypeWithMaster env"

text \<open>The loop over a replica list: replicas still waiting for their snapshot to start are skipped.\<close>

fun to_slaves :: "(net \<times> client \<Rightarrow> (net \<times> client) res) \<Rightarrow> net \<Rightarrow> client list \<Rightarrow> (net \<times> client list) res" where
  "to_slaves f n [] = Inr (n, [])"
| "to_slaves f n (slave # rest) =
     bindE (if c_replstate slave = SLAVE_STATE_WAIT_BGSAVE_START then Inr (n, slave) else f (n, slave)) (\<lambda>(n, slave).
     bindE (to_slaves f n rest) (\<lambda>(n, rest). Inr (n, slave # rest)))"

definition to_server_slaves :: "(net \<times> client \<Rightarrow> (net \<times> client) res) \<Rightarrow> repl_world \<Rightarrow> repl_world res" where
  "to_server_slaves f w =
     bindE (to_slaves f (w_net w) (slaves (w_server w))) (\<lambda>(n, l).
     Inr (w\<lparr>w_net := n, w_server := (w_server w)\<lparr>slaves := l\<rparr>\<rparr>))"

definition to_crdt_slaves :: "(net \<times> client \<Rightarrow> (net \<times> client) res) \<Rightarrow> repl_world \<Rightarrow> repl_world res" where
  "to_crdt_slaves f w =
     bindE (to_slaves f (w_net w) (slaves (w_crdt w))) (\<lambda>(n, l).
     Inr (w\<lparr>w_net := n, w_crdt := (w_crdt w)\<lparr>slaves := l\<rparr>\<rparr>))"

definition feed_if_backlog :: "repl_server \<Rightarrow> string \<Rightarrow> repl_server res" where
  "feed_if_backlog srv p = (if repl_backlog srv \<noteq> None then feedReplicationBacklog srv p else Inr srv)"

text \<open>The command in protocol format, as the feed functions assemble it in \<^verbatim>\<open>aux\<close> piece by piece.\<close>

definition stringObjectLen :: "robj \<Rightarrow> nat" where
  "stringObjectLen obj = (case obj of RawObj s \<Rightarrow> length s | IntObj v \<Rightarrow> sdigits10 v)"

definition aux_text :: "char \<Rightarrow> int \<Rightarrow> string" where
  "aux_text prefix v = prefix # ll_text (LONG_STR_SIZE + 2) v @ crlf"

definition feed_bulk :: "repl_server \<Rightarrow> robj \<Rightarrow> repl_server res" where
  "feed_bulk srv obj =
     bindE (feedReplicationBacklog srv (aux_text (CHR ''$'') (int (stringObjectLen obj)))) (\<lambda>srv.
     bindE (feedReplicationBacklogWithObject srv obj) (\<lambda>srv.
     feedReplicationBacklog srv crlf))"

definition feed_command :: "repl_server \<Rightarrow> robj list \<Rightarrow> repl_server res" where
  "feed_command srv argv =
     bindE (feedReplicationBacklog srv (aux_text (CHR ''*'') (int (length argv)))) (\<lambda>srv.
     foldE (\<lambda>obj srv. feed_bulk srv obj) argv srv)"

definition feedCrdtBacklog :: "repl_server \<times> repl_server \<Rightarrow> robj list \<Rightarrow> (repl_server \<times> repl_server) res" where
  "feedCrdtBacklog = (\<lambda>(server, crdtServer) argv.
     bindE (if repl_backlog crdtServer = None then createReplicationBacklog (server, crdtServer)
            else Inr (server, crdtServer)) (\<lambda>(server, crdtServer).
     bindE (feed_command crdtServer argv) (\<lambda>crdtServer. Inr (server, crdtServer))))"

definition replicationFeedRobj :: "robj \<Rightarrow> repl_world \<Rightarrow> repl_world res" where
  "replicationFeedRobj cmd w =
     bindE (if repl_backlog (w_server w) \<noteq> None then feedReplicationBacklogWithObject (w_server w) cmd
            else Inr (w_server w)) (\<lambda>s.
     bindE (if repl_backlog (w_crdt w) \<noteq> None then feedReplicationBacklogWithObject (w_crdt w) cmd
            else Inr (w_crdt w)) (\<lambda>c.
     bindE (to_server_slaves (\<lambda>st. addReply st cmd) (w\<lparr>w_server := s, w_crdt := c\<rparr>)) (\<lambda>w.
     to_crdt_slaves (\<lambda>st. addReply st cmd) w)))"

definition replicationFeedString :: "string \<Rightarrow> repl_world \<Rightarrow> repl_world res" where
  "replicationFeedString p w =
     bindE (feed_if_backlog (w_server w) p) (\<lambda>s.
     bindE (feed_if_backlog (w_crdt w) p) (\<lambda>c.
     bindE (to_server_slaves (\<lambda>st. addReplyString st p) (w\<lparr>w_server := s, w_crdt := c\<rparr>)) (\<lambda>w.
     to_crdt_slaves (\<lambda>st. addReplyString st p) w)))"

text \<open>\<^verbatim>\<open>"*3\r\n$11\r\nCRDT.SELECT\r\n$%d\r\n%s\r\n$%d\r\n%s\r\n"\<close> with the gid and the database number.\<close>

definition crdt_select_text :: "int \<Rightarrow> int \<Rightarrow> string" where
  "crdt_select_text gid dictid =
     (let gidstr = ll_text LONG_STR_SIZE gid; llstr = ll_text LONG_STR_SIZE dictid
      in ''*3'' @ crlf @ ''$11'' @ crlf @ ''CRDT.SELECT'' @ crlf
         @ ''$'' @ show_int (int (length gidstr)) @ crlf @ gidstr @ crlf
         @ ''$'' @ show_int (int (length llstr)) @ crlf @ llstr @ crlf)"

definition select_done :: "int \<Rightarrow> repl_world \<Rightarrow> repl_world" where
  "select_done dictid w =
     w\<lparr>w_server := (w_server w)\<lparr>slaveseldb := dictid\<rparr>, w_crdt := (w_crdt w)\<lparr>slaveseldb := dictid\<rparr>\<rparr>"

definition replicationFeedRobjToAllSlaves :: "repl_env \<Rightarrow> int \<Rightarrow> robj \<Rightarrow> repl_world \<Rightarrow> repl_world res" where
  "replicationFeedRobjToAllSlaves env dictid cmd w =
     (if proxies_master env then Inr w
      else
        bindE (if slaveseldb (w_server w) \<noteq> dictid \<or> slaveseldb (w_crdt w) \<noteq> dictid
               then replicationFeedRobj (RawObj (crdt_select_text (env_crdt_gid env) dictid)) w
               else Inr w) (\<lambda>w.
        replicationFeedRobj cmd (select_done dictid w)))"

definition replicationFeedStringToAllSlaves ::
  "repl_env \<Rightarrow> int \<Rightarrow> string \<Rightarrow> repl_world \<Rightarrow> repl_world res" where
  "replicationFeedStringToAllSlaves env dictid cmdbuf w =
     (if proxies_master env then Inr w
      else
        bindE (if slaveseldb (w_server w) \<noteq> dictid \<or> slaveseldb (w_crdt w) \<noteq> dictid
               then replicationFeedString (crdt_select_text (env_crdt_gid env) dictid) w
               else Inr w) (\<lambda>w.
        replicationFeedString cmdbuf (select_done dictid w)))"

definition send_command :: "robj list \<Rightarrow> net \<times> client \<Rightarrow> (net \<times> client) res" where
  "send_command argv st =
     bindE (addReplyMultiBulkLen st (int (length argv))) (\<lambda>st.
     foldE (\<lambda>obj st. addReplyBulk st obj) argv st)"

definition replicationFeedAllSlaves :: "repl_env \<Rightarrow> int \<Rightarrow> robj list \<Rightarrow> repl_world \<Rightarrow> repl_world res" where
  "replicationFeedAllSlaves env dictid argv w =
     (if proxies_master env then Inr w
      else
        bindE (if slaveseldb (w_server w) \<noteq> dictid \<or> slaveseldb (w_crdt w) \<noteq> dictid
               then replicationFeedRobj (RawObj (crdt_select_text (env_crdt_gid env) dictid)) w
               else Inr w) (\<lambda>w.
        let w = select_done dictid w
        in bindE (if repl_backlog (w_server w) \<noteq> None then feed_command (w_server w) argv
                  else Inr (w_server w)) (\<lambda>s.
           bindE (if repl_backlog (w_crdt w) \<noteq> None then feed_command (w_crdt w) argv
                  else Inr (w_crdt w)) (\<lambda>c.
           bindE (to_server_slaves (send_command argv) (w\<lparr>w_server := s, w_crdt := c\<rparr>)) (\<lambda>w.
           to_crdt_slaves (send_command argv) w)))))"

definition replicationFeedSlavesFromMasterStream :: "string \<Rightarrow> repl_world \<Rightarrow> repl_world res" where
  "replicationFeedSlavesFromMasterStream buf w =
     bindE (feed_if_backlog (w_server w) buf) (\<lambda>s.
     to_server_slaves (\<lambda>st. addReplyString st buf) (w\<lparr>w_server := s\<rparr>))"

text \<open>\<^verbatim>\<open>shared.select\<close> holds the same text for the database numbers below 10.\<close>

definition select_text :: "int \<Rightarrow> string" where
  "select_text dictid =
     (let llstr = ll_text LONG_STR_SIZE dictid
      in ''*2'' @ crlf @ ''$6'' @ crlf @ ''SELECT'' @ crlf
         @ ''$'' @ show_int (int (length llstr)) @ crlf @ llstr @ crlf)"

definition sendSelectCommandToSlave :: "int \<Rightarrow> repl_world \<Rightarrow> repl_world res" where
  "sendSelectCommandToSlave dictid w =
     (let cmd = RawObj (select_text dictid)
      in bindE (if repl_backlog (w_server w) \<noteq> None then feedReplicationBacklogWithObject (w_server w) cmd
                else Inr (w_server w)) (\<lambda>s.
         bindE (to_server_slaves (\<lambda>st. addReply st cmd) (w\<lparr>w_server := s\<rparr>)) (\<lambda>w.
         Inr (w\<lparr>w_server := (w_server w)\<lparr>slaveseldb := dictid\<rparr>\<rparr>))))"

text \<open>
  \<open>peer_stream\<close> says that the current client is a peer whose handshake is over and whose command is not
  \<^verbatim>\<open>crdtMergeEndCommand\<close>; its bytes are proxied verbatim elsewhere.
\<close>

definition replicationFeedSlaves :: "repl_env \<Rightarrow> bool \<Rightarrow> int \<Rightarrow> robj list \<Rightarrow> repl_world \<Rightarrow> repl_world res" where
  "replicationFeedSlaves env peer_stream dictid argv w =
     (if proxies_master env then Inr w
      else if peer_stream then Inr w
      else if repl_backlog (w_server w) = None \<and> slaves (w_server w) = [] then Inr w
      else
        bindE (assertE (\<not> (slaves (w_server w) \<noteq> [] \<and> repl_backlog (w_server w) = None))) (\<lambda>_.
        bindE (if slaveseldb (w_server w) \<noteq> dictid then sendSelectCommandToSlave dictid w else Inr w) (\<lambda>w.
        bindE (if repl_backlog (w_server w) \<noteq> None then feed_command (w_server w) argv
               else Inr (w_server w)) (\<lambda>s.
        to_server_slaves (send_command argv) (w\<lparr>w_server := s\<rparr>)))))"

text \<open>The debugging command \<^verbatim>\<open>CRDT.REPLICATION <server> <start> <len>\<close>.\<close>

definition crdtReplicationCommand ::
  "repl_server \<times> repl_server \<Rightarrow> net \<times> client \<Rightarrow> (net \<times> client) res" where
  "crdtReplicationCommand = (\<lambda>(server, crdtServer) (n, c).
     if length (c_argv c) < 4 then Inl OutOfBounds
     else
       let srv = (if strcaseeq (c_argv c ! 1) ''master'' then server else crdtServer);
           nullbulk = RawObj (''$-1'' @ crlf); argv = c_argv c
       in if repl_backlog srv = None then addReply (n, c) nullbulk
          else
            bindE (getLongLongFromObjectOrReply (n, c) (argv ! 2) None) (\<lambda>(v, st).
            case v of None \<Rightarrow> Inr st
            | Some start \<Rightarrow>
                bindE (getLongLongFromObjectOrReply st (argv ! 3) None) (\<lambda>(v, st).
                case v of None \<Rightarrow> Inr st
                | Some len \<Rightarrow>
                    if int (repl_backlog_idx srv) < start then addReply st nullbulk
                    else
                      bindE (backlog_read srv (start - repl_backlog_off srv) len) (\<lambda>pieces.
                      addReplyBulkCBuffer st (concat pieces)))))"

subsection \<open>The ring of recent bytes\<close>

text \<open>
  \<open>ring buf idx h\<close> reads the \<open>h\<close> bytes before the write index, oldest first; \<open>lastn n xs\<close> are the last \<open>n\<close>
  elements of \<open>xs\<close>.
\<close>

definition lastn :: "nat \<Rightarrow> 'a list \<Rightarrow> 'a list" where
  "lastn n xs = drop (length xs - n) xs"

definition ring :: "'a list \<Rightarrow> nat \<Rightarrow> nat \<Rightarrow> 'a list" where
  "ring buf idx h = map (\<lambda>k. buf ! ((idx + (length buf - h) + k) mod length buf)) [0..<h]"

definition put1 :: "'a list \<times> nat \<Rightarrow> 'a \<Rightarrow> 'a list \<times> nat" where
  "put1 = (\<lambda>(buf, idx) x. (buf[idx := x], if Suc idx = length buf then 0 else Suc idx))"

lemma length_lastn [simp]: "length (lastn n xs) = min n (length xs)"
  by (simp add: lastn_def)

lemma lastn_lastn_append: "lastn n (lastn n xs @ ys) = lastn n (xs @ ys)"
  by (cases "length xs \<le> n") (simp_all add: lastn_def add.commute)

lemma lastn_all: "length xs \<le> n \<Longrightarrow> lastn n xs = xs"
  by (simp add: lastn_def)

lemma map_lastn: "map f (lastn n xs) = lastn n (map f xs)"
  by (simp add: lastn_def drop_map)

lemma length_ring [simp]: "length (ring buf idx h) = h"
  by (simp add: ring_def)

lemma ring_nth: "k < h \<Longrightarrow> ring buf idx h ! k = buf ! ((idx + (length buf - h) + k) mod length buf)"
  by (simp add: ring_def)

lemma ring_put1:
  assumes "idx < length buf" "h \<le> length buf" "put1 (buf, idx) x = (buf', idx')"
  shows "ring buf' idx' (min (Suc h) (length buf)) = lastn (length buf) (ring buf idx h @ [x])"
proof (rule nth_equalityI)
  let ?n = "length buf"
  have b: "buf' = buf[idx := x]" and i: "idx' = Suc idx mod ?n"
    using assms by (auto simp: put1_def split: if_splits)
  show "length (ring buf' idx' (min (Suc h) ?n)) = length (lastn ?n (ring buf idx h @ [x]))" by simp
  fix k assume "k < length (ring buf' idx' (min (Suc h) ?n))"
  then have k: "k < Suc h" "k < ?n" by simp_all
  have pos: "(idx' + (?n - min (Suc h) ?n) + k) mod ?n = (idx + (?n - h) + (k + (Suc h - ?n))) mod ?n"
  proof (cases "h < ?n")
    case True
    have "(Suc idx mod ?n + (?n - Suc h + k)) mod ?n = (Suc idx + (?n - Suc h + k)) mod ?n"
      by (rule mod_add_left_eq)
    then have "(Suc idx mod ?n + (?n - min (Suc h) ?n) + k) mod ?n = (Suc idx + (?n - Suc h) + k) mod ?n"
      using True by (simp only: min_absorb1 Suc_leI add.assoc)
    moreover have "Suc idx + (?n - Suc h) + k = idx + (?n - h) + k" using True by simp
    ultimately show ?thesis using True i by simp
  next
    case False
    then have "h = ?n" using assms(2) by simp
    then show ?thesis by (simp add: i mod_simps)
  qed
  let ?j = "k + (Suc h - ?n)"
  have l: "lastn ?n (ring buf idx h @ [x]) ! k = (ring buf idx h @ [x]) ! ?j"
    unfolding lastn_def using k assms(2) by (subst nth_drop) (simp_all add: add.commute)
  have r: "ring buf' idx' (min (Suc h) ?n) ! k = buf' ! ((idx + (?n - h) + ?j) mod ?n)"
    using k by (simp add: ring_nth b flip: pos)
  show "ring buf' idx' (min (Suc h) ?n) ! k = lastn ?n (ring buf idx h @ [x]) ! k"
  proof (cases "?j < h")
    case True
    have "(idx + (?n - h) + ?j) mod ?n \<noteq> idx"
    proof
      assume "(idx + (?n - h) + ?j) mod ?n = idx"
      then have "(idx + (?n - h) + ?j) mod ?n = idx mod ?n" using assms(1) by simp
      then have "?n dvd (?n - h + ?j)" by (simp add: mod_eq_dvd_iff_nat)
      then show False using True assms(2) by (auto dest: dvd_imp_le)
    qed
    with True l r show ?thesis by (simp add: nth_append ring_nth b)
  next
    case False
    then have "?j = h" using k by auto
    moreover have "(idx + (?n - h) + h) mod ?n = idx" using assms(1,2) by simp
    ultimately show ?thesis using l r assms(1) by (simp add: nth_append b)
  qed
qed

lemma put1_bounds:
  assumes "idx < length buf" "put1 (buf, idx) x = (buf', idx')"
  shows "length buf' = length buf" "idx' < length buf"
  using assms by (auto simp: put1_def split: if_splits)

lemma ring_puts:
  assumes "idx < length buf" "h \<le> length buf" "foldl put1 (buf, idx) xs = (buf', idx')"
  shows "ring buf' idx' (min (h + length xs) (length buf)) = lastn (length buf) (ring buf idx h @ xs)
    \<and> length buf' = length buf \<and> idx' < length buf"
  using assms
proof (induction xs arbitrary: buf idx h)
  case Nil
  then show ?case by (simp add: lastn_all min_def)
next
  case (Cons x xs)
  obtain b i where bi: "put1 (buf, idx) x = (b, i)" by (cases "put1 (buf, idx) x")
  have n: "length b = length buf" "i < length b" using put1_bounds [OF Cons.prems(1) bi] by simp_all
  have r: "ring b i (min (Suc h) (length buf)) = lastn (length buf) (ring buf idx h @ [x])"
    by (rule ring_put1 [OF Cons.prems(1,2) bi])
  have "foldl put1 (b, i) xs = (buf', idx')" using Cons.prems(3) bi by simp
  from Cons.IH [OF n(2) _ this, of "min (Suc h) (length buf)"] n
  have "ring buf' idx' (min (min (Suc h) (length buf) + length xs) (length buf))
      = lastn (length buf) (lastn (length buf) (ring buf idx h @ [x]) @ xs)
    \<and> length buf' = length buf \<and> idx' < length buf" by (simp add: r)
  moreover have "min (min (Suc h) (length buf) + length xs) (length buf) = min (Suc h + length xs) (length buf)"
    by (auto simp: min_def)
  ultimately show ?case by (simp add: lastn_lastn_append)
qed

lemma puts_block:
  assumes "idx + length xs \<le> length buf" "idx < length buf"
  shows "foldl put1 (buf, idx) xs
    = (take idx buf @ xs @ drop (idx + length xs) buf,
       if idx + length xs = length buf then 0 else idx + length xs)"
  using assms
proof (induction xs arbitrary: buf idx)
  case Nil
  then show ?case by simp
next
  case (Cons x xs)
  show ?case
  proof (cases "Suc idx = length buf")
    case True
    then have "length xs = 0" using Cons.prems(1) unfolding list.size by linarith
    then have "xs = []" by simp
    with True Cons.prems show ?thesis by (simp add: put1_def upd_conv_take_nth_drop)
  next
    case False
    then have "foldl put1 (buf[idx := x], Suc idx) xs
      = (take (Suc idx) (buf[idx := x]) @ xs @ drop (Suc idx + length xs) (buf[idx := x]),
         if Suc idx + length xs = length buf then 0 else Suc idx + length xs)"
      using Cons.prems by (subst Cons.IH) simp_all
    moreover have "take (Suc idx) (buf[idx := x]) = take idx buf @ [x]"
      using Cons.prems(2) by (simp add: take_Suc_conv_app_nth)
    ultimately show ?thesis using False by (simp add: put1_def)
  qed
qed

lemma feed_loop_puts:
  assumes "idx < length buf"
  shows "feed_loop (length buf) buf idx hist p
    = (case foldl put1 (buf, idx) (map Some p) of (b, i) \<Rightarrow> Inr (b, i, hist + length p))"
  using assms
proof (induction p arbitrary: buf idx hist rule: length_induct)
  case (1 p)
  show ?case
  proof (cases "p = []")
    case True
    then show ?thesis by (subst feed_loop.simps) simp
  next
    case False
    define t where "t = min (length buf - idx) (length p)"
    obtain b i where bi: "foldl put1 (buf, idx) (map Some (take t p)) = (b, i)"
      by (cases "foldl put1 (buf, idx) (map Some (take t p))")
    have lt: "length (map Some (take t p)) = t" by (simp add: t_def)
    have t: "idx + length (map Some (take t p)) \<le> length buf" unfolding lt using "1.prems" by (simp add: t_def)
    have b: "b = take idx buf @ map Some (take t p) @ drop (idx + t) buf"
      "i = (if idx + t = length buf then 0 else idx + t)"
      using puts_block [OF t "1.prems"] bi unfolding lt by simp_all
    have n: "length b = length buf" "i < length b"
      using b lt t "1.prems" by auto
    have "feed_loop (length buf) buf idx hist p = feed_loop (length buf) b i (hist + t) (drop t p)"
      using False "1.prems" by (subst feed_loop.simps) (simp add: Let_def b flip: t_def)
    also have "\<dots> = feed_loop (length b) b i (hist + t) (drop t p)" by (simp only: n)
    also have "\<dots> = (case foldl put1 (b, i) (map Some (drop t p)) of
        (b, i) \<Rightarrow> Inr (b, i, hist + t + length (drop t p)))"
      using "1.IH" False "1.prems" n(2) by (simp add: t_def)
    also have "foldl put1 (b, i) (map Some (drop t p))
        = foldl put1 (buf, idx) (map Some (take t p) @ map Some (drop t p))"
      using bi by simp
    also have "map Some (take t p) @ map Some (drop t p) = map Some p"
      by (simp flip: map_append)
    also have "hist + t + length (drop t p) = hist + length p" by (simp add: t_def)
    finally show ?thesis .
  qed
qed

text \<open>
  \<open>backlog_holds srv bs\<close> is the abstraction relation: the backlog exists, its indices are in range, and
  its readable bytes are \<open>bs\<close>, the first of which has offset \<^verbatim>\<open>repl_backlog_off\<close>.
\<close>

definition backlog_holds :: "repl_server \<Rightarrow> string \<Rightarrow> bool" where
  "backlog_holds srv bs \<longleftrightarrow>
     (case repl_backlog srv of
        None \<Rightarrow> False
      | Some buf \<Rightarrow> length buf = repl_backlog_size srv \<and> repl_backlog_idx srv < length buf
          \<and> repl_backlog_histlen srv = length bs \<and> length bs \<le> length buf
          \<and> ring buf (repl_backlog_idx srv) (length bs) = map Some bs
          \<and> repl_backlog_off srv = master_repl_offset srv - int (length bs) + 1)"

definition repl_frame :: "repl_server \<Rightarrow> client list \<times> nat \<times> string \<times> string \<times> int \<times> int" where
  "repl_frame srv = (slaves srv, repl_backlog_size srv, replid srv, replid2 srv,
     second_replid_offset srv, slaveseldb srv)"

lemma feedReplicationBacklog_holds:
  assumes "backlog_holds srv bs"
  shows "\<exists>srv'. feedReplicationBacklog srv p = Inr srv'
    \<and> backlog_holds srv' (lastn (repl_backlog_size srv) (bs @ p))
    \<and> master_repl_offset srv' = master_repl_offset srv + int (length p) \<and> repl_frame srv' = repl_frame srv"
proof -
  obtain buf where buf: "repl_backlog srv = Some buf" "length buf = repl_backlog_size srv"
    "repl_backlog_idx srv < length buf" "repl_backlog_histlen srv = length bs" "length bs \<le> length buf"
    "ring buf (repl_backlog_idx srv) (length bs) = map Some bs"
    using assms by (auto simp: backlog_holds_def split: option.splits)
  obtain b i where bi: "foldl put1 (buf, repl_backlog_idx srv) (map Some p) = (b, i)"
    by (cases "foldl put1 (buf, repl_backlog_idx srv) (map Some p)")
  have f: "feed_loop (repl_backlog_size srv) buf (repl_backlog_idx srv) (repl_backlog_histlen srv) p
      = Inr (b, i, length bs + length p)"
    using feed_loop_puts [OF buf(3), of "length bs" p] bi buf(2,4) by simp
  have r: "ring b i (min (length bs + length p) (length buf)) = map Some (lastn (length buf) (bs @ p))"
    "length b = length buf" "i < length buf"
    using ring_puts [OF buf(3,5) bi] by (simp_all add: buf(6) map_lastn)
  let ?h = "min (length bs + length p) (repl_backlog_size srv)"
  have "feedReplicationBacklog srv p = Inr (srv\<lparr>master_repl_offset := master_repl_offset srv + int (length p),
      repl_backlog := Some b, repl_backlog_idx := i, repl_backlog_histlen := ?h,
      repl_backlog_off := master_repl_offset srv + int (length p) - int ?h + 1\<rparr>)"
    by (simp add: feedReplicationBacklog_def Let_def buf(1) f min_def)
  moreover have "?h = length (lastn (repl_backlog_size srv) (bs @ p))" by (simp add: min.commute)
  ultimately show ?thesis
    using r buf(2) by (simp add: backlog_holds_def repl_frame_def min.commute)
qed

subsection \<open>The interface of a bounded log\<close>

text \<open>
  What the writers of the stream rely on: a log that holds \<open>bs\<close> takes any bytes, then holds the last
  \<open>cap\<close> bytes of all it was given, advances its offset by their number and changes nothing else.
  Writing in pieces is writing the concatenation.
\<close>

definition logs :: "('s \<Rightarrow> string \<Rightarrow> bool) \<Rightarrow> ('s \<Rightarrow> nat) \<Rightarrow> ('s \<Rightarrow> int) \<Rightarrow> ('s \<Rightarrow> 'f)
    \<Rightarrow> ('s \<Rightarrow> 's res) \<Rightarrow> string \<Rightarrow> bool" where
  "logs holds cap off frame f p \<longleftrightarrow>
     (\<forall>s bs. holds s bs \<longrightarrow> (\<exists>s'. f s = Inr s' \<and> holds s' (lastn (cap s) (bs @ p))
        \<and> off s' = off s + int (length p) \<and> cap s' = cap s \<and> frame s' = frame s))"

lemma logs_bind:
  assumes "logs holds cap off frame f p" "logs holds cap off frame g q"
  shows "logs holds cap off frame (\<lambda>s. bindE (f s) g) (p @ q)"
  unfolding logs_def
proof (intro allI impI)
  fix s bs assume "holds s bs"
  with assms(1) obtain s' where s': "f s = Inr s'" "holds s' (lastn (cap s) (bs @ p))"
    "off s' = off s + int (length p)" "cap s' = cap s" "frame s' = frame s"
    unfolding logs_def by blast
  with assms(2) obtain s'' where "g s' = Inr s''"
    "holds s'' (lastn (cap s') (lastn (cap s) (bs @ p) @ q))"
    "off s'' = off s' + int (length q)" "cap s'' = cap s'" "frame s'' = frame s'"
    unfolding logs_def by blast
  with s' show "\<exists>s''. bindE (f s) g = Inr s'' \<and> holds s'' (lastn (cap s) (bs @ p @ q))
      \<and> off s'' = off s + int (length (p @ q)) \<and> cap s'' = cap s \<and> frame s'' = frame s"
    by (simp add: lastn_lastn_append)
qed

locale bounded_log =
  fixes holds :: "'s \<Rightarrow> string \<Rightarrow> bool" and cap :: "'s \<Rightarrow> nat" and off :: "'s \<Rightarrow> int"
    and frame :: "'s \<Rightarrow> 'f" and feed :: "'s \<Rightarrow> 'b \<Rightarrow> 's res" and bytes :: "'b \<Rightarrow> string" and ok :: "'b \<Rightarrow> bool"
  assumes feed_logs: "ok b \<Longrightarrow> logs holds cap off frame (\<lambda>s. feed s b) (bytes b)"
    and held_fits: "holds s bs \<Longrightarrow> length bs \<le> cap s"
begin

lemma feed_holds:
  assumes "ok b" "holds s bs"
  shows "\<exists>s'. feed s b = Inr s' \<and> holds s' (lastn (cap s) (bs @ bytes b))
    \<and> off s' = off s + int (length (bytes b)) \<and> frame s' = frame s"
  using feed_logs [OF assms(1)] assms(2) unfolding logs_def by blast

lemma feeds_log:
  "(\<And>b. b \<in> set ps \<Longrightarrow> ok b) \<Longrightarrow>
   logs holds cap off frame (foldE (\<lambda>b s. feed s b) ps) (concat (map bytes ps))"
proof (induction ps)
  case Nil
  then show ?case using held_fits by (simp add: logs_def lastn_all)
next
  case (Cons b ps)
  with logs_bind [OF feed_logs [of b], of "foldE (\<lambda>b s. feed s b) ps"] show ?case by simp
qed

end

abbreviation backlog_logs :: "(repl_server \<Rightarrow> repl_server res) \<Rightarrow> string \<Rightarrow> bool" where
  "backlog_logs \<equiv> logs backlog_holds repl_backlog_size master_repl_offset repl_frame"

lemma backlog_fits: "backlog_holds srv bs \<Longrightarrow> length bs \<le> repl_backlog_size srv"
  by (auto simp: backlog_holds_def split: option.splits)

lemma feed_string_logs: "backlog_logs (\<lambda>s. feedReplicationBacklog s p) p"
  unfolding logs_def using feedReplicationBacklog_holds by (fastforce simp: repl_frame_def)

interpretation stream_log: bounded_log backlog_holds repl_backlog_size master_repl_offset repl_frame
    feedReplicationBacklog "\<lambda>p. p" "\<lambda>_. True"
  by unfold_locales (simp_all add: feed_string_logs backlog_fits)

lemma feed_object_logs: "obj_ok obj \<Longrightarrow> backlog_logs (\<lambda>s. feedReplicationBacklogWithObject s obj) (obj_text obj)"
  using feed_string_logs
  by (cases obj) (simp_all add: feedReplicationBacklogWithObject_def obj_text_def obj_ok_def ll_text_show_int)

interpretation object_log: bounded_log backlog_holds repl_backlog_size master_repl_offset repl_frame
    feedReplicationBacklogWithObject obj_text obj_ok
  by unfold_locales (simp_all add: feed_object_logs backlog_fits)

lemma stringObjectLen_text: "obj_ok obj \<Longrightarrow> stringObjectLen obj = length (obj_text obj)"
  by (cases obj) (simp_all add: stringObjectLen_def obj_text_def obj_ok_def sdigits10_length)

lemma obj_text_length: "obj_ok obj \<Longrightarrow> int (length (obj_text obj)) \<le> LLONG_MAX"
  using length_show_int [of "case obj of IntObj v \<Rightarrow> v"]
  by (cases obj) (auto simp: obj_text_def obj_ok_def)

lemma aux_text_hdr: "LLONG_MIN \<le> v \<Longrightarrow> v \<le> LLONG_MAX \<Longrightarrow> aux_text p v = hdr_text p v"
  by (simp add: aux_text_def hdr_text_def ll_text_show_int)

lemma feed_bulk_logs:
  assumes "obj_ok obj"
  shows "backlog_logs (\<lambda>s. feed_bulk s obj) (bulk_text (obj_text obj))"
proof -
  have "aux_text (CHR ''$'') (int (stringObjectLen obj)) = hdr_text (CHR ''$'') (int (length (obj_text obj)))"
    using assms obj_text_length [OF assms] by (simp add: stringObjectLen_text aux_text_hdr)
  with logs_bind [OF feed_string_logs logs_bind [OF feed_object_logs [OF assms] feed_string_logs]]
  show ?thesis by (simp add: feed_bulk_def bulk_text_def)
qed

interpretation bulk_log: bounded_log backlog_holds repl_backlog_size master_repl_offset repl_frame
    feed_bulk "\<lambda>obj. bulk_text (obj_text obj)" obj_ok
  by unfold_locales (simp_all add: feed_bulk_logs backlog_fits)

definition cmd_ok :: "robj list \<Rightarrow> bool" where
  "cmd_ok argv \<longleftrightarrow> int (length argv) \<le> LLONG_MAX \<and> (\<forall>obj \<in> set argv. obj_ok obj)"

lemma feed_command_logs:
  assumes "cmd_ok argv"
  shows "backlog_logs (\<lambda>s. feed_command s argv) (command_text (map obj_text argv))"
proof -
  have "aux_text (CHR ''*'') (int (length argv)) = hdr_text (CHR ''*'') (int (length argv))"
    using assms by (simp add: cmd_ok_def aux_text_hdr)
  with logs_bind [OF feed_string_logs bulk_log.feeds_log] assms show ?thesis
    by (simp add: feed_command_def command_text_def cmd_ok_def comp_def)
qed

lemma send_command_emits:
  assumes "cmd_ok argv"
  shows "client_emits (send_command argv) (command_text (map obj_text argv))"
proof -
  have "client_emits (\<lambda>st. addReplyMultiBulkLen st (int (length argv))) (hdr_text (CHR ''*'') (int (length argv)))"
    using assms by (intro addReplyMultiBulkLen_emits) (simp_all add: cmd_ok_def)
  from emits_bind [OF this bulk_sink.puts_emit, of argv] assms show ?thesis
    by (simp add: send_command_def [abs_def] command_text_def cmd_ok_def comp_def)
qed

subsection \<open>Reading the ring\<close>

lemma mapE_read_byte: "mapE read_byte (map Some xs) = Inr xs"
  by (induction xs) (simp_all add: read_byte_def)

lemma read_loop_ring:
  assumes "length buf = sz" "j < sz" "map Some bs = map (\<lambda>k. buf ! ((j + k) mod sz)) [0..<length bs]"
  shows "\<exists>ps. read_loop sz buf j (length bs) = Inr ps \<and> concat ps = bs"
  using assms
proof (induction bs arbitrary: j rule: length_induct)
  case (1 bs)
  show ?case
  proof (cases "bs = []")
    case True
    then show ?thesis by (subst read_loop.simps) simp
  next
    case False
    define t where "t = (if sz - j < length bs then sz - j else length bs)"
    have t: "0 < t" "t \<le> length bs" "j + t \<le> sz" using False "1.prems"(2) by (auto simp: t_def)
    have nth: "k < length bs \<Longrightarrow> Some (bs ! k) = buf ! ((j + k) mod sz)" for k
      using arg_cong [OF "1.prems"(3), of "\<lambda>l. l ! k"] by simp
    have "take t (drop j buf) = map Some (take t bs)"
      using t "1.prems"(1) nth by (intro nth_equalityI) simp_all
    then have r: "mapE read_byte (take t (drop j buf)) = Inr (take t bs)" by (simp only: mapE_read_byte)
    have "\<exists>ps. read_loop sz buf 0 (length (drop t bs)) = Inr ps \<and> concat ps = drop t bs"
    proof (rule "1.IH" [rule_format])
      show "map Some (drop t bs) = map (\<lambda>k. buf ! ((0 + k) mod sz)) [0..<length (drop t bs)]"
      proof (rule nth_equalityI)
        fix k assume "k < length (map Some (drop t bs))"
        then have k: "t + k < length bs" and k': "k < length bs - t" by simp_all
        then have "j + t = sz" using "1.prems"(2) by (auto simp: t_def split: if_splits)
        then have "(j + (t + k)) mod sz = k mod sz" by (simp flip: add.assoc)
        with nth [OF k] k k' show "map Some (drop t bs) ! k = map (\<lambda>k. buf ! ((0 + k) mod sz)) [0..<length (drop t bs)] ! k"
          by simp
      qed simp
    qed (use t False "1.prems" in simp_all)
    then obtain ps where ps: "read_loop sz buf 0 (length bs - t) = Inr ps" "concat ps = drop t bs" by auto
    have "read_loop sz buf j (length bs) = Inr (take t bs # ps)"
      using False "1.prems"(2) r ps(1) by (subst read_loop.simps) (simp add: Let_def flip: t_def)
    with ps(2) show ?thesis by simp
  qed
qed

lemma c_rem_nat: "c_rem (int a) (int b) = int (a mod b)"
  by (simp add: c_rem_def zmod_int)

lemma backlog_read_suffix:
  assumes "backlog_holds srv bs" "skip \<le> length bs"
  shows "\<exists>ps. backlog_read srv (int skip) (int (length bs) - int skip) = Inr ps \<and> concat ps = drop skip bs"
proof (cases "skip = length bs")
  case True
  with assms(1) show ?thesis by (auto simp: backlog_read_def backlog_holds_def Let_def split: option.splits)
next
  case False
  obtain buf where buf: "repl_backlog srv = Some buf" "length buf = repl_backlog_size srv"
    "repl_backlog_idx srv < length buf" "repl_backlog_histlen srv = length bs" "length bs \<le> length buf"
    "ring buf (repl_backlog_idx srv) (length bs) = map Some bs"
    using assms by (auto simp: backlog_holds_def split: option.splits)
  let ?n = "repl_backlog_size srv" and ?i = "repl_backlog_idx srv"
  let ?j = "(?i + (?n - length bs) + skip) mod ?n"
  have a: "int ?i + (int ?n - int (length bs)) = int (?i + (?n - length bs))" using buf(2,5) by simp
  have j: "c_rem (c_rem (int ?i + (int ?n - int (length bs))) (int ?n) + int skip) (int ?n) = int ?j"
    unfolding a c_rem_nat of_nat_add [symmetric] by (simp only: mod_add_left_eq)
  have "map Some (drop skip bs) = map (\<lambda>k. buf ! ((?j + k) mod ?n)) [0..<length (drop skip bs)]"
  proof (rule nth_equalityI)
    fix k assume "k < length (map Some (drop skip bs))"
    then have k: "skip + k < length bs" and k': "k < length bs - skip" by simp_all
    from k have "Some (bs ! (skip + k)) = ring buf ?i (length bs) ! (skip + k)" by (simp add: buf(6))
    also have "\<dots> = buf ! ((?i + (?n - length bs) + (skip + k)) mod ?n)" using k buf(2) by (simp add: ring_nth)
    also have "(?i + (?n - length bs) + (skip + k)) mod ?n = (?j + k) mod ?n"
      by (simp add: mod_simps add.assoc)
    finally show "map Some (drop skip bs) ! k = map (\<lambda>k. buf ! ((?j + k) mod ?n)) [0..<length (drop skip bs)] ! k"
      using k k' by simp
  qed simp
  moreover have "?j < ?n" using buf(2,3) by simp
  ultimately obtain ps where ps: "read_loop ?n buf ?j (length (drop skip bs)) = Inr ps" "concat ps = drop skip bs"
    using read_loop_ring [OF buf(2), of ?j "drop skip bs"] by blast
  have len: "int (length bs) - int skip = int (length bs - skip)" using assms(2) by simp
  have "backlog_read srv (int skip) (int m) = read_loop ?n buf ?j m" if "m \<noteq> 0" for m
    unfolding backlog_read_def Let_def buf(1,4) option.case j using that by simp
  moreover have "length bs - skip \<noteq> 0" using False assms(2) by simp
  ultimately have "backlog_read srv (int skip) (int (length bs - skip)) = read_loop ?n buf ?j (length bs - skip)"
    by blast
  with ps show ?thesis unfolding len by simp
qed

end
