(* ===== verification/Repl_Stream.thy ===== *)
theory Repl_Stream
  imports Repl_Backlog
begin

section \<open>Correctness of the replication streams\<close>

text \<open>
  What the replicas can rely on: feeding the backlog refines appending to a stream of which the last
  bytes are kept, a partial resynchronisation sends exactly the bytes a replica is missing, and a
  propagated command reaches both backlogs and every attached replica as the same bytes.
\<close>

subsection \<open>Partial resynchronisation\<close>

lemma addReplyReplicationBacklog_suffix:
  assumes "backlog_holds srv bs" "ready st" "length (queued (snd st)) + length bs < out_cap"
    and "repl_backlog_off srv \<le> k" "k \<le> repl_backlog_off srv + int (length bs)"
  shows "\<exists>st'. addReplyReplicationBacklog srv st k
      = Inr (int (length bs) - (k - repl_backlog_off srv), st')
    \<and> queued (snd st') = queued (snd st) @ drop (nat (k - repl_backlog_off srv)) bs \<and> ready st'"
proof -
  define skip where "skip = nat (k - repl_backlog_off srv)"
  have k: "k - repl_backlog_off srv = int skip" "skip \<le> length bs" using assms(4,5) by (auto simp: skip_def)
  have h: "repl_backlog_histlen srv = length bs"
    using assms(1) by (auto simp: backlog_holds_def split: option.splits)
  show ?thesis
  proof (cases "bs = []")
    case True
    with k h assms(2) show ?thesis by (simp add: addReplyReplicationBacklog_def flip: skip_def)
  next
    case False
    obtain ps where ps: "backlog_read srv (int skip) (int (length bs) - int skip) = Inr ps"
      "concat ps = drop skip bs"
      using backlog_read_suffix [OF assms(1) k(2)] by blast
    have "client_emits (foldE (\<lambda>s st. addReplySds st s) ps) (drop skip bs)"
      using sds_sink.puts_emit [of ps] ps(2) by simp
    then obtain st' where "foldE (\<lambda>s st. addReplySds st s) ps st = Inr st'"
      "queued (snd st') = queued (snd st) @ drop skip bs" "ready st'"
      using assms(2,3) unfolding emits_def by fastforce
    with False h ps k show ?thesis
      by (simp add: addReplyReplicationBacklog_def flip: skip_def)
  qed
qed

lemma slave_client_ready:
  assumes "ready (n, c)"
  shows "ready (n, c\<lparr>c_flags := insert (if is_crdt then CLIENT_CRDT_SLAVE else CLIENT_SLAVE) (c_flags c),
      c_replstate := r, c_repl_ack_time := t, c_repl_put_online_on_ack := b\<rparr>)"
  using assms
  by (auto simp: ready_def writable_def getClientType_def obuf_wf_def list_bytes_def split: if_splits)

lemma psync_accepted:
  assumes "srv = (if is_crdt then crdtServer else server)" "backlog_holds srv bs" "ready (n, c)"
    and "length (c_argv c) = 3" "string2ll (c_argv c ! 2) = Some k"
    and "\<not> (is_crdt \<and> SLAVE_CAPA_BACKSTREAM \<in> c_slave_capa c)"
    and "length (queued c) + length bs < out_cap"
    and "psync_id_ok srv (c_argv c ! 1) k" and "repl_backlog_off srv \<le> k" and "k \<le> master_repl_offset srv + 1"
  shows "\<exists>server' crdt' n' c'. masterTryPartialResynchronization is_crdt (server, crdtServer) (n, c) True
       = Inr (Some ((if SLAVE_CAPA_PSYNC2 \<in> c_slave_capa c then ''+CONTINUE '' @ replid srv @ crlf else ''+CONTINUE'' @ crlf),
            server', crdt'), n', c')
     \<and> queued c' = queued c @ drop (nat (k - repl_backlog_off srv)) bs
     \<and> slaves (if is_crdt then crdt' else server') = slaves srv @ [c'] \<and> ready (n', c')"
proof -
  have b: "psync_in_backlog srv k" and le: "k \<le> repl_backlog_off srv + int (length bs)"
    using assms(2,9,10) by (auto simp: backlog_holds_def psync_in_backlog_def split: option.splits)
  have g: "getLongLongFromObjectOrReply (n, c) (c_argv c ! 2) None = Inr (Some k, n, c)"
    using assms(5) by (simp add: getLongLongFromObjectOrReply_def)
  let ?c = "c\<lparr>c_flags := insert (if is_crdt then CLIENT_CRDT_SLAVE else CLIENT_SLAVE) (c_flags c),
    c_replstate := SLAVE_STATE_ONLINE, c_repl_ack_time := net_unixtime n, c_repl_put_online_on_ack := False\<rparr>"
  have q: "queued ?c = queued c" by (simp add: queued_def list_bytes_def)
  have "length (queued (snd (n, ?c))) + length bs < out_cap" using q assms(7) by simp
  from addReplyReplicationBacklog_suffix [OF assms(2) slave_client_ready [OF assms(3)] this, of k]
  obtain v n' c' where a: "addReplyReplicationBacklog srv (n, ?c) k = Inr (v, n', c')"
    "queued c' = queued c @ drop (nat (k - repl_backlog_off srv)) bs" "ready (n', c')"
    using assms(9) le q by auto
  have sl: "slaves (refreshGoodSlavesCount s) = slaves s" for s
    by (simp add: refreshGoodSlavesCount_def)
  show ?thesis
  proof (cases is_crdt)
    case crdt: True
    with assms(1) have "crdtServer = srv" by simp
    with crdt a sl assms(4,6,8) g b show ?thesis
      by (simp add: masterTryPartialResynchronization_def Let_def)
  next
    case local: False
    with assms(1) have "server = srv" by simp
    with local a sl assms(4,6,8) g b show ?thesis
      by (simp add: masterTryPartialResynchronization_def Let_def)
  qed
qed

text \<open>
  C21. A partial resynchronisation is accepted exactly when the replica names the current replication
  id (or the previous one, up to the offset it is valid for) and an offset the backlog still covers,
  the offset after the last byte included; it then queues for the replica exactly the bytes from that
  offset to the end of the stream and attaches it as online. Otherwise nothing changes and the
  caller proceeds with a full resynchronisation.
\<close>

theorem masterTryPartialResynchronization_exact:
  assumes "srv = (if is_crdt then crdtServer else server)" "backlog_holds srv bs" "ready (n, c)"
    and "length (c_argv c) = 3" "string2ll (c_argv c ! 2) = Some k"
    and "\<not> (is_crdt \<and> SLAVE_CAPA_BACKSTREAM \<in> c_slave_capa c)"
    and "length (queued c) + length bs < out_cap"
  shows "if psync_id_ok srv (c_argv c ! 1) k \<and> repl_backlog_off srv \<le> k \<and> k \<le> master_repl_offset srv + 1
     then \<exists>line server' crdt' n' c'.
            masterTryPartialResynchronization is_crdt (server, crdtServer) (n, c) True
              = Inr (Some (line, server', crdt'), n', c')
          \<and> queued c' = queued c @ drop (nat (k - repl_backlog_off srv)) bs
          \<and> slaves (if is_crdt then crdt' else server') = slaves srv @ [c'] \<and> ready (n', c')
     else masterTryPartialResynchronization is_crdt (server, crdtServer) (n, c) True = Inr (None, n, c)"
proof (cases "psync_id_ok srv (c_argv c ! 1) k \<and> repl_backlog_off srv \<le> k \<and> k \<le> master_repl_offset srv + 1")
  case True
  then show ?thesis
    unfolding if_P [OF True] using psync_accepted [OF assms] by blast
next
  case False
  have "getLongLongFromObjectOrReply (n, c) (c_argv c ! 2) None = Inr (Some k, n, c)"
    using assms(5) by (simp add: getLongLongFromObjectOrReply_def)
  moreover have "psync_in_backlog srv k \<longleftrightarrow> repl_backlog_off srv \<le> k \<and> k \<le> master_repl_offset srv + 1"
    using assms(2) by (auto simp: backlog_holds_def psync_in_backlog_def split: option.splits)
  ultimately show ?thesis
    using False assms(4,6)
    by (auto simp: masterTryPartialResynchronization_def Let_def simp flip: assms(1))
qed

definition sample_stream :: repl_server where
  "sample_stream = \<lparr>slaves = [], repl_backlog = Some [Some (CHR ''e''), Some (CHR ''f''), Some (CHR ''c''), Some (CHR ''d'')],
     repl_backlog_size = 4, repl_backlog_histlen = 4, repl_backlog_idx = 2, repl_backlog_off = 3,
     master_repl_offset = 6, replid = ''abc'', replid2 = ''000'', second_replid_offset = - 1, slaveseldb = 0,
     repl_min_slaves_to_write = 0, repl_min_slaves_max_lag = 0, repl_good_slaves_count = 0, srv_unixtime = 0,
     rdb_child = None, aof_child = False, repl_diskless_sync = True, repl_diskless_sync_delay = 5, repl_timeout = 60,
     repl_backlog_time_limit = 3600, repl_no_slaves_since = 0\<rparr>"

lemma sample_stream_holds: "backlog_holds sample_stream ''cdef''"
  by code_simp

theorem masterTryPartialResynchronization_exact_witness:
  "\<exists>line server' crdt' n' c'.
     masterTryPartialResynchronization True (sample_stream, sample_stream)
       (blank_net, blank_client\<lparr>c_argv := [''psync'', ''ABC'', ''5'']\<rparr>) True
       = Inr (Some (line, server', crdt'), n', c')
   \<and> queued c' = ''ef'' \<and> slaves crdt' = [c'] \<and> ready (n', c')"
proof -
  let ?c = "blank_client\<lparr>c_argv := [''psync'', ''ABC'', ''5'']\<rparr>"
  have r: "ready (blank_net, ?c)" and q: "queued ?c = []"
    by (simp_all add: ready_def blank_defs writable_def getClientType_def obuf_wf_def list_bytes_def queued_def)
  have five: "''5'' = show_int 5" by code_simp
  have v: "string2ll (c_argv ?c ! 2) = Some 5" using string2ll_show_int [of 5] by (simp add: five)
  have "psync_id_ok sample_stream ''ABC'' 5" by code_simp
  then have i: "psync_id_ok sample_stream (c_argv ?c ! 1) 5" by simp
  have o: "repl_backlog_off sample_stream = 3" "master_repl_offset sample_stream = 6"
    "slaves sample_stream = []" by (simp_all add: sample_stream_def)
  have "length (queued ?c) + length ''cdef'' < out_cap" unfolding q by (simp add: out_cap_def)
  from masterTryPartialResynchronization_exact
    [of sample_stream True sample_stream sample_stream, OF _ sample_stream_holds r _ v _ this]
  show ?thesis using i o q by (simp add: blank_client_def)
qed

subsection \<open>The backlog refines the end of the stream\<close>

lemma createServerReplicationBacklog_holds:
  assumes "repl_backlog srv = None" "0 < repl_backlog_size srv"
  shows "\<exists>srv'. createServerReplicationBacklog srv = Inr srv' \<and> backlog_holds srv' []
    \<and> master_repl_offset srv' = master_repl_offset srv \<and> repl_frame srv' = repl_frame srv"
  using assms by (simp add: createServerReplicationBacklog_def backlog_holds_def ring_def repl_frame_def)

lemma feeds_hold:
  assumes "backlog_holds srv bs"
  obtains srv' where "foldE (\<lambda>p s. feedReplicationBacklog s p) ps srv = Inr srv'"
    and "backlog_holds srv' (lastn (repl_backlog_size srv) (bs @ concat ps))"
    and "master_repl_offset srv' = master_repl_offset srv + int (length (concat ps))"
    and "repl_frame srv' = repl_frame srv"
proof -
  have "backlog_logs (foldE (\<lambda>p s. feedReplicationBacklog s p) ps) (concat ps)"
    using stream_log.feeds_log [of ps] by simp
  with assms that show thesis unfolding logs_def by blast
qed

text \<open>
  C20. Refinement: the circular buffer is the tail of an append-only stream. From a backlog holding \<open>bs\<close>,
  any sequence of feeds returns (the copy loop terminates and stays inside the buffer), leaves it
  holding the last \<^verbatim>\<open>repl_backlog_size\<close> bytes of \<open>bs\<close> and everything fed, and advances the replication
  offset by exactly the number of bytes fed.
\<close>

theorem feedReplicationBacklog_refines_stream:
  assumes "backlog_holds srv bs"
  shows "\<exists>srv'. foldE (\<lambda>p s. feedReplicationBacklog s p) ps srv = Inr srv'
     \<and> backlog_holds srv' (lastn (repl_backlog_size srv) (bs @ concat ps))
     \<and> master_repl_offset srv' = master_repl_offset srv + int (length (concat ps))
     \<and> repl_frame srv' = repl_frame srv"
  using feeds_hold [OF assms, of ps] by blast

theorem feedReplicationBacklog_refines_stream_witness:
  "\<exists>srv'. foldE (\<lambda>p s. feedReplicationBacklog s p) [''gh'', ''i''] sample_stream = Inr srv'
     \<and> backlog_holds srv' ''fghi'' \<and> master_repl_offset srv' = 9 \<and> repl_frame srv' = repl_frame sample_stream"
proof -
  have "repl_backlog_size sample_stream = 4" "master_repl_offset sample_stream = 6"
    by (simp_all add: sample_stream_def)
  with feedReplicationBacklog_refines_stream [OF sample_stream_holds, of "[''gh'', ''i'']"]
  show ?thesis by (simp add: lastn_def)
qed

text \<open>
  A replica that lost its connection catches up: when a stream is started, fed any pieces, and
  asked for the bytes from the \<open>d\<close>-th on, at most \<^verbatim>\<open>repl_backlog_size\<close> of them, the replica receives
  exactly the stream without its first \<open>d\<close> bytes, however often the buffer has wrapped around.
\<close>

theorem psync_catches_up:
  assumes "repl_backlog srv = None" "0 < repl_backlog_size srv" "d \<le> length (concat ps)"
    and "length (concat ps) - d \<le> repl_backlog_size srv" "ready st"
    and "length (queued (snd st)) + repl_backlog_size srv < out_cap"
  shows "\<exists>v st'. bindE (createServerReplicationBacklog srv) (\<lambda>s.
       bindE (foldE (\<lambda>p s. feedReplicationBacklog s p) ps s) (\<lambda>s.
       addReplyReplicationBacklog s st (master_repl_offset srv + 1 + int d))) = Inr (v, st')
     \<and> queued (snd st') = queued (snd st) @ drop d (concat ps)"
proof -
  obtain s0 where s0: "createServerReplicationBacklog srv = Inr s0" "backlog_holds s0 []"
    "master_repl_offset s0 = master_repl_offset srv" "repl_frame s0 = repl_frame srv"
    using createServerReplicationBacklog_holds [OF assms(1,2)] by blast
  let ?all = "concat ps" and ?n = "repl_backlog_size srv"
  have n: "repl_backlog_size s0 = ?n" using s0(4) by (simp add: repl_frame_def)
  obtain s1 where s1: "foldE (\<lambda>p s. feedReplicationBacklog s p) ps s0 = Inr s1"
    "backlog_holds s1 (lastn ?n ?all)" "master_repl_offset s1 = master_repl_offset srv + int (length ?all)"
    using feeds_hold [OF s0(2), of ps] s0(3) n by auto
  let ?bs = "lastn ?n ?all" and ?k = "master_repl_offset srv + 1 + int d"
  have off: "repl_backlog_off s1 = master_repl_offset srv + int (length ?all) - int (length ?bs) + 1"
    using s1(2,3) by (auto simp: backlog_holds_def split: option.splits)
  then have sk: "?k - repl_backlog_off s1 = int (d - (length ?all - ?n))"
    using assms(3,4) by (auto simp: min_def)
  have cap: "length (queued (snd st)) + length ?bs < out_cap" using assms(6) by simp
  have k: "repl_backlog_off s1 \<le> ?k" "?k \<le> repl_backlog_off s1 + int (length ?bs)"
    using sk assms(3,4) by (auto simp: min_def)
  from addReplyReplicationBacklog_suffix [OF s1(2) assms(5) cap k]
  obtain v st' where st': "addReplyReplicationBacklog s1 st ?k = Inr (v, st')"
    "queued (snd st') = queued (snd st) @ drop (nat (?k - repl_backlog_off s1)) ?bs" by blast
  have "drop (nat (?k - repl_backlog_off s1)) ?bs = drop d ?all"
    unfolding sk nat_int using assms(3,4) by (simp add: lastn_def)
  with s0(1) s1(1) st' show ?thesis by simp
qed

theorem psync_catches_up_witness:
  "\<exists>v st'. bindE (createServerReplicationBacklog (sample_stream\<lparr>repl_backlog := None\<rparr>)) (\<lambda>s.
       bindE (foldE (\<lambda>p s. feedReplicationBacklog s p) [''abcd'', ''efg''] s) (\<lambda>s.
       addReplyReplicationBacklog s (blank_net, blank_client) 11)) = Inr (v, st')
     \<and> queued (snd st') = ''efg''"
proof -
  let ?s = "sample_stream\<lparr>repl_backlog := None\<rparr>"
  have s: "repl_backlog ?s = None" "0 < repl_backlog_size ?s" "master_repl_offset ?s = 6" "repl_backlog_size ?s = 4"
    by (simp_all add: sample_stream_def)
  have q: "queued blank_client = []" by (simp add: queued_def list_bytes_def blank_client_def)
  have "length (queued (snd (blank_net, blank_client))) + repl_backlog_size ?s < out_cap"
    unfolding s snd_conv q by (simp add: out_cap_def)
  from psync_catches_up [OF s(1,2) _ _ blank_ready this, of 4 "[''abcd'', ''efg'']"] show ?thesis
    unfolding s snd_conv q by simp
qed

subsection \<open>Everybody receives the same bytes\<close>

text \<open>Output operations do not touch the replication state of the client.\<close>

definition keeps_state :: "(net \<times> client \<Rightarrow> (net \<times> client) res) \<Rightarrow> bool" where
  "keeps_state f \<longleftrightarrow> (\<forall>st st'. f st = Inr st' \<longrightarrow> c_replstate (snd st') = c_replstate (snd st))"

lemma keeps_state_bind:
  "keeps_state f \<Longrightarrow> keeps_state g \<Longrightarrow> keeps_state (\<lambda>st. bindE (f st) g)"
  by (auto simp: keeps_state_def bindE_eq_Inr)

lemma keeps_state_fold: "(\<And>x. keeps_state (\<lambda>st. f x st)) \<Longrightarrow> keeps_state (foldE f xs)"
proof (induction xs)
  case Nil
  then show ?case by (simp add: keeps_state_def)
next
  case (Cons x xs)
  then have "keeps_state (\<lambda>st. bindE (f x st) (foldE f xs))" by (intro keeps_state_bind) auto
  then show ?case by (simp add: keeps_state_def)
qed

lemma asyncClose_replstate:
  assumes "asyncCloseClientOnOutputBufferLimitReached (n, c) = Inr (n', c')"
  shows "c_replstate c' = c_replstate c"
proof -
  have "checkClientOutputBufferLimits n c = Inr (b, d) \<Longrightarrow> c_replstate d = c_replstate c" for b d
    by (auto simp: checkClientOutputBufferLimits_def Let_def split: if_splits)
  with assms show ?thesis
    by (auto simp: asyncCloseClientOnOutputBufferLimitReached_def freeClientAsync_def bindE_eq_Inr
        split: if_splits)
qed

lemma queue_bytes_keeps: "keeps_state (\<lambda>st. queue_bytes st s)"
  unfolding keeps_state_def
proof (intro allI impI)
  fix st st' :: "net \<times> client" assume r: "queue_bytes st s = Inr st'"
  obtain n c n' c' where st: "st = (n, c)" "st' = (n', c')" by (cases st; cases st')
  obtain b n1 c1 where p: "prepareClientToWrite (n, c) = (b, n1, c1)" by (cases "prepareClientToWrite (n, c)")
  have c1: "c_replstate c1 = c_replstate c"
    using p prepareClientToWrite_cases [of n c] by auto
  obtain b2 c2 where a: "addReplyToBuffer c1 s = (b2, c2)" by (cases "addReplyToBuffer c1 s")
  have c2: "c_replstate c2 = c_replstate c1"
    using a by (auto simp: addReplyToBuffer_def split: if_splits)
  have "c_replstate (reply_list_append c2 s) = c_replstate c2"
    by (simp add: reply_list_append_def Let_def)
  with r p a c1 c2 show "c_replstate (snd st') = c_replstate (snd st)"
    by (auto simp: st queue_bytes_def addReplyStringToList_def dest!: asyncClose_replstate
        split: bool.splits if_splits)
qed

lemma addReply_keeps: "keeps_state (\<lambda>st. addReply st (RawObj s))" "keeps_state (\<lambda>st. addReplyString st s)"
  using queue_bytes_keeps [of s] by (simp_all add: queue_bytes_eq)

lemma addReply_int: "addReply st (IntObj v) = queue_bytes st (ll_text 32 v)"
  by (auto simp: addReply_def queue_bytes_def list_functions_agree addReplyToBuffer_def
      split: prod.splits bool.splits)

lemma addReply_obj_keeps: "keeps_state (\<lambda>st. addReply st obj)"
  using queue_bytes_keeps by (cases obj) (simp_all add: addReply_int queue_bytes_eq)

lemma prefix_keeps: "keeps_state (\<lambda>st. addReplyLongLongWithPrefix st k p)"
  using addReply_obj_keeps [of "shared_hdr (CHR ''*'') k"] addReply_obj_keeps [of "shared_hdr (CHR ''$'') k"]
    addReply_keeps(2) [of "p # ll_text 127 k @ crlf"]
  by (simp add: addReplyLongLongWithPrefix_def keeps_state_def)

lemma send_command_keeps: "keeps_state (send_command argv)"
proof -
  have "keeps_state (\<lambda>st. addReplyMultiBulkLen st k)" for k
    using addReply_obj_keeps [of "shared_hdr (CHR ''*'') k"] prefix_keeps [of k "CHR ''*''"]
    by (simp add: addReplyMultiBulkLen_def keeps_state_def)
  moreover have bl: "keeps_state (\<lambda>st. addReplyBulkLen st obj)" for obj
    using addReply_obj_keeps [of "shared_hdr (CHR ''$'') (int (obj_len obj))"]
      prefix_keeps [of "int (obj_len obj)" "CHR ''$''"]
    by (simp add: addReplyBulkLen_def keeps_state_def Let_def)
  have "keeps_state (\<lambda>st. addReplyBulk st obj)" for obj
    unfolding addReplyBulk_def
    by (rule keeps_state_bind [OF bl keeps_state_bind [OF addReply_obj_keeps addReply_obj_keeps]])
  then have "keeps_state (foldE (\<lambda>obj st. addReplyBulk st obj) argv)" by (rule keeps_state_fold)
  ultimately show ?thesis
    using keeps_state_bind unfolding send_command_def [abs_def] by blast
qed

text \<open>
  \<open>receives T\<close> relates a replica before and after: replicas waiting for their snapshot are untouched, the
  others are owed \<open>T\<close> in addition. \<open>slaves_ready n l m\<close>: the replicas can take \<open>m\<close> more bytes.
\<close>

definition receives :: "string \<Rightarrow> client \<Rightarrow> client \<Rightarrow> bool" where
  "receives T c c' \<longleftrightarrow> c_replstate c' = c_replstate c
     \<and> (if c_replstate c = SLAVE_STATE_WAIT_BGSAVE_START then c' = c else queued c' = queued c @ T)"

definition slaves_ready :: "net \<Rightarrow> client list \<Rightarrow> nat \<Rightarrow> bool" where
  "slaves_ready n l m \<longleftrightarrow> length (client_obuf_limits n) = 5
     \<and> (\<forall>c \<in> set l. c_replstate c \<noteq> SLAVE_STATE_WAIT_BGSAVE_START \<longrightarrow>
          ready (n, c) \<and> length (queued c) + m < out_cap)"

lemma slaves_ready_net:
  "slaves_ready n l m \<Longrightarrow> length (client_obuf_limits n') = 5 \<Longrightarrow> slaves_ready n' l m"
  by (auto simp: slaves_ready_def ready_def)

lemma slaves_ready_limits: "slaves_ready n l m \<Longrightarrow> length (client_obuf_limits n) = 5"
  by (simp add: slaves_ready_def)

lemma to_slaves_receives:
  assumes "client_emits f T" "keeps_state f" "slaves_ready n l (length T + m)"
  shows "\<exists>n' l'. to_slaves f n l = Inr (n', l') \<and> list_all2 (receives T) l l' \<and> slaves_ready n' l' m"
  using assms(3)
proof (induction l arbitrary: n)
  case Nil
  then show ?case by (simp add: slaves_ready_def)
next
  case (Cons c l)
  have "\<exists>n1 c1. (if c_replstate c = SLAVE_STATE_WAIT_BGSAVE_START then Inr (n, c) else f (n, c)) = Inr (n1, c1)
    \<and> receives T c c1 \<and> slaves_ready n1 [c1] m"
  proof (cases "c_replstate c = SLAVE_STATE_WAIT_BGSAVE_START")
    case True
    with Cons.prems show ?thesis by (simp add: receives_def slaves_ready_def)
  next
    case False
    with Cons.prems have r: "ready (n, c)" "length (queued c) + length T < out_cap"
      "length (queued c) + (length T + m) < out_cap" by (simp_all add: slaves_ready_def)
    with assms(1) obtain st where st: "f (n, c) = Inr st" "queued (snd st) = queued c @ T" "ready st"
      unfolding emits_def by fastforce
    have "c_replstate (snd st) = c_replstate c" using assms(2) st(1) by (cases st) (auto simp: keeps_state_def)
    with st r(3) False show ?thesis
      by (cases st) (auto simp: receives_def slaves_ready_def ready_def)
  qed
  then obtain n1 c1 where c1: "(if c_replstate c = SLAVE_STATE_WAIT_BGSAVE_START then Inr (n, c) else f (n, c))
      = Inr (n1, c1)" "receives T c c1" "slaves_ready n1 [c1] m" by blast
  have "slaves_ready n1 l (length T + m)"
  proof (rule slaves_ready_net)
    show "slaves_ready n l (length T + m)" using Cons.prems by (simp add: slaves_ready_def)
    show "length (client_obuf_limits n1) = 5" using c1(3) by (simp add: slaves_ready_def)
  qed
  from Cons.IH [OF this] obtain n2 l2 where l2: "to_slaves f n1 l = Inr (n2, l2)"
    "list_all2 (receives T) l l2" "slaves_ready n2 l2 m" by blast
  have "slaves_ready n2 [c1] m"
    by (rule slaves_ready_net [OF c1(3) slaves_ready_limits [OF l2(3)]])
  with c1 l2 show ?case by (auto simp: slaves_ready_def)
qed

text \<open>
  \<open>fed w w' T\<close>: between two states of the process, both backlogs were extended by \<open>T\<close> (each keeping the
  end that fits) and every replica of both streams receives \<open>T\<close>.
\<close>

definition srv_fed :: "string \<Rightarrow> repl_server \<Rightarrow> repl_server \<Rightarrow> bool" where
  "srv_fed T s s' \<longleftrightarrow> repl_backlog_size s' = repl_backlog_size s
     \<and> (\<forall>bs. backlog_holds s bs \<longrightarrow> backlog_holds s' (lastn (repl_backlog_size s) (bs @ T)))
     \<and> master_repl_offset s' = master_repl_offset s + int (length T)
     \<and> list_all2 (receives T) (slaves s) (slaves s')"

definition fed :: "string \<Rightarrow> repl_world \<Rightarrow> repl_world \<Rightarrow> bool" where
  "fed T w w' \<longleftrightarrow> srv_fed T (w_server w) (w_server w') \<and> srv_fed T (w_crdt w) (w_crdt w')"

definition world_ready :: "repl_world \<Rightarrow> nat \<Rightarrow> bool" where
  "world_ready w m \<longleftrightarrow> (\<exists>bs. backlog_holds (w_server w) bs) \<and> (\<exists>bs. backlog_holds (w_crdt w) bs)
     \<and> slaves_ready (w_net w) (slaves (w_server w)) m \<and> slaves_ready (w_net w) (slaves (w_crdt w)) m"

lemma receives_trans: "receives A c d \<Longrightarrow> receives B d e \<Longrightarrow> receives (A @ B) c e"
  by (auto simp: receives_def split: if_splits)

lemma srv_fed_trans:
  assumes "srv_fed A r s" "srv_fed B s t"
  shows "srv_fed (A @ B) r t"
proof -
  have "list_all2 (receives (A @ B)) (slaves r) (slaves t)"
    using receives_trans by (rule list_all2_trans) (use assms in \<open>auto simp: srv_fed_def\<close>)
  with assms show ?thesis
    unfolding srv_fed_def by (metis add.assoc append.assoc lastn_lastn_append length_append of_nat_add)
qed

lemma fed_trans: "fed A u v \<Longrightarrow> fed B v w \<Longrightarrow> fed (A @ B) u w"
  unfolding fed_def using srv_fed_trans by blast

lemma backlog_holds_slaves [simp]: "backlog_holds (s\<lparr>slaves := l\<rparr>) bs = backlog_holds s bs"
  "backlog_holds (s\<lparr>slaveseldb := d\<rparr>) bs = backlog_holds s bs"
  by (simp_all add: backlog_holds_def split: option.split)

lemma fed_phase:
  assumes f: "backlog_logs f T" and g: "client_emits g T" "keeps_state g" and w: "world_ready w (length T + m)"
  shows "\<exists>w'. bindE (f (w_server w)) (\<lambda>s. bindE (f (w_crdt w)) (\<lambda>c.
      bindE (to_server_slaves g (w\<lparr>w_server := s, w_crdt := c\<rparr>)) (\<lambda>w. to_crdt_slaves g w))) = Inr w'
    \<and> fed T w w' \<and> world_ready w' m"
proof -
  have fs: "\<exists>s'. f s = Inr s' \<and> (\<forall>bs. backlog_holds s bs \<longrightarrow> backlog_holds s' (lastn (repl_backlog_size s) (bs @ T)))
      \<and> master_repl_offset s' = master_repl_offset s + int (length T) \<and> repl_frame s' = repl_frame s"
    if "backlog_holds s b" for s b
    using f that unfolding logs_def by (metis sum.inject(2))
  obtain s where s: "f (w_server w) = Inr s"
    "\<forall>bs. backlog_holds (w_server w) bs \<longrightarrow> backlog_holds s (lastn (repl_backlog_size (w_server w)) (bs @ T))"
    "master_repl_offset s = master_repl_offset (w_server w) + int (length T)" "repl_frame s = repl_frame (w_server w)"
    using fs w unfolding world_ready_def by blast
  obtain c where c: "f (w_crdt w) = Inr c"
    "\<forall>bs. backlog_holds (w_crdt w) bs \<longrightarrow> backlog_holds c (lastn (repl_backlog_size (w_crdt w)) (bs @ T))"
    "master_repl_offset c = master_repl_offset (w_crdt w) + int (length T)" "repl_frame c = repl_frame (w_crdt w)"
    using fs w unfolding world_ready_def by blast
  have sl: "slaves s = slaves (w_server w)" "slaves c = slaves (w_crdt w)"
    "repl_backlog_size s = repl_backlog_size (w_server w)" "repl_backlog_size c = repl_backlog_size (w_crdt w)"
    using s(4) c(4) by (simp_all add: repl_frame_def)
  obtain n1 l1 where 1: "to_slaves g (w_net w) (slaves (w_server w)) = Inr (n1, l1)"
    "list_all2 (receives T) (slaves (w_server w)) l1" "slaves_ready n1 l1 m"
    using to_slaves_receives [OF g] w unfolding world_ready_def by blast
  have "slaves_ready n1 (slaves (w_crdt w)) (length T + m)"
    using w slaves_ready_net [OF _ slaves_ready_limits [OF 1(3)]] by (auto simp: world_ready_def)
  then obtain n2 l2 where 2: "to_slaves g n1 (slaves (w_crdt w)) = Inr (n2, l2)"
    "list_all2 (receives T) (slaves (w_crdt w)) l2" "slaves_ready n2 l2 m"
    using to_slaves_receives [OF g] by blast
  have "slaves_ready n2 l1 m"
    by (rule slaves_ready_net [OF 1(3) slaves_ready_limits [OF 2(3)]])
  moreover have "\<exists>bs. backlog_holds (s\<lparr>slaves := l1\<rparr>) bs" "\<exists>bs. backlog_holds (c\<lparr>slaves := l2\<rparr>) bs"
    using s(2) c(2) w backlog_holds_slaves(1) unfolding world_ready_def by metis+
  ultimately show ?thesis
    using s c sl 1 2 w
    by (auto simp: to_server_slaves_def to_crdt_slaves_def fed_def srv_fed_def world_ready_def)
qed

lemma world_backlogs: "world_ready w m \<Longrightarrow> repl_backlog (w_server w) \<noteq> None \<and> repl_backlog (w_crdt w) \<noteq> None"
  by (auto simp: world_ready_def backlog_holds_def split: option.splits)

lemma replicationFeedRobj_fed:
  assumes "obj_ok obj" "world_ready w (length (obj_text obj) + m)"
  shows "\<exists>w'. replicationFeedRobj obj w = Inr w' \<and> fed (obj_text obj) w w' \<and> world_ready w' m"
  using fed_phase [OF feed_object_logs [OF assms(1)] addReply_emits [OF assms(1)] addReply_obj_keeps assms(2)]
    world_backlogs [OF assms(2)]
  by (simp add: replicationFeedRobj_def)

lemma replicationFeedString_fed:
  assumes "world_ready w (length p + m)"
  shows "\<exists>w'. replicationFeedString p w = Inr w' \<and> fed p w w' \<and> world_ready w' m"
  using fed_phase [OF feed_string_logs raw_sink.put_emits [OF TrueI] addReply_keeps(2) assms] world_backlogs [OF assms]
  by (simp add: replicationFeedString_def feed_if_backlog_def)

lemma crdt_select_command:
  assumes "LLONG_MIN \<le> gid" "gid \<le> LLONG_MAX" "LLONG_MIN \<le> dictid" "dictid \<le> LLONG_MAX"
  shows "crdt_select_text gid dictid = command_text [''CRDT.SELECT'', show_int gid, show_int dictid]"
proof -
  have n: "show_int 3 = ''3''" "show_int 11 = ''11''" by code_simp+
  show ?thesis
    using assms by (simp add: crdt_select_text_def command_text_def bulk_text_def hdr_text_def ll_text_show_int n Let_def)
qed

lemma select_done_fed: "fed T u w \<Longrightarrow> fed T u (select_done d w)" "world_ready (select_done d w) m = world_ready w m"
  "fed T (select_done d w) v = fed T w v"
proof -
  have sel: "backlog_holds (w_server (select_done d w)) = backlog_holds (w_server w)"
    "backlog_holds (w_crdt (select_done d w)) = backlog_holds (w_crdt w)"
    "slaves (w_server (select_done d w)) = slaves (w_server w)" "slaves (w_crdt (select_done d w)) = slaves (w_crdt w)"
    "w_net (select_done d w) = w_net w"
    "repl_backlog_size (w_server (select_done d w)) = repl_backlog_size (w_server w)"
    "repl_backlog_size (w_crdt (select_done d w)) = repl_backlog_size (w_crdt w)"
    "master_repl_offset (w_server (select_done d w)) = master_repl_offset (w_server w)"
    "master_repl_offset (w_crdt (select_done d w)) = master_repl_offset (w_crdt w)"
    by (auto simp: select_done_def fun_eq_iff)
  show "fed T u w \<Longrightarrow> fed T u (select_done d w)" "fed T (select_done d w) v = fed T w v"
    unfolding fed_def srv_fed_def sel by assumption (rule refl)
  show "world_ready (select_done d w) m = world_ready w m" by (simp only: world_ready_def sel)
qed

lemma fed_refl: "fed [] w w"
proof -
  have "backlog_holds s bs \<Longrightarrow> backlog_holds s (lastn (repl_backlog_size s) bs)" for s bs
    using backlog_fits [of s bs] by (simp add: lastn_all)
  moreover have "list_all2 (receives []) l l" for l by (rule list_all2_refl) (simp add: receives_def)
  ultimately show ?thesis by (simp add: fed_def srv_fed_def)
qed

text \<open>The bytes a propagated command adds: a \<^verbatim>\<open>CRDT.SELECT\<close> when the database changes, then the command.\<close>

definition feed_text :: "repl_env \<Rightarrow> int \<Rightarrow> repl_world \<Rightarrow> string" where
  "feed_text env dictid w =
     (if slaveseldb (w_server w) \<noteq> dictid \<or> slaveseldb (w_crdt w) \<noteq> dictid
      then command_text [''CRDT.SELECT'', show_int (env_crdt_gid env), show_int dictid] else [])"

lemma select_phase:
  assumes "LLONG_MIN \<le> env_crdt_gid env" "env_crdt_gid env \<le> LLONG_MAX" "LLONG_MIN \<le> dictid" "dictid \<le> LLONG_MAX"
    and "world_ready w (length (feed_text env dictid w) + m)"
  shows "\<exists>w'. (if slaveseldb (w_server w) \<noteq> dictid \<or> slaveseldb (w_crdt w) \<noteq> dictid
       then replicationFeedRobj (RawObj (crdt_select_text (env_crdt_gid env) dictid)) w else Inr w) = Inr w'
    \<and> fed (feed_text env dictid w) w (select_done dictid w') \<and> world_ready (select_done dictid w') m"
proof (cases "slaveseldb (w_server w) \<noteq> dictid \<or> slaveseldb (w_crdt w) \<noteq> dictid")
  case True
  let ?t = "crdt_select_text (env_crdt_gid env) dictid"
  have t: "feed_text env dictid w = ?t" using True assms(1-4) by (simp add: feed_text_def crdt_select_command)
  have g: "length (show_int (env_crdt_gid env)) \<le> 20" "length (show_int dictid) \<le> 20"
    using assms(1-4) by (auto intro: length_show_int)
  have k: "length (show_int (int k)) \<le> 20" if "k \<le> 20" for k
    using that by (intro length_show_int) auto
  have "length ?t \<le> 200"
    using assms(1-4) g k [OF g(1)] k [OF g(2)]
    by (simp add: crdt_select_text_def ll_text_show_int Let_def)
  then have "obj_ok (RawObj ?t)" by (simp add: obj_ok_def)
  from replicationFeedRobj_fed [OF this, of w m] assms(5) show ?thesis
    unfolding t using True by (auto simp: obj_text_def select_done_fed)
next
  case False
  then have t: "feed_text env dictid w = []" by (simp add: feed_text_def)
  with False assms(5) fed_refl show ?thesis by (auto simp: select_done_fed)
qed

text \<open>
  C22. Everybody sees the same stream: with both backlogs in place and replicas that take writes,
  \<open>replicationFeedAllSlaves\<close> returns and appends one and the same byte string to the local backlog, to
  the peer backlog and to every attached replica and peer (those still waiting for a snapshot to start
  excepted): the \<^verbatim>\<open>CRDT.SELECT\<close> command when the selected database changes, then the command in
  protocol format, so that both offsets advance by the same amount.
\<close>

theorem replicationFeedAllSlaves_same_bytes:
  assumes "\<not> proxies_master env" "cmd_ok argv"
    and "LLONG_MIN \<le> env_crdt_gid env" "env_crdt_gid env \<le> LLONG_MAX" "LLONG_MIN \<le> dictid" "dictid \<le> LLONG_MAX"
    and "T = feed_text env dictid w @ command_text (map obj_text argv)" "world_ready w (length T)"
  shows "\<exists>w'. replicationFeedAllSlaves env dictid argv w = Inr w' \<and> fed T w w'"
proof -
  let ?c = "command_text (map obj_text argv)"
  have "world_ready w (length (feed_text env dictid w) + length ?c)" using assms(7,8) by simp
  from select_phase [OF assms(3-6) this] obtain w1 where
    w1: "(if slaveseldb (w_server w) \<noteq> dictid \<or> slaveseldb (w_crdt w) \<noteq> dictid
       then replicationFeedRobj (RawObj (crdt_select_text (env_crdt_gid env) dictid)) w else Inr w) = Inr w1"
    "fed (feed_text env dictid w) w (select_done dictid w1)" "world_ready (select_done dictid w1) (length ?c + 0)"
    by auto
  from fed_phase [OF feed_command_logs [OF assms(2)] send_command_emits [OF assms(2)] send_command_keeps w1(3)]
  obtain w2 where w2: "bindE (feed_command (w_server (select_done dictid w1)) argv) (\<lambda>s.
      bindE (feed_command (w_crdt (select_done dictid w1)) argv) (\<lambda>c.
      bindE (to_server_slaves (send_command argv) ((select_done dictid w1)\<lparr>w_server := s, w_crdt := c\<rparr>))
        (\<lambda>w. to_crdt_slaves (send_command argv) w))) = Inr w2"
    "fed ?c (select_done dictid w1) w2" by blast
  have "replicationFeedAllSlaves env dictid argv w = Inr w2"
    using assms(1) w1(1) w2(1) world_backlogs [OF w1(3)]
    by (simp add: replicationFeedAllSlaves_def Let_def)
  moreover have "fed T w w2" unfolding assms(7) by (rule fed_trans [OF w1(2) w2(2)])
  ultimately show ?thesis by blast
qed

definition sample_env :: repl_env where
  "sample_env = \<lparr>env_crdt_gid = 1, env_masterhost = False, env_repl_slave_repl_all = False,
     env_crdt_enabled = True, env_master_is_crdt = False\<rparr>"

definition sample_world :: repl_world where
  "sample_world = \<lparr>w_net = blank_net, w_server = sample_stream\<lparr>slaves := [blank_client\<lparr>c_flags := {CLIENT_SLAVE}\<rparr>]\<rparr>,
     w_crdt = sample_stream\<rparr>"

theorem replicationFeedAllSlaves_same_bytes_witness:
  "\<exists>w'. replicationFeedAllSlaves sample_env 0 [RawObj ''PING''] sample_world = Inr w'
     \<and> fed (command_text [''PING'']) sample_world w'"
proof -
  have r: "ready (blank_net, blank_client\<lparr>c_flags := {CLIENT_SLAVE}\<rparr>)"
    and q: "queued (blank_client\<lparr>c_flags := {CLIENT_SLAVE}\<rparr>) = []"
    by (simp_all add: ready_def blank_defs writable_def getClientType_def obuf_wf_def list_bytes_def queued_def)
  have t: "feed_text sample_env 0 sample_world = []"
    by (simp add: feed_text_def sample_world_def sample_stream_def)
  have l: "length (command_text [''PING'']) = 14" by code_simp
  have "slaves_ready blank_net [blank_client\<lparr>c_flags := {CLIENT_SLAVE}\<rparr>] 14" "slaves_ready blank_net [] 14"
    using r q by (simp_all add: slaves_ready_def out_cap_def blank_net_def)
  then have "world_ready sample_world (length (command_text [''PING'']))"
  proof -
    assume sl: "slaves_ready blank_net [blank_client\<lparr>c_flags := {CLIENT_SLAVE}\<rparr>] 14" "slaves_ready blank_net [] 14"
    have "backlog_holds (w_server sample_world) ''cdef''" "backlog_holds (w_crdt sample_world) ''cdef''"
      using sample_stream_holds by (simp_all add: sample_world_def)
    moreover have "w_net sample_world = blank_net" "slaves (w_crdt sample_world) = []"
      "slaves (w_server sample_world) = [blank_client\<lparr>c_flags := {CLIENT_SLAVE}\<rparr>]"
      by (simp_all add: sample_world_def sample_stream_def)
    ultimately show ?thesis unfolding world_ready_def l using sl by auto
  qed
  then show ?thesis
    using replicationFeedAllSlaves_same_bytes [of sample_env "[RawObj ''PING'']" 0 "command_text [''PING'']" sample_world] t
    by (simp add: sample_env_def proxies_master_def cmd_ok_def obj_ok_def obj_text_def)
qed

subsection \<open>The debugging command\<close>

text \<open>
  C36. \<open>crdtReplicationCommand\<close> compares the requested stream offset with the write index of the buffer
  instead of the window of offsets the backlog covers: an offset older than the backlog passes the
  test, the index becomes negative and the command reads before the buffer.
\<close>

theorem crdtReplicationCommand_reads_before_buffer:
  assumes "repl_backlog srv = Some buf" "c_argv c = [cmd, which, a, b]" "\<not> strcaseeq which ''master''"
    and "string2ll a = Some start" "string2ll b = Some len" "0 < len" "start \<le> int (repl_backlog_idx srv)"
    and "repl_backlog_histlen srv \<le> repl_backlog_size srv"
    and "j = int ((repl_backlog_idx srv + (repl_backlog_size srv - repl_backlog_histlen srv)) mod repl_backlog_size srv)
             + (start - repl_backlog_off srv)"
    and "- int (repl_backlog_size srv) < j" "j < 0"
  shows "crdtReplicationCommand (server, srv) (n, c) = Inl OutOfBounds"
proof -
  let ?n = "repl_backlog_size srv"
  have a: "int (repl_backlog_idx srv) + (int ?n - int (repl_backlog_histlen srv))
      = int (repl_backlog_idx srv + (?n - repl_backlog_histlen srv))" using assms(8) by simp
  have "c_rem j (int ?n) = j" using assms(10,11) by (simp add: c_rem_def)
  then have "backlog_read srv (start - repl_backlog_off srv) len = Inl OutOfBounds"
    using assms(1,6,11) by (simp add: backlog_read_def Let_def a c_rem_nat del: of_nat_add flip: assms(9))
  then show ?thesis
    using assms(1-7) by (simp add: crdtReplicationCommand_def Let_def getLongLongFromObjectOrReply_def)
qed

theorem crdtReplicationCommand_reads_before_buffer_witness:
  "crdtReplicationCommand (sample_stream, sample_stream)
     (blank_net, blank_client\<lparr>c_argv := [''crdt.replication'', ''peer'', ''0'', ''1'']\<rparr>) = Inl OutOfBounds"
proof (rule crdtReplicationCommand_reads_before_buffer [where j = "- 1"])
  have d: "show_int 0 = ''0''" "show_int 1 = ''1''" by code_simp+
  show "string2ll ''0'' = Some 0" "string2ll ''1'' = Some 1"
    using string2ll_show_int [of 0] string2ll_show_int [of 1] by (simp_all add: d)
  show "\<not> strcaseeq ''peer'' ''master''" by code_simp
qed (simp_all add: sample_stream_def blank_client_def)

end
