(* ===== verification/Crdt_Handshake.thy ===== *)
theory Crdt_Handshake
  imports Crdt_Peer_Steps Repl_Stream
begin

section \<open>The handshake with a peer\<close>

text \<open>
  How an instance connects to a peer and resumes or starts its stream: \<^verbatim>\<open>crdtConnectWithMaster\<close>,
  \<^verbatim>\<open>crdtSyncWithMaster\<close> and \<^verbatim>\<open>crdtSlaveTryPartialResynchronization\<close> of
  \<^verbatim>\<open>src/src/ctrip_crdt_replication.c\<close>, and \<^verbatim>\<open>syncReadLine\<close> of \<^verbatim>\<open>src/src/syncio.c\<close>. \<open>crdtSyncWithMaster\<close> is the
  event handler of the socket; every event runs the C function once. Its consecutive tests of
  \<^verbatim>\<open>repl_state\<close> are the \<open>stages\<close>: each passes on, returns, or jumps to the error label.

  \<open>hs\<close> is what an event works on: the peer, the two replication streams of this instance, the bytes the
  peer has sent (\<open>hs_in\<close>), the texts written to it, and whether the socket is open. \<open>sync_env\<close> holds what the
  environment decides during one event: a pending socket error, whether a blocking write succeeds,
  whether the handlers of a resumed client can be installed, and the configured announcements.
\<close>

record hs =
  hs_peer :: CRDT_Master_Instance
  hs_world :: repl_world
  hs_in :: string
  hs_sent :: "string list"
  hs_open :: bool

record sync_env =
  se_sockerr :: bool
  se_write_ok :: bool
  se_handler_ok :: bool
  se_errno :: string
  se_announce_ip :: "string option"
  se_announce_port :: int

definition with_peer :: "(CRDT_Master_Instance \<Rightarrow> CRDT_Master_Instance) \<Rightarrow> hs \<Rightarrow> hs" where
  "with_peer f h = h\<lparr>hs_peer := f (hs_peer h)\<rparr>"

definition go :: "repl_state \<Rightarrow> hs \<Rightarrow> hs" where
  "go st = with_peer (\<lambda>p. p\<lparr>repl_state := st\<rparr>)"

subsection \<open>Blocking input and output\<close>

text \<open>
  \<open>syncReadLine n\<close> with room for \<open>n\<close> characters. \<^term>\<open>None\<close> when the bytes stop arriving before the end of
  the line; what was read is lost then.
\<close>

fun syncReadLine :: "nat \<Rightarrow> string \<Rightarrow> string \<Rightarrow> (string \<times> string) option" where
  "syncReadLine 0 input acc = Some (acc, input)"
| "syncReadLine (Suc n) [] acc = None"
| "syncReadLine (Suc n) (c # input) acc =
     (if c = lf then Some (if acc \<noteq> [] \<and> last acc = cr then butlast acc else acc, input)
      else syncReadLine n input (acc @ [c]))"

definition cstr :: "string \<Rightarrow> string" where
  "cstr = takeWhile (\<lambda>c. c \<noteq> CHR 0x00)"

definition sync_text :: "string list \<Rightarrow> string" where
  "sync_text args = foldl (\<lambda>cmd arg. (if cmd \<noteq> [] then cmd @ '' '' else cmd) @ cstr arg) [] args @ crlf"

definition peer_host :: "CRDT_Master_Instance \<Rightarrow> string" where
  "peer_host p = (case masterhost p of None \<Rightarrow> ''(null)'' | Some h \<Rightarrow> h)"

text \<open>The two halves of \<open>crdtSendSynchronousCommand\<close>: the first returns \<^term>\<open>None\<close> for a null pointer.\<close>

definition crdtSendCommand :: "sync_env \<Rightarrow> string list \<Rightarrow> hs \<Rightarrow> string option \<times> hs" where
  "crdtSendCommand env args h =
     (if se_write_ok env then (None, h\<lparr>hs_sent := hs_sent h @ [sync_text args]\<rparr>)
      else (Some (''-Writing to ip: '' @ peer_host (hs_peer h) @ '' port: '' @ show_int (masterport (hs_peer h))
                  @ '' error: '' @ se_errno env), h))"

definition crdtReadReply :: "sync_env \<Rightarrow> int \<Rightarrow> hs \<Rightarrow> string \<times> hs" where
  "crdtReadReply env now h =
     (case syncReadLine 255 (hs_in h) [] of
        None \<Rightarrow> (''-Reading from ip: '' @ peer_host (hs_peer h) @ '' port: '' @ show_int (masterport (hs_peer h))
                 @ '', error: '' @ se_errno env, h\<lparr>hs_in := []\<rparr>)
      | Some (line, rest) \<Rightarrow>
          (cstr line, with_peer (\<lambda>p. p\<lparr>repl_transfer_lastio := now\<rparr>) (h\<lparr>hs_in := rest\<rparr>)))"

subsection \<open>Partial resynchronisation\<close>

text \<open>\<^verbatim>\<open>strtoll(s, NULL, 10)\<close>: white space, a sign, then digits, clamped to the range.\<close>

fun digits_value :: "string \<Rightarrow> int \<Rightarrow> int" where
  "digits_value [] v = v"
| "digits_value (c # s) v =
     (if 48 \<le> (of_char c :: int) \<and> (of_char c :: int) \<le> 57
      then digits_value s (v * 10 + (of_char c - 48)) else v)"

definition strtoll :: "string \<Rightarrow> int" where
  "strtoll s =
     (let s = dropWhile isspace s;
          v = (case s of
                 [] \<Rightarrow> 0
               | c # t \<Rightarrow> if c = CHR ''-'' then - digits_value t 0
                         else if c = CHR ''+'' then digits_value t 0 else digits_value s 0)
      in if v < LLONG_MIN then LLONG_MIN else if v > LLONG_MAX then LLONG_MAX else v)"

definition parse_fullresync :: "string \<Rightarrow> (string \<times> string) option" where
  "parse_fullresync reply =
     (case strchr_pos reply (CHR '' '') of
        None \<Rightarrow> None
      | Some i \<Rightarrow>
          let rest = drop (Suc i) reply
          in case strchr_pos rest (CHR '' '') of
               None \<Rightarrow> None
             | Some j \<Rightarrow> if j \<noteq> CONFIG_RUN_ID_SIZE then None else Some (take j rest, drop (Suc j) rest))"

definition continue_id :: "string \<Rightarrow> string option" where
  "continue_id reply =
     (let line = takeWhile (\<lambda>c. c \<noteq> cr \<and> c \<noteq> lf) (drop 9 reply)
      in if length line = Suc CONFIG_RUN_ID_SIZE then Some (drop 1 line) else None)"

text \<open>\<^verbatim>\<open>"*3\r\n$16\r\nCRDT.peer.change\r\n$%d\r\n%s\r\n$%d\r\n%s\r\n"\<close>, for the local replicas.\<close>

definition peer_change_text :: "int \<Rightarrow> string \<Rightarrow> string" where
  "peer_change_text gid new =
     (let gidstr = ll_text LONG_STR_SIZE gid
      in ''*3'' @ crlf @ ''$16'' @ crlf @ ''CRDT.peer.change'' @ crlf
         @ ''$'' @ show_int (int (length gidstr)) @ crlf @ gidstr @ crlf
         @ ''$'' @ show_int (int CONFIG_RUN_ID_SIZE) @ crlf @ new @ crlf)"

definition replicationFeedPeerChangeCommand :: "int \<Rightarrow> string \<Rightarrow> repl_world \<Rightarrow> repl_world res" where
  "replicationFeedPeerChangeCommand gid new w =
     (let cmd = RawObj (peer_change_text gid new)
      in bindE (if repl_backlog (w_server w) \<noteq> None then feedReplicationBacklogWithObject (w_server w) cmd
                else Inr (w_server w)) (\<lambda>srv.
         to_server_slaves (\<lambda>st. addReply st cmd) (w\<lparr>w_server := srv\<rparr>)))"

datatype psync_result =
  PSYNC_WRITE_ERROR | PSYNC_WAIT_REPLY | PSYNC_CONTINUE | PSYNC_FULLRESYNC | PSYNC_NOT_SUPPORTED | PSYNC_TRY_LATER

definition psync_request :: "CRDT_Master_Instance \<Rightarrow> string list" where
  "psync_request p =
     (case cached_master p of
        Some c \<Rightarrow> [''CRDT.PSYNC'', mc_replid c, show_int (mc_reploff c + 1)]
      | None \<Rightarrow> [''CRDT.PSYNC'', ''?'', ''-1''])"

definition psync_write :: "sync_env \<Rightarrow> hs \<Rightarrow> psync_result \<times> hs" where
  "psync_write env h =
     (let h = with_peer (\<lambda>p. p\<lparr>master_initial_offset := - 1\<rparr>) h;
          (err, h) = crdtSendCommand env (psync_request (hs_peer h)) h
      in if err \<noteq> None then (PSYNC_WRITE_ERROR, h) else (PSYNC_WAIT_REPLY, h))"

definition psync_fullresync :: "string \<Rightarrow> CRDT_Master_Instance \<Rightarrow> CRDT_Master_Instance" where
  "psync_fullresync reply p =
     crdtReplicationDiscardCachedMaster
       (case parse_fullresync reply of
          None \<Rightarrow> p\<lparr>master_replid := []\<rparr>
        | Some (rid, offset) \<Rightarrow> p\<lparr>master_replid := rid, master_initial_offset := strtoll offset\<rparr>)"

definition psync_new_id :: "string \<Rightarrow> hs \<Rightarrow> hs res" where
  "psync_new_id new h =
     (case cached_master (hs_peer h) of
        None \<Rightarrow> Inl NullDeref
      | Some c \<Rightarrow>
          if cstr new = cstr (mc_replid c) then Inr h
          else
            bindE (replicationFeedPeerChangeCommand (pm_gid (hs_peer h)) new (hs_world h)) (\<lambda>w.
            Inr (with_peer (\<lambda>p. p\<lparr>master_replid := new,
                    cached_master := Some (c\<lparr>mc_replid := new @ drop CONFIG_RUN_ID_SIZE (mc_replid c)\<rparr>)\<rparr>)
                  (h\<lparr>hs_world := w\<rparr>))))"

definition psync_continue :: "sync_env \<Rightarrow> int \<Rightarrow> string \<Rightarrow> hs \<Rightarrow> hs res" where
  "psync_continue env now reply h =
     bindE (case continue_id reply of None \<Rightarrow> Inr h | Some new \<Rightarrow> psync_new_id new h) (\<lambda>h.
     bindE (crdtReplicationResurrectCachedMaster (hs_peer h) (repl_transfer_s (hs_peer h)) now (se_handler_ok env)) (\<lambda>p.
     bindE (if repl_backlog (w_crdt (hs_world h)) = None
            then createReplicationBacklog (w_server (hs_world h), w_crdt (hs_world h))
            else Inr (w_server (hs_world h), w_crdt (hs_world h))) (\<lambda>(server, crdtServer).
     Inr (h\<lparr>hs_peer := p, hs_world := (hs_world h)\<lparr>w_server := server, w_crdt := crdtServer\<rparr>\<rparr>))))"

definition psync_read :: "sync_env \<Rightarrow> int \<Rightarrow> hs \<Rightarrow> (psync_result \<times> hs) res" where
  "psync_read env now h =
     (let (reply, h) = crdtReadReply env now h
      in if reply = [] then Inr (PSYNC_WAIT_REPLY, h)
         else if take 11 reply = ''+FULLRESYNC'' then
           Inr (PSYNC_FULLRESYNC, with_peer (psync_fullresync reply) h)
         else if take 9 reply = ''+CONTINUE'' then
           bindE (psync_continue env now reply h) (\<lambda>h. Inr (PSYNC_CONTINUE, h))
         else if take 13 reply = ''-NOMASTERLINK'' \<or> take 8 reply = ''-LOADING'' then Inr (PSYNC_TRY_LATER, h)
         else Inr (PSYNC_NOT_SUPPORTED, with_peer crdtReplicationDiscardCachedMaster h))"

definition crdtSlaveTryPartialResynchronization :: "sync_env \<Rightarrow> int \<Rightarrow> bool \<Rightarrow> hs \<Rightarrow> (psync_result \<times> hs) res" where
  "crdtSlaveTryPartialResynchronization env now read_reply h =
     (if \<not> read_reply then Inr (psync_write env h) else psync_read env now h)"

subsection \<open>The event handler\<close>

datatype hs_flow = HReturn hs | HError hs | HNext hs

text \<open>A stage that writes a command: the next state when the write succeeds, the error label otherwise.\<close>

definition send_stage :: "sync_env \<Rightarrow> string list \<Rightarrow> repl_state \<Rightarrow> hs \<Rightarrow> hs_flow res" where
  "send_stage env args next h =
     (let (err, h) = crdtSendCommand env args h
      in Inr (if err \<noteq> None then HError h else HReturn (go next h)))"

text \<open>A stage that reads a reply; \<open>ok\<close> tells which replies are accepted.\<close>

definition recv_stage :: "sync_env \<Rightarrow> int \<Rightarrow> (string \<Rightarrow> bool) \<Rightarrow> (hs \<Rightarrow> repl_state) \<Rightarrow> hs \<Rightarrow> hs_flow res" where
  "recv_stage env now ok next h =
     (let (reply, h) = crdtReadReply env now h
      in Inr (if ok reply then HNext (go (next h) h) else HError h))"

definition pong_ok :: "string \<Rightarrow> bool" where
  "pong_ok reply \<longleftrightarrow> take 1 reply = ''+'' \<or> take 7 reply = ''-NOAUTH''
     \<or> take 28 reply = ''-ERR operation not permitted''"

definition no_error :: "string \<Rightarrow> bool" where
  "no_error reply \<longleftrightarrow> take 1 reply \<noteq> ''-''"

definition connecting_stage :: "sync_env \<Rightarrow> hs \<Rightarrow> hs_flow res" where
  "connecting_stage env h =
     bindE (if pm_proxy_type (hs_peer h) = NONE_PROXY then Inr (Some h)
            else
              case (pm_proxy (hs_peer h), masterhost (hs_peer h)) of
                (Some px, Some host) \<Rightarrow>
                  Inr (if se_write_ok env
                       then Some (h\<lparr>hs_sent := hs_sent h @ [xipieProxyConnectedAfter px host (masterport (hs_peer h))]\<rparr>)
                       else None)
              | _ \<Rightarrow> Inl NullDeref) (\<lambda>r.
     case r of
       None \<Rightarrow> Inr (HError h)
     | Some h \<Rightarrow> send_stage env [''PING''] REPL_STATE_RECEIVE_PONG (go REPL_STATE_RECEIVE_PONG h))"

text \<open>
  When the write of \<^verbatim>\<open>CRDT.AUTH\<close> fails, its error text is freed before the jump to the label that prints
  and frees it.
\<close>

definition crdt_auth_stage :: "sync_env \<Rightarrow> crdt_server \<Rightarrow> hs \<Rightarrow> hs_flow res" where
  "crdt_auth_stage env s h =
     (let (err, h) = crdtSendCommand env [''CRDT.AUTH'', crdt_namespace s, show_int (pm_gid (hs_peer h))] h
      in if err \<noteq> None then Inl UseAfterFree else Inr (HReturn (go REPL_STATE_RECEIVE_CRDT_AUTH h)))"

definition auth_stage :: "sync_env \<Rightarrow> hs \<Rightarrow> hs_flow res" where
  "auth_stage env h =
     (case masterauth (hs_peer h) of
        Some pw \<Rightarrow> send_stage env [''AUTH'', pw] REPL_STATE_RECEIVE_AUTH h
      | None \<Rightarrow> Inr (HNext (go REPL_STATE_SEND_PORT h)))"

definition ip_stage :: "sync_env \<Rightarrow> hs \<Rightarrow> hs_flow res" where
  "ip_stage env h =
     (case se_announce_ip env of
        None \<Rightarrow> Inr (HNext (go REPL_STATE_SEND_CAPA h))
      | Some ip \<Rightarrow> send_stage env [''CRDT.REPLCONF'', ''ip-address'', ip] REPL_STATE_RECEIVE_IP h)"

definition psync_stage :: "sync_env \<Rightarrow> int \<Rightarrow> hs \<Rightarrow> hs_flow res" where
  "psync_stage env now h =
     bindE (crdtSlaveTryPartialResynchronization env now False h) (\<lambda>(r, h).
     Inr (if r = PSYNC_WRITE_ERROR then HError h else HReturn (go REPL_STATE_RECEIVE_PSYNC h)))"

definition after_vc :: "hs \<Rightarrow> repl_state" where
  "after_vc h = (if \<not> isNullVectorClock (backstream_vc (hs_peer h)) then REPL_STATE_SEND_BACKFLOW else REPL_STATE_SEND_PSYNC)"

text \<open>The tests of \<^verbatim>\<open>repl_state\<close> in the order of the function, each with the block it guards.\<close>

definition stages :: "sync_env \<Rightarrow> crdt_server \<Rightarrow> (repl_state \<times> (hs \<Rightarrow> hs_flow res)) list" where
  "stages env s =
    [(REPL_STATE_CONNECTING, connecting_stage env),
     (REPL_STATE_RECEIVE_PONG, recv_stage env (unixtime s) pong_ok (\<lambda>_. REPL_STATE_SEND_CRDT_AUTH)),
     (REPL_STATE_SEND_CRDT_AUTH, crdt_auth_stage env s),
     (REPL_STATE_RECEIVE_CRDT_AUTH, recv_stage env (unixtime s) no_error (\<lambda>_. REPL_STATE_SEND_AUTH)),
     (REPL_STATE_SEND_AUTH, auth_stage env),
     (REPL_STATE_RECEIVE_AUTH, recv_stage env (unixtime s) no_error (\<lambda>_. REPL_STATE_SEND_PORT)),
     (REPL_STATE_SEND_PORT, send_stage env [''CRDT.REPLCONF'', ''listening-port'', show_int (se_announce_port env)]
        REPL_STATE_RECEIVE_PORT),
     (REPL_STATE_RECEIVE_PORT, recv_stage env (unixtime s) (\<lambda>_. True) (\<lambda>_. REPL_STATE_SEND_IP)),
     (REPL_STATE_SEND_IP, ip_stage env),
     (REPL_STATE_RECEIVE_IP, recv_stage env (unixtime s) (\<lambda>_. True) (\<lambda>_. REPL_STATE_SEND_CAPA)),
     (REPL_STATE_SEND_CAPA, send_stage env [''CRDT.REPLCONF'', ''capa'', ''eof'', ''capa'', ''psync2''] REPL_STATE_RECEIVE_CAPA),
     (REPL_STATE_RECEIVE_CAPA, recv_stage env (unixtime s) (\<lambda>_. True) (\<lambda>_. REPL_STATE_SEND_VC)),
     (REPL_STATE_SEND_VC, send_stage env [''CRDT.REPLCONF'', ''min-vc'', vectorClockToSds (vectorClock s)] REPL_STATE_RECEIVE_VC),
     (REPL_STATE_RECEIVE_VC, recv_stage env (unixtime s) (\<lambda>_. True) after_vc),
     (REPL_STATE_SEND_BACKFLOW, \<lambda>h. send_stage env [''CRDT.REPLCONF'', ''backstream'',
        vectorClockToSds (backstream_vc (hs_peer h))] REPL_STATE_RECEIVE_BACKFLOW h),
     (REPL_STATE_RECEIVE_BACKFLOW, recv_stage env (unixtime s) (\<lambda>_. True) (\<lambda>_. REPL_STATE_SEND_PSYNC)),
     (REPL_STATE_SEND_PSYNC, psync_stage env (unixtime s))]"

fun run_stages :: "(repl_state \<times> (hs \<Rightarrow> hs_flow res)) list \<Rightarrow> hs \<Rightarrow> hs_flow res" where
  "run_stages [] h = Inr (HNext h)"
| "run_stages ((st, f) # rest) h =
     (if repl_state (hs_peer h) \<noteq> st then run_stages rest h
      else
        bindE (f h) (\<lambda>r.
        case r of HNext h \<Rightarrow> run_stages rest h | HReturn h \<Rightarrow> Inr (HReturn h) | HError h \<Rightarrow> Inr (HError h)))"

definition start_transfer :: "int \<Rightarrow> hs \<Rightarrow> hs" where
  "start_transfer now = with_peer (\<lambda>p. p\<lparr>repl_state := REPL_STATE_TRANSFER, repl_transfer_lastio := now\<rparr>)"

text \<open>The end of the function, reached in the state \<^verbatim>\<open>REPL_STATE_RECEIVE_PSYNC\<close>.\<close>

definition transfer_stage :: "sync_env \<Rightarrow> int \<Rightarrow> hs \<Rightarrow> hs_flow res" where
  "transfer_stage env now h =
     (if repl_state (hs_peer h) \<noteq> REPL_STATE_RECEIVE_PSYNC then Inr (HError h)
      else
        bindE (crdtSlaveTryPartialResynchronization env now True h) (\<lambda>(r, h).
        case r of
          PSYNC_WAIT_REPLY \<Rightarrow> Inr (HReturn h)
        | PSYNC_TRY_LATER \<Rightarrow> Inr (HError h)
        | PSYNC_CONTINUE \<Rightarrow> Inr (HReturn h)
        | PSYNC_NOT_SUPPORTED \<Rightarrow> Inr (HError h)
        | PSYNC_WRITE_ERROR \<Rightarrow> Inr (HReturn (start_transfer now h))
        | PSYNC_FULLRESYNC \<Rightarrow>
            if \<not> se_handler_ok env then Inl NullDeref
            else Inr (HReturn (start_transfer now (with_peer (\<lambda>p.
              (crdtReplicationCreateMasterClient p ((fake_client now)\<lparr>mc_fd := repl_transfer_s p\<rparr>) (- 1))
                \<lparr>repl_transfer_s := - 1\<rparr>) h)))))"

definition hs_fail :: "hs \<Rightarrow> hs" where
  "hs_fail h = with_peer (\<lambda>p. p\<lparr>repl_transfer_s := - 1, repl_state := REPL_STATE_CONNECT\<rparr>) (h\<lparr>hs_open := False\<rparr>)"

text \<open>\<open>proxyConnectFail\<close> prints the proxy server that was tried.\<close>

definition proxyConnectFail :: "CRDT_Master_Instance \<Rightarrow> unit res" where
  "proxyConnectFail p =
     (if pm_proxy_type p = NONE_PROXY then Inr ()
      else
        case pm_proxy p of
          None \<Rightarrow> Inl NullDeref
        | Some px \<Rightarrow> if servers_index px < length (servers px) then Inr () else Inl OutOfBounds)"

definition crdtSyncWithMaster :: "sync_env \<Rightarrow> crdt_server \<Rightarrow> hs \<Rightarrow> hs res" where
  "crdtSyncWithMaster env s h =
     (if repl_state (hs_peer h) = REPL_STATE_NONE then Inr (h\<lparr>hs_open := False\<rparr>)
      else if se_sockerr env then bindE (proxyConnectFail (hs_peer h)) (\<lambda>_. Inr (hs_fail h))
      else
        bindE (run_stages (stages env s) h) (\<lambda>r.
        bindE (case r of HNext h \<Rightarrow> transfer_stage env (unixtime s) h | r \<Rightarrow> Inr r) (\<lambda>r.
        Inr (case r of HReturn h \<Rightarrow> h | HError h \<Rightarrow> hs_fail h | HNext h \<Rightarrow> h))))"

text \<open>\<open>connected\<close> is the descriptor of the socket when a connection could be started and its handler installed.\<close>

definition crdtConnectWithMaster :: "int option \<Rightarrow> int \<Rightarrow> CRDT_Master_Instance \<Rightarrow> bool \<times> CRDT_Master_Instance" where
  "crdtConnectWithMaster connected now p =
     (case connected of
        None \<Rightarrow> (False, p)
      | Some fd \<Rightarrow> (True, p\<lparr>repl_transfer_lastio := now, repl_transfer_s := fd, repl_state := REPL_STATE_CONNECTING\<rparr>))"

subsection \<open>The handshake keeps the peer well-formed\<close>

fun flow_hs :: "hs_flow \<Rightarrow> hs" where
  "flow_hs (HReturn h) = h" | "flow_hs (HError h) = h" | "flow_hs (HNext h) = h"

abbreviation hs_ok :: "int \<Rightarrow> hs \<Rightarrow> bool" where
  "hs_ok g h \<equiv> peer_ok {} g (hs_peer h)"

lemma resurrect_ok:
  "peer_ok X g p \<Longrightarrow> crdtReplicationResurrectCachedMaster p fd now ok = Inr p' \<Longrightarrow> peer_ok X g p'"
  by (auto simp: crdtReplicationResurrectCachedMaster_def peer_ok_def link_ok_def Let_def split: option.splits if_splits)

lemma connect_ok: "peer_ok X g p \<Longrightarrow> crdtConnectWithMaster fd now p = (ok, p') \<Longrightarrow> peer_ok X g p'"
  by (auto simp: crdtConnectWithMaster_def peer_ok_def split: option.splits)

lemma hs_ok_go: "hs_ok g h \<Longrightarrow> st \<noteq> REPL_STATE_CONNECTED \<Longrightarrow> hs_ok g (go st h)"
  by (auto simp: go_def with_peer_def peer_ok_def)

lemma crdtSendCommand_ok: "crdtSendCommand env args h = (e, h') \<Longrightarrow> hs_ok g h \<Longrightarrow> hs_ok g h'"
  by (auto simp: crdtSendCommand_def split: if_splits)

lemma crdtReadReply_ok: "crdtReadReply env now h = (r, h') \<Longrightarrow> hs_ok g h \<Longrightarrow> hs_ok g h'"
  by (auto simp: crdtReadReply_def with_peer_def peer_ok_def split: option.splits)

lemma send_stage_ok:
  "hs_ok g h \<Longrightarrow> st \<noteq> REPL_STATE_CONNECTED \<Longrightarrow> postE (send_stage env args st h) (\<lambda>r. hs_ok g (flow_hs r))"
  by (auto simp: send_stage_def Let_def split: prod.split intro: hs_ok_go dest: crdtSendCommand_ok)

lemma recv_stage_ok:
  "hs_ok g h \<Longrightarrow> (\<And>h. next h \<noteq> REPL_STATE_CONNECTED) \<Longrightarrow> postE (recv_stage env now ok next h) (\<lambda>r. hs_ok g (flow_hs r))"
  by (auto simp: recv_stage_def Let_def split: prod.split intro: hs_ok_go dest: crdtReadReply_ok)

lemma psync_write_ok: "psync_write env h = (r, h') \<Longrightarrow> hs_ok g h \<Longrightarrow> hs_ok g h'"
  by (auto simp: psync_write_def with_peer_def peer_ok_def Let_def split: prod.splits if_splits
      dest!: crdtSendCommand_ok [where g = g])

lemma reset_fixed_iff:
  "reset_master_client c = c \<longleftrightarrow>
     mc_fd c = - 1 \<and> mc_querybuf c = [] \<and> mc_pending_querybuf c = [] \<and> mc_read_reploff c = mc_reploff c"
  by (cases c) (auto simp: reset_master_client_def)

lemma psync_continue_ok: "hs_ok g h \<Longrightarrow> postE (psync_continue env now reply h) (hs_ok g)"
proof -
  assume h: "hs_ok g h"
  have new: "postE (psync_new_id new h) (hs_ok g)" for new
    using h by (auto simp: psync_new_id_def with_peer_def peer_ok_def link_ok_def reset_fixed_iff
        split: option.split intro!: postE_bind_eq)
  have "postE (case continue_id reply of None \<Rightarrow> Inr h | Some new \<Rightarrow> psync_new_id new h) (hs_ok g)"
    using h new by (simp split: option.split)
  then show ?thesis
    unfolding psync_continue_def
    by (rule postE_bind) (auto intro!: postE_bind_eq intro: resurrect_ok split: prod.split)
qed

lemma psync_read_ok: "hs_ok g h \<Longrightarrow> postE (psync_read env now h) (\<lambda>(r, h). hs_ok g h)"
proof -
  assume h: "hs_ok g h"
  obtain reply h1 where r: "crdtReadReply env now h = (reply, h1)" by fastforce
  with h have h1: "hs_ok g h1" by (rule crdtReadReply_ok [rotated])
  moreover have "hs_ok g (with_peer (psync_fullresync reply) h1)" "hs_ok g (with_peer crdtReplicationDiscardCachedMaster h1)"
    using h1 by (auto simp: with_peer_def psync_fullresync_def peer_ok_def crdtReplicationDiscardCachedMaster_def
        split: option.split)
  ultimately show ?thesis
    unfolding psync_read_def r by (auto simp: Let_def intro!: postE_bind [OF psync_continue_ok])
qed

lemma transfer_stage_ok: "hs_ok g h \<Longrightarrow> postE (transfer_stage env now h) (\<lambda>r. hs_ok g (flow_hs r))"
proof -
  assume h: "hs_ok g h"
  have start: "hs_ok g (start_transfer now h1)" "hs_ok g (start_transfer now (with_peer (\<lambda>p.
      (crdtReplicationCreateMasterClient p ((fake_client now)\<lparr>mc_fd := repl_transfer_s p\<rparr>) (- 1))\<lparr>repl_transfer_s := - 1\<rparr>) h1))"
    if "hs_ok g h1" for h1
    using that by (auto simp: start_transfer_def with_peer_def peer_ok_def crdtReplicationCreateMasterClient_def
        link_ok_def fake_client_def Let_def)
  show ?thesis
    unfolding transfer_stage_def crdtSlaveTryPartialResynchronization_def
    by (auto intro!: postE_bind [OF psync_read_ok] start h split: psync_result.split)
qed

lemma stages_ok: "list_all (\<lambda>(st, f). \<forall>h. hs_ok g h \<longrightarrow> postE (f h) (\<lambda>r. hs_ok g (flow_hs r))) (stages env s)"
proof -
  have "hs_ok g h \<Longrightarrow> postE (connecting_stage env h) (\<lambda>r. hs_ok g (flow_hs r))" for h
    by (auto simp: connecting_stage_def split: option.splits intro!: postE_bind_eq send_stage_ok hs_ok_go)
  moreover have "hs_ok g h \<Longrightarrow> postE (crdt_auth_stage env s h) (\<lambda>r. hs_ok g (flow_hs r))" for h
    by (auto simp: crdt_auth_stage_def Let_def split: prod.split intro: hs_ok_go dest: crdtSendCommand_ok)
  moreover have "hs_ok g h \<Longrightarrow> postE (psync_stage env now h) (\<lambda>r. hs_ok g (flow_hs r))" for h now
    by (auto simp: psync_stage_def crdtSlaveTryPartialResynchronization_def split: prod.split
        intro: hs_ok_go dest: psync_write_ok)
  ultimately show ?thesis
    by (simp add: stages_def send_stage_ok recv_stage_ok hs_ok_go auth_stage_def ip_stage_def after_vc_def split: option.split)
qed

lemma run_stages_ok:
  "list_all (\<lambda>(st, f). \<forall>h. hs_ok g h \<longrightarrow> postE (f h) (\<lambda>r. hs_ok g (flow_hs r))) fs \<Longrightarrow> hs_ok g h
   \<Longrightarrow> postE (run_stages fs h) (\<lambda>r. hs_ok g (flow_hs r))"
proof (induction fs h rule: run_stages.induct)
  case (2 st f rest h)
  show ?case
  proof (cases "repl_state (hs_peer h) = st")
    case True
    have post: "postE (f h) (\<lambda>r. hs_ok g (flow_hs r))" using 2(3,4) by simp
    have "postE (case r of HNext h \<Rightarrow> run_stages rest h | HReturn h \<Rightarrow> Inr (HReturn h) | HError h \<Rightarrow> Inr (HError h))
        (\<lambda>r. hs_ok g (flow_hs r))" if "f h = Inr r" for r
      using postE_D [OF post that] 2(2) [OF _ that] 2(3) True by (cases r) simp_all
    with True show ?thesis by (auto intro!: postE_bind_eq)
  qed (use 2 in simp)
qed simp

lemma crdtSyncWithMaster_ok:
  assumes "hs_ok g h"
  shows "postE (crdtSyncWithMaster env s h) (hs_ok g)"
proof -
  have fail: "hs_ok g (hs_fail h)" if "hs_ok g h" for h
    using that by (auto simp: hs_fail_def with_peer_def peer_ok_def)
  have fin: "postE (case r of HNext h \<Rightarrow> transfer_stage env (unixtime s) h | r \<Rightarrow> Inr r) (\<lambda>r. hs_ok g (flow_hs r))"
    if "hs_ok g (flow_hs r)" for r
    using that by (cases r) (auto intro: transfer_stage_ok)
  have "postE (bindE (run_stages (stages env s) h) (\<lambda>r.
      bindE (case r of HNext h \<Rightarrow> transfer_stage env (unixtime s) h | r \<Rightarrow> Inr r) (\<lambda>r.
      Inr (case r of HReturn h \<Rightarrow> h | HError h \<Rightarrow> hs_fail h | HNext h \<Rightarrow> h)))) (hs_ok g)"
    by (rule postE_bind [OF run_stages_ok [OF stages_ok assms]], rule postE_bind [OF fin])
       (auto split: hs_flow.split intro: fail)
  then show ?thesis
    unfolding crdtSyncWithMaster_def using assms by (auto intro: fail intro!: postE_bind_eq)
qed

end
