(* ===== verification/Crdt_Peer_Theorems.thy ===== *)
theory Crdt_Peer_Theorems
  imports Crdt_Handshake
begin

section \<open>Properties of the peer table\<close>

text \<open>
  \<open>peer_step\<close> has one rule per operation; its clocks come from peers that print well-formed clocks. The
  properties: the invariant of every reachable table, what \<^verbatim>\<open>PEEROF\<close> and the end of a merge do, and the
  inputs and sequences for which the code leaves defined behaviour.
\<close>

subsection \<open>Reachable tables\<close>

inductive peer_step :: "crdt_server \<Rightarrow> crdt_server \<Rightarrow> bool" where
  peerof: "peerofCommand t err argv s = Inr (r, s') \<Longrightarrow> peer_step s s'"
| lost: "freeMasterClient g s = Inr s' \<Longrightarrow> peer_step s s'"
| cancel: "crdtCancelReplicationHandshake g s = Inr s' \<Longrightarrow> peer_step s s'"
| resume: "getPeerMaster g s = Inr (Some p) \<Longrightarrow> crdtReplicationResurrectCachedMaster p fd now ok = Inr p'
    \<Longrightarrow> peer_step s (setPeerMaster g (Some p') s)"
| merge_start: "postE (sdsToVectorClock (argv ! 2)) vc_wf \<Longrightarrow> crdtMergeStartCommand argv s = Inr (r, s')
    \<Longrightarrow> peer_step s s'"
| merge_end: "postE (sdsToVectorClock (argv ! 2)) vc_wf \<Longrightarrow> crdtMergeEndCommand qps cgid argv s = Inr (r, acks, s')
    \<Longrightarrow> peer_step s s'"
| peer_change: "peerChangeCommand argv s = Inr (r, s') \<Longrightarrow> peer_step s s'"
| promoted: "crdtReplicationCacheAllMaster s = Inr s' \<Longrightarrow> peer_step s s'"
| closed: "crdtReplicationCloseAllMasters s = Inr s' \<Longrightarrow> peer_step s s'"
| demoted: "linked s \<Longrightarrow> crdtReplicationAllPeersStateReset s = Inr s' \<Longrightarrow> peer_step s s'"
| restart: "peerBackStream ask dbs s = Inr (l, e, s') \<Longrightarrow> peer_step s s'"
| lazy: "lazyPeerof now d s = Inr s' \<Longrightarrow> peer_step s s'"
| connect: "getPeerMaster g s = Inr (Some p) \<Longrightarrow> crdtConnectWithMaster fd now p = (ok, p')
    \<Longrightarrow> peer_step s (setPeerMaster g (Some p') s)"
| handshake: "getPeerMaster g s = Inr (Some (hs_peer h)) \<Longrightarrow> crdtSyncWithMaster env s h = Inr h'
    \<Longrightarrow> peer_step s (setPeerMaster g (Some (hs_peer h')) s)"
| collect: "updateGcVectorClock s = Inr s' \<Longrightarrow> peer_step s s'"

lemma gc_clock_step_inv:
  assumes "peers_inv X s" and "vc_wf gcvc"
  shows "postE (gc_clock_step i (gcvc, s)) (\<lambda>(r, s). peers_inv X s \<and> vc_wf r)"
proof -
  have "postE (mergeMinVectorClock gcvc vc) (\<lambda>(r, _, vc'). vc_wf r \<and> vc_wf vc')" if "vc_wf vc" for vc
    using mergeMin_args [OF assms(2) that] by auto
  note mm = postE_bind [OF this]
  show ?thesis
    unfolding gc_clock_step_def using assms
    by (auto intro!: peer_post [OF assms(1)] mm setPeerMaster_inv simp: peer_ok_def vc_wf_def newVectorClock_ok0)
qed

lemma updateGcVectorClock_inv:
  assumes "peers_inv X s"
  shows "postE (updateGcVectorClock s) (peers_inv X)"
proof -
  have "postE (foldE gc_clock_step [0..<16] (vectorClock s, s)) (\<lambda>(r, s). peers_inv X s \<and> vc_wf r)"
    by (rule postE_fold) (use assms peers_inv_clocksD [OF assms] in \<open>auto intro: gc_clock_step_inv\<close>)
  then have "postE (getGcVectorClock s) (\<lambda>(r, s). peers_inv X s \<and> vc_wf r)"
    using peers_inv_clocksD(2) [OF assms] by (simp add: getGcVectorClock_def dupVectorClock_ok)
  then show ?thesis
    unfolding updateGcVectorClock_def by (rule postE_bind) (auto intro: peers_inv_clocks(3))
qed

lemmas step_invs = peerofCommand_inv freeMasterClient_inv crdtCancelReplicationHandshake_inv
  crdtMergeStartCommand_inv crdtMergeEndCommand_inv peerChangeCommand_inv crdtReplicationCacheAllMaster_inv
  crdtReplicationCloseAllMasters_inv crdtReplicationAllPeersStateReset_inv peerBackStream_inv lazyPeerof_inv
  updateGcVectorClock_inv

lemma peer_step_inv: "peer_step s s' \<Longrightarrow> peers_inv {} s \<Longrightarrow> peers_inv {} s'"
proof (induction rule: peer_step.induct)
  case (resume g s p fd now ok p')
  have "0 \<le> g" "peer_ok {} g p"
    using postE_D [OF getPeerMaster_post [OF resume(3)] resume(1)] by simp_all
  with resume show ?case by (intro setPeerMaster_inv) (auto intro: resurrect_ok)
next
  case (connect g s p fd now ok p')
  have "0 \<le> g" "peer_ok {} g p"
    using postE_D [OF getPeerMaster_post [OF connect(3)] connect(1)] by simp_all
  with connect show ?case by (intro setPeerMaster_inv) (auto intro: connect_ok)
next
  case (handshake g s h env h')
  have "0 \<le> g" "peer_ok {} g (hs_peer h)"
    using postE_D [OF getPeerMaster_post [OF handshake(3)] handshake(1)] by simp_all
  with handshake show ?case by (intro setPeerMaster_inv) (auto dest: postE_D [OF crdtSyncWithMaster_ok])
qed (auto dest!: step_invs [THEN postE_D, rotated -1])

lemma empty_table_inv: "clocks_wf s \<Longrightarrow> crdtMasters s = replicate 16 None \<Longrightarrow> peers_inv {} s"
  by (simp add: peers_inv_def)

lemma peer_steps_inv: "peer_step\<^sup>*\<^sup>* s s' \<Longrightarrow> peers_inv {} s \<Longrightarrow> peers_inv {} s'"
  by (induction rule: rtranclp_induct) (auto intro: peer_step_inv)

subsection \<open>PEEROF\<close>

text \<open>What becomes of a peer when its client is freed, and when its handshake is cancelled.\<close>

definition dropped :: "int \<Rightarrow> CRDT_Master_Instance \<Rightarrow> CRDT_Master_Instance" where
  "dropped now p =
     (case master p of
        None \<Rightarrow> p
      | Some c \<Rightarrow> (if mc_closing c then p else p\<lparr>cached_master := Some (reset_master_client c)\<rparr>)
          \<lparr>master := None, repl_state := REPL_STATE_CONNECT, repl_down_since := now\<rparr>)"

definition undone :: "CRDT_Master_Instance \<Rightarrow> CRDT_Master_Instance" where
  "undone p =
     (if repl_state p = REPL_STATE_TRANSFER \<or> repl_state p = REPL_STATE_CONNECTING \<or> crdtSlaveIsInHandshakeState p
      then (crdtUndoConnectWithMaster p)\<lparr>repl_state := REPL_STATE_CONNECT\<rparr> else p)"

lemma freeMasterClient_at:
  assumes "length (crdtMasters s) = 16" "0 \<le> g" "g < 16" "pred_option (link_ok g) (master p)"
  shows "freeMasterClient g (setPeerMaster g (Some p) s) = Inr (setPeerMaster g (Some (dropped (unixtime s) p)) s)"
proof -
  have u: "unixtime (setPeerMaster g m s) = unixtime s" for m by (simp add: setPeerMaster_def)
  show ?thesis
    using assms
    by (auto simp: freeMasterClient_def dropped_def link_ok_def crdtReplicationCacheMaster_def
        crdtReplicationHandleMasterDisconnection_def on_peer_at u split: option.split)
qed

lemma cancel_undone:
  assumes "length (crdtMasters s) = 16" "0 \<le> g" "g < 16" "master p = None"
  shows "crdtCancelReplicationHandshake g (setPeerMaster g (Some p) s) = Inr (setPeerMaster g (Some (undone p)) s)"
  using assms
  by (auto simp: crdtCancelReplicationHandshake_def crdtReplicationAbortSyncTransfer_def undone_def Let_def
      crdtUndoConnectWithMaster_def)

lemma dropped_master [simp]: "master (dropped now p) = None"
  by (simp add: dropped_def split: option.split)

lemma iAmMaster_set [simp]: "iAmMaster (setPeerMaster g m s) = iAmMaster s"
  by (simp add: iAmMaster_def setPeerMaster_def)

lemma SetMaster_at:
  assumes "length (crdtMasters s) = 16" "0 \<le> g" "g < 16" "crdtMasters s ! nat g = Some p"
    "pred_option (link_ok g) (master p)" "iAmMaster s"
  shows "crdtReplicationSetMaster t g ip port s = Inr (setPeerMaster g (Some ((undone (dropped (unixtime s)
      (p\<lparr>masterhost := Some ip, masterport := port, lazy_time := NO_LAZY_TIME\<rparr>)))
        \<lparr>repl_state := REPL_STATE_CONNECT, repl_down_since := 0\<rparr>)) s)"
  using assms
  by (simp add: crdtReplicationSetMaster_def getPeerMaster_def Let_def freeMasterClient_at cancel_undone on_peer_at)

text \<open>The client a peer keeps for a partial resynchronisation once it is pointed at another address.\<close>

definition kept :: "CRDT_Master_Instance option \<Rightarrow> mclient option" where
  "kept m = (case m of None \<Rightarrow> None | Some p \<Rightarrow>
     (case master p of
        None \<Rightarrow> cached_master p
      | Some c \<Rightarrow> if mc_closing c then cached_master p else Some (reset_master_client c)))"

lemma undone_fields [simp]:
  "masterhost (undone p) = masterhost p" "masterport (undone p) = masterport p" "master (undone p) = master p"
  "cached_master (undone p) = cached_master p"
  by (simp_all add: undone_def crdtUndoConnectWithMaster_def)

lemma dropped_fields [simp]:
  "masterhost (dropped now p) = masterhost p" "masterport (dropped now p) = masterport p"
  "cached_master (dropped now p) = kept (Some p)"
  by (simp_all add: dropped_def kept_def split: option.split)

definition points_to :: "CRDT_Master_Instance \<Rightarrow> string \<Rightarrow> int \<Rightarrow> bool" where
  "points_to p ip port \<longleftrightarrow> masterhost p = Some ip \<and> masterport p = port \<and> repl_state p = REPL_STATE_CONNECT
     \<and> master p = None"

lemma peers_inv_at:
  assumes "peers_inv X s" "0 \<le> g" "g < 16" "crdtMasters s ! nat g = Some p"
  shows "peer_ok X g p"
proof -
  have "nat g < 16" "int (nat g) = g" using assms(2,3) by auto
  with assms(1,4) show ?thesis unfolding peers_inv_def by (metis option.pred_inject(2))
qed

lemma SetMaster_effect:
  assumes "peers_inv {} s" "0 \<le> g" "g < 16" "iAmMaster s"
  shows "\<exists>w p. crdtReplicationSetMaster t g ip port s = Inr (setPeerMaster g (Some p) (s\<lparr>peer_set := w\<rparr>))
     \<and> points_to p ip port \<and> cached_master p = kept (crdtMasters s ! nat g) \<and> w AND peer_set s = peer_set s"
proof -
  have len: "length (crdtMasters s) = 16" using assms(1) by (rule peers_invD)
  show ?thesis
  proof (cases "crdtMasters s ! nat g")
    case (Some p)
    have "peer_ok {} g p" using peers_inv_at [OF assms(1-3) Some] .
    then have "pred_option (link_ok g) (master p)" by (simp add: peer_ok_def)
    from SetMaster_at [OF len assms(2,3) Some this assms(4), of t ip port] Some show ?thesis
      by (intro exI [of _ "peer_set s"]
          exI [of _ "(undone (dropped (unixtime s) (p\<lparr>masterhost := Some ip, masterport := port, lazy_time := 0\<rparr>)))
            \<lparr>repl_state := REPL_STATE_CONNECT, repl_down_since := 0\<rparr>"])
         (simp add: points_to_def kept_def split: option.split)
  next
    case None
    have "\<exists>w. addPeerSet g s = Inr (s\<lparr>peer_set := w\<rparr>) \<and> w AND peer_set s = peer_set s"
    proof (cases "g = crdt_gid s")
      case True
      then show ?thesis by (intro exI [of _ "peer_set s"]) (simp add: addPeerSet_def)
    next
      case False
      then show ?thesis
        using assms(2,3)
        by (intro exI [of _ "peer_set s OR push_bit (nat g) 1"])
           (auto simp: addPeerSet_def gid_bit_def intro!: bit_word_eqI simp: bit_and_iff bit_or_iff)
    qed
    then obtain w where w: "addPeerSet g s = Inr (s\<lparr>peer_set := w\<rparr>)" "w AND peer_set s = peer_set s" by blast
    have "iAmMaster (s\<lparr>peer_set := w\<rparr>)" using assms(4) by (simp add: iAmMaster_def split: if_splits)
    moreover define p where "p = \<lparr>pm_gid = g, masterauth = None, masterhost = Some ip, masterport = port, master = None,
        cached_master = None, repl_state = REPL_STATE_NONE, repl_transfer_s = - 1, repl_transfer_lastio = t,
        repl_down_since = 0, master_replid = [], master_initial_offset = - 1, pm_vectorClock = [], pm_dbid = 0,
        backstream_vc = [], lazy_time = 0, pm_proxy_type = NONE_PROXY, pm_proxy = None\<rparr>"
    ultimately have "crdtReplicationSetMaster t g ip port s = Inr (setPeerMaster g (Some ((undone (dropped (unixtime s) p))
        \<lparr>repl_state := REPL_STATE_CONNECT, repl_down_since := 0\<rparr>)) (s\<lparr>peer_set := w\<rparr>))"
      using w None len assms(2,3)
      by (simp add: crdtReplicationSetMaster_def getPeerMaster_def createPeerMaster_def Let_def freeMasterClient_at
            cancel_undone on_peer_at)
    with w(2) None show ?thesis
      by (intro exI [of _ w] exI [of _ "(undone (dropped (unixtime s) p))\<lparr>repl_state := REPL_STATE_CONNECT, repl_down_since := 0\<rparr>"])
         (simp add: points_to_def kept_def p_def)
  qed
qed

text \<open>A \<^verbatim>\<open>PEEROF\<close> without options: the number \<open>n\<close> is tested against the own gid, then narrowed to \<open>g\<close>.\<close>

lemma peerof_plain:
  assumes "\<not> cluster_enabled s" "LLONG_MIN \<le> n" "n \<le> LLONG_MAX" "to_int32 n = g" "n \<noteq> crdt_gid s"
    and "0 \<le> port" "port < 65536" "\<not> strcaseeq ip ''no''"
  shows "peerofCommand t None [cmd, show_int n, ip, show_int port] s =
     bindE (getPeerMaster g s) (\<lambda>m.
     bindE (peerof_same m ip port ([], NONE_PROXY, None) g s) (\<lambda>r.
     case r of Inl done \<Rightarrow> Inr done | Inr px \<Rightarrow> peerof_commit t None g ip port ([], NONE_PROXY, px) s))"
proof -
  have "string2ll (show_int n) = Some n" "string2ll (show_int port) = Some port"
    using assms by (simp_all add: string2ll_show_int)
  with assms show ?thesis by (simp add: peerofCommand_def)
qed

lemma peerof_effect:
  assumes "peers_inv {} s" "\<not> cluster_enabled s" "iAmMaster s" "0 \<le> g" "g < 16" "LLONG_MIN \<le> n" "n \<le> LLONG_MAX"
    "to_int32 n = g" "n \<noteq> crdt_gid s" and "0 \<le> port" "port < 65536" "\<not> strcaseeq ip ''no''"
    and "\<forall>p h. crdtMasters s ! nat g = Some p \<longrightarrow> masterhost p = Some h \<longrightarrow> \<not> (strcaseeq h ip \<and> masterport p = port)"
  shows "\<exists>s' p. peerofCommand t None [cmd, show_int n, ip, show_int port] s = Inr (ReplyOk, s')
     \<and> crdtMasters s' ! nat g = Some p \<and> points_to p ip port \<and> cached_master p = kept (crdtMasters s ! nat g)
     \<and> (\<forall>i. i \<noteq> nat g \<longrightarrow> crdtMasters s' ! i = crdtMasters s ! i)
     \<and> (g \<noteq> crdt_gid s \<longrightarrow> in_set (peer_set s') (nat g))"
proof -
  have len: "length (crdtMasters s) = 16" using assms(1) by (rule peers_invD)
  have port: "to_int32 port = port" using assms(10,11) by (simp add: to_int32_id)
  have same: "peerof_same (crdtMasters s ! nat g) ip port ([], NONE_PROXY, None) g s = Inr (Inr None)"
    using assms(13) peers_inv_at [OF assms(1,4,5)] by (auto simp: peerof_same_def peer_ok_def split: option.split)
  obtain w p where p: "crdtReplicationSetMaster t g ip port s = Inr (setPeerMaster g (Some p) (s\<lparr>peer_set := w\<rparr>))"
      "points_to p ip port" "cached_master p = kept (crdtMasters s ! nat g)"
    using SetMaster_effect [OF assms(1,4,5,3), of t ip port] by blast
  define q where "q = p\<lparr>pm_proxy_type := NONE_PROXY, pm_proxy := None\<rparr>"
  define w' where "w' = (if g = crdt_gid s then w else w OR push_bit (nat g) 1)"
  define s' where "s' = (setPeerMaster g (Some q) (s\<lparr>peer_set := w'\<rparr>))\<lparr>dirty := dirty s + 1\<rparr>"
  have "peerof_commit t None g ip port ([], NONE_PROXY, None) s = Inr (ReplyOk, s')"
    using assms(4,5) len p(1) port
    by (simp add: peerof_commit_def on_peer_def getPeerMaster_def isNullVectorClock_def get_len_def q_def s'_def w'_def
        addPeerSet_def gid_bit_def setPeerMaster_def)
  then have "peerofCommand t None [cmd, show_int n, ip, show_int port] s = Inr (ReplyOk, s')"
    using peerof_plain [OF assms(2,6-12)] assms(4,5) len same by (simp add: getPeerMaster_def)
  moreover have "nat g < 32" using assms(5) by linarith
  then have "crdtMasters s' ! nat g = Some q" "\<forall>i. i \<noteq> nat g \<longrightarrow> crdtMasters s' ! i = crdtMasters s ! i"
    "g \<noteq> crdt_gid s \<longrightarrow> in_set (peer_set s') (nat g)"
    using assms(4,5) len by (simp_all add: s'_def w'_def setPeerMaster_def in_set_bit bit_or_iff bit_exp_iff)
  moreover have "points_to q ip port" "cached_master q = kept (crdtMasters s ! nat g)"
    using p(2,3) by (simp_all add: q_def points_to_def)
  ultimately show ?thesis by blast
qed

text \<open>
  C8. On an instance that is its own master, PEEROF with a gid of the table other than its own and a new
  address returns OK: the peer then points at the address and is about to connect, no other peer
  changes, and when it had a connection its replication id and offset are kept for a partial
  resynchronisation.
\<close>

theorem peerof_redirects:
  assumes "peers_inv {} s" "\<not> cluster_enabled s" "iAmMaster s" "0 \<le> g" "g < 16" "g \<noteq> crdt_gid s"
    and "0 \<le> port" "port < 65536" "\<not> strcaseeq ip ''no''"
    and "\<forall>p h. crdtMasters s ! nat g = Some p \<longrightarrow> masterhost p = Some h \<longrightarrow> \<not> (strcaseeq h ip \<and> masterport p = port)"
  shows "\<exists>s' p. peerofCommand t None [cmd, show_int g, ip, show_int port] s = Inr (ReplyOk, s')
     \<and> crdtMasters s' ! nat g = Some p \<and> points_to p ip port \<and> cached_master p = kept (crdtMasters s ! nat g)
     \<and> (\<forall>i. i \<noteq> nat g \<longrightarrow> crdtMasters s' ! i = crdtMasters s ! i) \<and> in_set (peer_set s') (nat g)"
proof -
  have "LLONG_MIN \<le> g" "g \<le> LLONG_MAX" "to_int32 g = g" using assms(4,5) by (simp_all add: to_int32_id)
  from peerof_effect [OF assms(1-5) this assms(6-10), of t cmd] assms(6) show ?thesis by simp
qed

text \<open>A server with one connected peer, number 2.\<close>

definition sample_link :: mclient where
  "sample_link = (fake_client 0)\<lparr>mc_gid := 2, mc_fd := 9, mc_crdt_master := True, mc_reploff := 70, mc_read_reploff := 75,
     mc_replid := ''a1'', mc_querybuf := ''part''\<rparr>"

definition sample_peer :: CRDT_Master_Instance where
  "sample_peer = \<lparr>pm_gid = 2, masterauth = None, masterhost = Some ''h1'', masterport = 6379, master = Some sample_link,
     cached_master = None, repl_state = REPL_STATE_CONNECTED, repl_transfer_s = - 1, repl_transfer_lastio = 0,
     repl_down_since = 0, master_replid = ''a1'', master_initial_offset = - 1, pm_vectorClock = mk_vc [(1, 7), (2, 4)],
     pm_dbid = 0, backstream_vc = mk_vc [(1, 0)], lazy_time = 0, pm_proxy_type = NONE_PROXY, pm_proxy = None\<rparr>"

definition peered :: crdt_server where
  "peered = setPeerMaster 2 (Some sample_peer) sample_server"

lemma sample_peer_ok: "peer_ok {} 2 sample_peer"
proof -
  have "vc_wf (mk_vc [(1, 7), (2, 4)])" "vc_wf (mk_vc [(1, 0)])" by code_simp+
  then show ?thesis by (simp add: peer_ok_def sample_peer_def sample_link_def fake_client_def link_ok_def)
qed

lemma peered_inv: "peers_inv {} peered"
  unfolding peered_def
  by (intro setPeerMaster_inv empty_table_inv sample_server_wf) (simp_all add: sample_peer_ok sample_server_def)

lemma peered_fields:
  "crdtMasters peered = (replicate 16 None)[2 := Some sample_peer]" "cluster_enabled peered = False" "iAmMaster peered"
  "crdt_gid peered = 1"
  by (simp_all add: peered_def setPeerMaster_def sample_server_def iAmMaster_def)

theorem peerof_redirects_witness:
  "\<exists>s' p. peerofCommand 0 None [''PEEROF'', show_int 2, ''h2'', show_int 6380] peered = Inr (ReplyOk, s')
     \<and> crdtMasters s' ! 2 = Some p \<and> points_to p ''h2'' 6380
     \<and> cached_master p = Some (sample_link\<lparr>mc_fd := - 1, mc_querybuf := [], mc_read_reploff := 70\<rparr>)"
proof -
  have ne: "\<not> strcaseeq ''h2'' ''no''" "\<not> strcaseeq ''h1'' ''h2''" by code_simp+
  have slot: "crdtMasters peered ! nat 2 = Some sample_peer" by (simp add: peered_fields)
  have "\<forall>p h. crdtMasters peered ! nat 2 = Some p \<longrightarrow> masterhost p = Some h \<longrightarrow> \<not> (strcaseeq h ''h2'' \<and> masterport p = 6380)"
    unfolding slot by (simp add: sample_peer_def ne)
  from peerof_redirects [OF peered_inv _ peered_fields(3) _ _ _ _ _ ne(1) this, of 0 "''PEEROF''"] obtain s' p where
      "peerofCommand 0 None [''PEEROF'', show_int 2, ''h2'', show_int 6380] peered = Inr (ReplyOk, s')"
      "crdtMasters s' ! nat 2 = Some p" "points_to p ''h2'' 6380" "cached_master p = kept (crdtMasters peered ! nat 2)"
    by (auto simp: peered_fields)
  moreover have "kept (crdtMasters peered ! nat 2) = Some (sample_link\<lparr>mc_fd := - 1, mc_querybuf := [], mc_read_reploff := 70\<rparr>)"
    unfolding slot by (simp add: kept_def sample_peer_def sample_link_def fake_client_def reset_master_client_def)
  ultimately show ?thesis by auto
qed



subsection \<open>The end of a merge\<close>

lemma clean_loading_total:
  assumes "length (crdtMasters s) = 16" and "\<forall>i \<in> set is. i < 16"
  shows "\<exists>b. clean_loading_loop is s = Inr (s\<lparr>crdt_loading := b\<rparr>)"
  using assms(2)
proof (induction "is")
  case Nil
  show ?case by auto
next
  case (Cons i "is")
  have "\<exists>b. s = s\<lparr>crdt_loading := b\<rparr>" by (rule exI [of _ "crdt_loading s"]) simp
  with Cons assms(1) show ?case by (auto simp: getPeerMaster_def split: option.splits)
qed

lemma incrLocalVcUnit_time:
  assumes "clocks_wf s"
  shows "vc_time (vectorClock (incrLocalVcUnit d s)) h
       = (if h = gidw (crdt_gid s) then vc_time (vectorClock s) h + word_of_int d else vc_time (vectorClock s) h)"
proof -
  have "vc_map (vectorClock s) (gidw (crdt_gid s)) \<noteq> None" using assms by (simp add: clocks_wf_def vc_map_None_iff)
  then show ?thesis
    using incrLogicClock_map [of "vectorClock s" "crdt_gid s" d] assms
    by (auto simp: incrLocalVcUnit_def Let_def clocks_wf_def vc_time_def)
qed

lemma incrLocalVcUnit_fields:
  "gcVectorClock (incrLocalVcUnit d s) = gcVectorClock s" "iAmMaster (incrLocalVcUnit d s) = iAmMaster s"
  by (auto simp: incrLocalVcUnit_def Let_def iAmMaster_def)

lemma iAmMaster_fields [simp]:
  "iAmMaster (s\<lparr>crdt_loading := b\<rparr>) = iAmMaster s" "iAmMaster (s\<lparr>dirty := d\<rparr>) = iAmMaster s"
  by (simp_all add: iAmMaster_def)

text \<open>How far \<open>jumpVectorClock\<close> moves the own time.\<close>

definition jump_size :: "int \<Rightarrow> int" where
  "jump_size qps = max (qps * 86400) 1000000"

lemma jumpVectorClock_incr: "jumpVectorClock qps s = incrLocalVcUnit (jump_size qps) s"
  by (simp add: jumpVectorClock_def jump_size_def max_def Let_def mult.commute)

lemma caught_up:
  assumes "vc_wf vc" "vc_wf pvc" "check_gid g"
    and "uint (vc_time pvc (gidw g)) + jump_size qps < 2 ^ 56" "a = get_logic_clock (getVectorClockUnit vc g)"
      "b = get_logic_clock (getVectorClockUnit pvc g)"
  shows "vc_time pvc (gidw g) < vc_time vc (gidw g) + word_of_int (b - a) + word_of_int (jump_size qps)"
proof -
  have a: "a = uint (vc_time vc (gidw g))" "b = uint (vc_time pvc (gidw g))"
    using assms by (simp_all add: get_logic_clock_def getVectorClockUnit_time)
  have "vc_time vc (gidw g) + word_of_int (b - a) = vc_time pvc (gidw g)"
    unfolding a by (simp flip: wi_hom_sub)
  moreover have "0 < jump_size qps" by (simp add: jump_size_def)
  then have "uint (vc_time pvc (gidw g) + word_of_int (jump_size qps)) = uint (vc_time pvc (gidw g)) + jump_size qps"
    using assms(4) by (simp add: uint_word_ariths uint_word_of_int mod_add_right_eq mod_pos_pos_trivial)
  ultimately show ?thesis using \<open>0 < jump_size qps\<close> by (simp add: word_less_def)
qed

lemma merge_end_backstream_effect:
  assumes "peers_inv {} s" "0 \<le> g" "g < 16" "crdtMasters s ! nat g = Some p"
    and "uint (vc_time (pm_vectorClock p) (gidw (crdt_gid s))) + jump_size qps < 2 ^ 56"
  shows "\<exists>s'. merge_end_backstream qps g s = Inr s'
     \<and> crdtMasters s' = (crdtMasters s)[nat g := Some (p\<lparr>backstream_vc := []\<rparr>)]
     \<and> gcVectorClock s' = gcVectorClock s \<and> iAmMaster s' = iAmMaster s
     \<and> (\<forall>h. h \<noteq> gidw (crdt_gid s) \<longrightarrow> vc_time (vectorClock s') h = vc_time (vectorClock s) h)
     \<and> (backstream_vc p \<noteq> [] \<longrightarrow>
          vc_time (pm_vectorClock p) (gidw (crdt_gid s)) \<le> vc_time (vectorClock s') (gidw (crdt_gid s)))"
proof -
  have len: "length (crdtMasters s) = 16" using assms(1) by (rule peers_invD)
  have get: "getPeerMaster g s = Inr (Some p)" using assms(2-4) len by (simp add: getPeerMaster_def)
  show ?thesis
  proof (cases "backstream_vc p = []")
    case True
    then have "p = p\<lparr>backstream_vc := []\<rparr>" by simp
    with assms(2-4) len have "(crdtMasters s)[nat g := Some (p\<lparr>backstream_vc := []\<rparr>)] = crdtMasters s"
      by (metis list_update_id)
    with get True show ?thesis
      by (simp add: merge_end_backstream_def isNullVectorClock_def get_len_def)
  next
    case False
    define s1 where "s1 = setPeerMaster g (Some (p\<lparr>backstream_vc := []\<rparr>)) s"
    define a where "a = get_logic_clock (getVectorClockUnit (vectorClock s) (crdt_gid s))"
    define b where "b = get_logic_clock (getVectorClockUnit (pm_vectorClock p) (crdt_gid s))"
    define s2 where "s2 = (if a < b then jumpVectorClock qps (incrLocalVcUnit (b - a) s1) else s1)"
    have eqs: "vectorClock s1 = vectorClock s" "crdt_gid s1 = crdt_gid s" "gcVectorClock s1 = gcVectorClock s"
      "crdtMasters s1 = (crdtMasters s)[nat g := Some (p\<lparr>backstream_vc := []\<rparr>)]" "iAmMaster s1 = iAmMaster s"
      by (simp_all add: s1_def setPeerMaster_def iAmMaster_def)
    have wf: "clocks_wf s" "vc_wf (vectorClock s)" "check_gid (crdt_gid s)" "vc_wf (pm_vectorClock p)"
      using assms(1) peers_inv_at [OF assms(1-4)] by (auto simp: peers_inv_def clocks_wf_def peer_ok_def)
    have wf1: "clocks_wf s1" using wf(1) by (simp add: clocks_wf_def s1_def setPeerMaster_def)
    have wf2: "clocks_wf (incrLocalVcUnit (b - a) s1)"
    proof -
      have "peer_ok {} g (p\<lparr>backstream_vc := []\<rparr>)" using peers_inv_at [OF assms(1-4)] by (simp add: peer_ok_def)
      then have "peers_inv {} s1" unfolding s1_def by (intro setPeerMaster_inv assms(1,2)) simp
      from incrLocalVcUnit_inv [OF this] show ?thesis by (rule peers_invD)
    qed
    have tm: "vc_time (vectorClock s2) h = (if a < b \<and> h = gidw (crdt_gid s)
        then vc_time (vectorClock s) h + word_of_int (b - a) + word_of_int (jump_size qps)
        else vc_time (vectorClock s) h)" for h
      by (simp add: s2_def jumpVectorClock_incr incrLocalVcUnit_time wf1 wf2 eqs)
    have "vc_time (pm_vectorClock p) (gidw (crdt_gid s)) \<le> vc_time (vectorClock s2) (gidw (crdt_gid s))"
    proof (cases "a < b")
      case True
      from caught_up [OF wf(2,4,3) assms(5) a_def b_def] True show ?thesis by (simp add: tm)
    next
      case False
      then show ?thesis
        using wf by (simp add: tm a_def b_def get_logic_clock_def getVectorClockUnit_time word_le_def)
    qed
    moreover have "length (crdtMasters s2) = 16" using len by (simp add: s2_def eqs)
    then obtain l where "clean_loading_loop [0..<16] s2 = Inr (s2\<lparr>crdt_loading := l\<rparr>)"
      using clean_loading_total [of s2 "[0..<16]"] by auto
    then have "merge_end_backstream qps g s = Inr (s2\<lparr>crdt_loading := l\<rparr>)"
      using get False
      by (cases "a < b")
         (simp_all add: merge_end_backstream_def isNullVectorClock_def get_len_def tryCleanCrdtServerLoading_def
            s2_def eqs Let_def flip: s1_def a_def b_def)
    moreover have "crdtMasters s2 = (crdtMasters s)[nat g := Some (p\<lparr>backstream_vc := []\<rparr>)]"
      "gcVectorClock s2 = gcVectorClock s" "iAmMaster (s2\<lparr>crdt_loading := l\<rparr>) = iAmMaster s"
      by (simp_all add: s2_def eqs incrLocalVcUnit_fields jumpVectorClock_incr)
    ultimately show ?thesis by (simp add: tm)
  qed
qed

lemma merge_end_clocks_effect:
  assumes "peers_inv {} s" "check_gid g" "crdtMasters s ! nat g = Some p" "vc_wf pvc"
  shows "\<exists>s' pvc'. merge_end_clocks g (vectorClockToSds pvc) p s = Inr s'
     \<and> crdtMasters s' = (crdtMasters s)[nat g := Some (p\<lparr>pm_vectorClock := pvc'\<rparr>)]
     \<and> vc_time pvc' = vc_time pvc \<and> iAmMaster s' = iAmMaster s \<and> crdt_gid s' = crdt_gid s
     \<and> vc_time (vectorClock s) (gidw g) \<le> vc_time (vectorClock s') (gidw g)
     \<and> vc_time pvc (gidw g) \<le> vc_time (vectorClock s') (gidw g)
     \<and> (\<forall>h. h \<noteq> gidw g \<longrightarrow> vc_time (vectorClock s') h = vc_time (vectorClock s) h)
     \<and> (\<forall>h. vc_time (gcVectorClock s') h = min (vc_time (gcVectorClock s) h) (vc_time pvc h))"
proof -
  note wf = peers_inv_clocksD [OF assms(1)]
  obtain vc where vc: "mergeLogicClock (vectorClock s) pvc g = Inr vc"
      "\<forall>h. h \<noteq> gidw g \<longrightarrow> vc_map vc h = vc_map (vectorClock s) h"
      "vc_map vc (gidw g) = max (vc_map (vectorClock s) (gidw g)) (vc_map pvc (gidw g))"
    using mergeLogicClock_ok [OF wf(2) assms(4,2)] by blast
  obtain gc a' pvc' where gc: "mergeMinVectorClock (gcVectorClock s) pvc = Inr (gc, a', pvc')"
      "vc_time pvc' = vc_time pvc" "\<forall>h. vc_time gc h = min (vc_time (gcVectorClock s) h) (vc_time pvc h)"
    using mergeMin_args [OF wf(4) assms(4)] by blast
  define s' where "s' = (setPeerMaster g (Some (p\<lparr>pm_vectorClock := pvc'\<rparr>)) s)\<lparr>vectorClock := vc, gcVectorClock := gc\<rparr>"
  have "vectorClockToSds pvc = units_text pvc"
    by (cases pvc) (simp_all add: vectorClockToSds_def isNullVectorClock_def get_len_def)
  then have "merge_end_clocks g (vectorClockToSds pvc) p s = Inr s'"
    using vc(1) gc(1) by (simp add: merge_end_clocks_def sdsToVectorClock_printed assms(4) s'_def)
  moreover have "vc_time (vectorClock s) (gidw g) \<le> vc_time vc (gidw g)" "vc_time pvc (gidw g) \<le> vc_time vc (gidw g)"
    using vc(3) vc_time_le_max [of vc "gidw g" "vectorClock s" pvc] vc_time_le_max [of vc "gidw g" pvc "vectorClock s"]
    by (simp_all add: max.commute)
  moreover have "vc_time vc h = vc_time (vectorClock s) h" if "h \<noteq> gidw g" for h
    using that vc(2) by (simp add: vc_time_def)
  ultimately show ?thesis
    using gc(2,3) by (intro exI [of _ s'] exI [of _ pvc']) (auto simp: s'_def setPeerMaster_def iAmMaster_def)
qed

lemma merge_end_finish_effect:
  assumes "peers_inv {} s" "iAmMaster s" "0 \<le> g" "g < 16" "crdtMasters s ! nat g = Some p" "master p = Some c"
    and "length rid \<le> 41" "uint (vc_time (pm_vectorClock p) (gidw (crdt_gid s))) + jump_size qps < 2 ^ 56"
  shows "\<exists>acks s' p' c'. merge_end_finish qps g g rid off s = Inr (NoReply, acks, s')
     \<and> crdtMasters s' ! nat g = Some p' \<and> repl_state p' = REPL_STATE_CONNECTED \<and> master p' = Some c'
     \<and> mc_reploff c' = off \<and> mc_read_reploff c' = off \<and> take (length rid) (mc_replid c') = rid
     \<and> pm_vectorClock p' = pm_vectorClock p \<and> backstream_vc p' = [] \<and> gcVectorClock s' = gcVectorClock s
     \<and> (\<forall>h. h \<noteq> gidw (crdt_gid s) \<longrightarrow> vc_time (vectorClock s') h = vc_time (vectorClock s) h)
     \<and> (backstream_vc p \<noteq> [] \<longrightarrow>
          vc_time (pm_vectorClock p) (gidw (crdt_gid s)) \<le> vc_time (vectorClock s') (gidw (crdt_gid s)))"
proof -
  have ok: "peer_ok {} g p" using peers_inv_at [OF assms(1,3,4,5)] .
  then have live: "\<not> mc_freed c" using assms(6) by (simp add: peer_ok_def link_ok_def)
  have len: "length (crdtMasters s) = 16" using assms(1) by (rule peers_invD)
  define c' where "c' = c\<lparr>mc_replid := rid @ drop (length rid) (mc_replid c), mc_reploff := off, mc_read_reploff := off\<rparr>"
  define q where "q = p\<lparr>master := Some c', master_replid := rid @ drop (length rid) (master_replid p)\<rparr>"
  have link: "merge_end_link rid off p = Inr q"
    using assms(6,7) live by (simp add: merge_end_link_def memcpy_replid_def q_def c'_def)
  define s1 where "s1 = setPeerMaster g (Some q) s"
  have inv1: "peers_inv {} s1"
    unfolding s1_def using postE_D [OF merge_end_link_ok [OF ok] link] by (intro setPeerMaster_inv assms(1,3)) simp
  have s1: "crdtMasters s1 ! nat g = Some q" "crdt_gid s1 = crdt_gid s" "vectorClock s1 = vectorClock s"
      "gcVectorClock s1 = gcVectorClock s" "crdtMasters s1 = (crdtMasters s)[nat g := Some q]"
    using len assms(3,4) by (simp_all add: s1_def setPeerMaster_def)
  obtain s2 where s2: "merge_end_backstream qps g s1 = Inr s2"
      "crdtMasters s2 = (crdtMasters s1)[nat g := Some (q\<lparr>backstream_vc := []\<rparr>)]" "gcVectorClock s2 = gcVectorClock s1"
      "iAmMaster s2 = iAmMaster s1" "\<forall>h. h \<noteq> gidw (crdt_gid s1) \<longrightarrow> vc_time (vectorClock s2) h = vc_time (vectorClock s1) h"
      "backstream_vc q \<noteq> [] \<longrightarrow>
          vc_time (pm_vectorClock q) (gidw (crdt_gid s1)) \<le> vc_time (vectorClock s2) (gidw (crdt_gid s1))"
    using merge_end_backstream_effect [OF inv1 assms(3,4) s1(1), of qps] assms(8) by (auto simp: q_def s1(2))
  define p' where "p' = q\<lparr>backstream_vc := [], repl_state := REPL_STATE_CONNECTED, repl_transfer_lastio := unixtime s2\<rparr>"
  have get2: "getPeerMaster g s2 = Inr (Some (q\<lparr>backstream_vc := []\<rparr>))"
    using s2(2) s1(5) len assms(3,4) by (simp add: getPeerMaster_def)
  have "\<exists>acks. merge_end_ack g g s2 = Inr (acks, setPeerMaster g (Some p') s2)"
    using s2(4) assms(2) get2 live
    by (simp add: merge_end_ack_def s1_def crdtReplicationSendAck_def on_peer_def q_def c'_def p'_def)
  then obtain acks where "merge_end_ack g g s2 = Inr (acks, setPeerMaster g (Some p') s2)" by blast
  then have "merge_end_finish qps g g rid off s
      = Inr (NoReply, acks, (setPeerMaster g (Some p') s2)\<lparr>dirty := dirty s2 + 1\<rparr>)"
    using assms(3-5) len link s2(1)
    by (simp add: merge_end_finish_def getPeerMaster_def setPeerMaster_def flip: s1_def [unfolded setPeerMaster_def])
  then show ?thesis
    using s2 s1 len assms(3,4)
    by (intro exI [of _ acks] exI [of _ "(setPeerMaster g (Some p') s2)\<lparr>dirty := dirty s2 + 1\<rparr>"] exI [of _ p'] exI [of _ c'])
       (simp add: setPeerMaster_def p'_def q_def c'_def)
qed

text \<open>
  C9. The command that ends the merge of a peer's snapshot, sent with the peer's clock, replication id and
  offset, connects the peer at that position: the process time of the peer covers the snapshot, the
  collection clock becomes the minimum with the peer's clock, and if the peer was streaming this
  instance's own writes back, the own time is not behind what the peer saw of it, so that no timestamp is
  used twice.
\<close>

theorem crdtMergeEndCommand_connects:
  assumes "peers_inv {} s" "iAmMaster s" "check_gid g" "g \<noteq> crdt_gid s" "vc_wf pvc"
    and "crdtMasters s ! nat g = Some p" "master p = Some c" "length rid \<le> 41" "LLONG_MIN \<le> off" "off \<le> LLONG_MAX"
    and "uint (vc_time pvc (gidw (crdt_gid s))) + jump_size qps < 2 ^ 56"
  shows "\<exists>acks s' p' c'. crdtMergeEndCommand qps g [cmd, show_int g, vectorClockToSds pvc, rid, show_int off] s
       = Inr (NoReply, acks, s')
     \<and> crdtMasters s' ! nat g = Some p' \<and> repl_state p' = REPL_STATE_CONNECTED \<and> master p' = Some c'
     \<and> mc_reploff c' = off \<and> mc_read_reploff c' = off \<and> take (length rid) (mc_replid c') = rid
     \<and> vc_time (pm_vectorClock p') = vc_time pvc \<and> backstream_vc p' = []
     \<and> vc_time pvc (gidw g) \<le> vc_time (vectorClock s') (gidw g)
     \<and> (\<forall>h. vc_time (gcVectorClock s') h = min (vc_time (gcVectorClock s) h) (vc_time pvc h))
     \<and> (backstream_vc p \<noteq> [] \<longrightarrow>
          vc_time pvc (gidw (crdt_gid s)) \<le> vc_time (vectorClock s') (gidw (crdt_gid s)))"
proof -
  have g: "0 \<le> g" "g < 16" and num: "string2ll (show_int g) = Some g" "string2ll (show_int off) = Some off"
    using assms(3,9,10) by (auto simp: check_gid_def string2ll_show_int)
  have len: "length (crdtMasters s) = 16" using assms(1) by (rule peers_invD)
  obtain s1 pvc' where s1: "merge_end_clocks g (vectorClockToSds pvc) p s = Inr s1"
      "crdtMasters s1 = (crdtMasters s)[nat g := Some (p\<lparr>pm_vectorClock := pvc'\<rparr>)]" "vc_time pvc' = vc_time pvc"
      "iAmMaster s1 = iAmMaster s" "crdt_gid s1 = crdt_gid s" "vc_time pvc (gidw g) \<le> vc_time (vectorClock s1) (gidw g)"
      "\<forall>h. vc_time (gcVectorClock s1) h = min (vc_time (gcVectorClock s) h) (vc_time pvc h)"
    using merge_end_clocks_effect [OF assms(1,3,6,5)] by blast
  have "vectorClockToSds pvc = units_text pvc"
    by (cases pvc) (simp_all add: vectorClockToSds_def isNullVectorClock_def get_len_def)
  then have inv1: "peers_inv {} s1"
    using postE_D [OF merge_end_clocks_inv [OF assms(1,3) peers_inv_at [OF assms(1) g assms(6)]] s1(1)] assms(5)
    by (simp add: sdsToVectorClock_printed)
  define p1 where "p1 = p\<lparr>pm_vectorClock := pvc'\<rparr>"
  have p1: "crdtMasters s1 ! nat g = Some p1" "master p1 = Some c" using s1(2) g len assms(7) by (simp_all add: p1_def)
  have own: "gidw g \<noteq> gidw (crdt_gid s)"
    using gidw_eq_iff [OF assms(3) peers_inv_clocksD(1) [OF assms(1)]] assms(4) by simp
  have room: "uint (vc_time (pm_vectorClock p1) (gidw (crdt_gid s1))) + jump_size qps < 2 ^ 56"
    using assms(11) by (simp add: p1_def s1(3,5))
  have "iAmMaster s1" using s1(4) assms(2) by simp
  from merge_end_finish_effect [OF inv1 this g p1 assms(8) room, of off] obtain acks s' p' c' where fin:
      "merge_end_finish qps g g rid off s1 = Inr (NoReply, acks, s')"
      "crdtMasters s' ! nat g = Some p'" "repl_state p' = REPL_STATE_CONNECTED" "master p' = Some c'"
      "mc_reploff c' = off" "mc_read_reploff c' = off" "take (length rid) (mc_replid c') = rid"
      "pm_vectorClock p' = pm_vectorClock p1" "backstream_vc p' = []" "gcVectorClock s' = gcVectorClock s1"
      "\<forall>h. h \<noteq> gidw (crdt_gid s1) \<longrightarrow> vc_time (vectorClock s') h = vc_time (vectorClock s1) h"
      "backstream_vc p1 \<noteq> [] \<longrightarrow>
          vc_time (pm_vectorClock p1) (gidw (crdt_gid s1)) \<le> vc_time (vectorClock s') (gidw (crdt_gid s1))"
    by (elim exE conjE) (rule that)
  have "crdtMergeEndCommand qps g [cmd, show_int g, vectorClockToSds pvc, rid, show_int off] s = Inr (NoReply, acks, s')"
    using assms(3,6) num g len s1(1) fin(1) by (simp add: crdtMergeEndCommand_def getPeerMaster_def Let_def)
  with fin s1 own show ?thesis
    by (intro exI [of _ acks] exI [of _ s'] exI [of _ p'] exI [of _ c']) (simp add: p1_def)
qed

theorem crdtMergeEndCommand_connects_witness:
  "\<exists>acks s' p'. crdtMergeEndCommand 0 2 [''CRDT.END_MERGE'', show_int 2, vectorClockToSds (mk_vc [(1, 20), (2, 8)]), ''b2'',
         show_int 100] peered = Inr (NoReply, acks, s')
     \<and> crdtMasters s' ! 2 = Some p' \<and> repl_state p' = REPL_STATE_CONNECTED \<and> 20 \<le> vc_time (vectorClock s') 1"
proof -
  have wf: "vc_wf (mk_vc [(1, 20), (2, 8)])" "check_gid 2" and own: "gidw 1 = 1" "vc_time (mk_vc [(1, 20), (2, 8)]) 1 = 20"
    by code_simp+
  have room: "uint (vc_time (mk_vc [(1, 20), (2, 8)]) (gidw (crdt_gid peered))) + jump_size 0 < 2 ^ 56"
    unfolding peered_fields own by (simp add: jump_size_def)
  have "mk_vc [(1, 0)] \<noteq> []" by code_simp
  moreover have "crdtMasters peered ! nat 2 = Some sample_peer" "master sample_peer = Some sample_link"
    "backstream_vc sample_peer = mk_vc [(1, 0)]" "(2 :: int) \<noteq> crdt_gid peered"
    by (simp_all add: peered_fields sample_peer_def)
  ultimately show ?thesis
    using crdtMergeEndCommand_connects [OF peered_inv peered_fields(3) wf(2) _ wf(1) _ _ _ _ _ room,
        of sample_peer sample_link "''b2''" 100 "''CRDT.END_MERGE''"]
    by (auto simp: peered_fields own)
qed

subsection \<open>Where the code leaves defined behaviour\<close>

lemma peer_commands_faults:
  assumes "peers_inv {} s" "\<not> cluster_enabled s" "iAmMaster s" "0 \<le> port" "port < 65536" "\<not> strcaseeq ip ''no''"
  shows "16 \<le> n \<Longrightarrow> n < 2 ^ 31 \<Longrightarrow> peerofCommand t None [cmd, show_int n, ip, show_int port] s = Inl OutOfBounds"
    and "string2ll a = None \<Longrightarrow> crdtMergeStartCommand [cmd, a, vc] s = Inl OutOfBounds"
    and "16 \<le> n \<Longrightarrow> n < 2 ^ 31 \<Longrightarrow> crdtMergeEndCommand qps cgid [cmd, show_int n, vc, rid, off] s = Inl OutOfBounds"
    and "check_gid g \<Longrightarrow> crdtMasters s ! nat g = None \<Longrightarrow> crdtMergeStartCommand [cmd, show_int g, vc] s = Inl NullDeref"
    and "crdtMasters s ! nat (crdt_gid s) = None \<Longrightarrow>
      \<exists>s' p. peerofCommand t None [cmd, show_int (2 ^ 32 + crdt_gid s), ip, show_int port] s = Inr (ReplyOk, s')
        \<and> crdtMasters s' ! nat (crdt_gid s) = Some p \<and> points_to p ip port"
proof -
  have len: "length (crdtMasters s) = 16" using assms(1) by (rule peers_invD)
  have own: "0 < crdt_gid s" "crdt_gid s < 16"
    using peers_inv_clocksD(1) [OF assms(1)] by (simp_all add: check_gid_def)
  show "peerofCommand t None [cmd, show_int n, ip, show_int port] s = Inl OutOfBounds" if "16 \<le> n" "n < 2 ^ 31"
    using peerof_plain [OF assms(2) _ _ _ _ assms(4-6), of n n t cmd] that len own
    by (simp add: getPeerMaster_def to_int32_id)
  have m1: "to_int32 (- 1) = - 1" by (simp add: to_int32_id)
  show "crdtMergeStartCommand [cmd, a, vc] s = Inl OutOfBounds" if "string2ll a = None"
    using that assms(3) m1
    by (simp add: crdtMergeStartCommand_def merge_err_def crdtCancelReplicationHandshake_def getPeerMaster_def)
  show "crdtMergeEndCommand qps cgid [cmd, show_int n, vc, rid, off] s = Inl OutOfBounds" if "16 \<le> n" "n < 2 ^ 31"
    using that assms(3) len
    by (simp add: crdtMergeEndCommand_def merge_err_def crdtCancelReplicationHandshake_def getPeerMaster_def to_int32_id
        string2ll_show_int check_gid_def)
  show "crdtMergeStartCommand [cmd, show_int g, vc] s = Inl NullDeref" if "check_gid g" "crdtMasters s ! nat g = None"
    using that len by (simp add: crdtMergeStartCommand_def getPeerMaster_def string2ll_show_int check_gid_def)
  have "to_int32 (2 ^ 32 + crdt_gid s) = crdt_gid s"
  proof -
    have "(word_of_int (2 ^ 32 + crdt_gid s) :: 32 word) = word_of_int (crdt_gid s)"
      by (simp only: word_of_int_eq_iff) (simp add: take_bit_eq_mod)
    then have "to_int32 (2 ^ 32 + crdt_gid s) = to_int32 (crdt_gid s)" unfolding to_int32_def by (rule arg_cong)
    with own show ?thesis by (simp add: to_int32_id)
  qed
  then show "\<exists>s' p. peerofCommand t None [cmd, show_int (2 ^ 32 + crdt_gid s), ip, show_int port] s = Inr (ReplyOk, s')
        \<and> crdtMasters s' ! nat (crdt_gid s) = Some p \<and> points_to p ip port" if "crdtMasters s ! nat (crdt_gid s) = None"
    using peerof_effect [OF assms(1-3), of "crdt_gid s" "2 ^ 32 + crdt_gid s" port ip t cmd] assms(4-6) own that by auto
qed

text \<open>
  C37. The commands do not check the gid they index the peer table with. PEEROF with a gid above the table,
  and a merge command that an instance of its own rejects because of its gid, access the table out of
  bounds; the start of a merge of a gid without a peer follows a null pointer; and a number that equals
  the own gid modulo \<open>2^32\<close> passes the test for the own gid and registers the instance as its own peer.
\<close>

theorem peer_commands_trust_gid:
  assumes "peers_inv {} s" "\<not> cluster_enabled s" "iAmMaster s" "0 \<le> port" "port < 65536" "\<not> strcaseeq ip ''no''"
  shows "(\<forall>n. 16 \<le> n \<and> n < 2 ^ 31 \<longrightarrow>
        peerofCommand t None [cmd, show_int n, ip, show_int port] s = Inl OutOfBounds
        \<and> crdtMergeEndCommand qps cgid [cmd, show_int n, vc, rid, off] s = Inl OutOfBounds)
    \<and> (\<forall>a. string2ll a = None \<longrightarrow> crdtMergeStartCommand [cmd, a, vc] s = Inl OutOfBounds)
    \<and> (\<forall>g. check_gid g \<and> crdtMasters s ! nat g = None \<longrightarrow>
        crdtMergeStartCommand [cmd, show_int g, vc] s = Inl NullDeref)
    \<and> (crdtMasters s ! nat (crdt_gid s) = None \<longrightarrow>
        (\<exists>s' p. peerofCommand t None [cmd, show_int (2 ^ 32 + crdt_gid s), ip, show_int port] s = Inr (ReplyOk, s')
          \<and> crdtMasters s' ! nat (crdt_gid s) = Some p \<and> points_to p ip port))"
  using peer_commands_faults [OF assms] by simp

theorem peer_commands_trust_gid_witness:
  "peerofCommand 0 None [''PEEROF'', show_int 99, ''h1'', show_int 6379] sample_server = Inl OutOfBounds
   \<and> (\<exists>s' p. peerofCommand 0 None [''PEEROF'', show_int 4294967297, ''h1'', show_int 6379] sample_server = Inr (ReplyOk, s')
        \<and> crdtMasters s' ! 1 = Some p \<and> points_to p ''h1'' 6379)"
proof -
  have inv: "peers_inv {} sample_server"
    by (intro empty_table_inv sample_server_wf) (simp add: sample_server_def)
  have "\<not> strcaseeq ''h1'' ''no''" by code_simp
  then show ?thesis
    using peer_commands_trust_gid [OF inv, of 6379 "''h1''" 0 "''PEEROF''"]
    by (simp add: sample_server_def iAmMaster_def)
qed

lemma case_Inr_iff: "(case m of Inl _ \<Rightarrow> False | Inr x \<Rightarrow> P x) \<longleftrightarrow> (\<exists>x. m = Inr x \<and> P x)"
  by (cases m) simp_all


end
