(* ===== verification/Crdt_Handshake_Theorems.thy ===== *)
theory Crdt_Handshake_Theorems
  imports Crdt_Peer_Theorems
begin

section \<open>Properties of the handshake\<close>

text \<open>
  The handler of the socket implements a protocol: \<open>hs_path\<close> lists the states in which it waits, one
  command is sent when a state is entered (\<open>hs_command\<close>), and a reply moves it to the next. With a peer that
  answers, the protocol reaches its end; the command that asks for a partial resynchronisation and the
  reply to it resume the stream exactly where it was left.
\<close>

subsection \<open>Reading lines\<close>

lemma syncReadLine_line:
  "lf \<notin> set r \<Longrightarrow> length r + 2 \<le> n \<Longrightarrow> syncReadLine n (r @ crlf @ rest) acc = Some (acc @ r, rest)"
proof (induction r arbitrary: n acc)
  case Nil
  obtain m where m: "n = Suc (Suc m)" using Nil(2) by (cases n; cases "n - 1") auto
  have "cr \<noteq> lf" by simp
  then show ?case by (simp add: m)
next
  case (Cons c r)
  then obtain m where m: "n = Suc m" by (cases n) auto
  with Cons show ?case by auto
qed

lemma syncReadLine_bound:
  "syncReadLine n input acc = Some (line, rest) \<Longrightarrow> length line \<le> length acc + n"
proof (induction n input acc rule: syncReadLine.induct)
  case (3 n c input acc)
  then show ?case by (auto split: if_splits)
qed simp_all

definition plain_line :: "string \<Rightarrow> bool" where
  "plain_line r \<longleftrightarrow> lf \<notin> set r \<and> CHR 0x00 \<notin> set r \<and> length r \<le> 253"

lemma cstr_plain: "CHR 0x00 \<notin> set r \<Longrightarrow> cstr r = r"
  unfolding cstr_def by (rule takeWhile_eq_all_conv [THEN iffD2]) auto

lemma crdtReadReply_line:
  assumes "plain_line r" and "hs_in h = r @ crlf @ rest"
  shows "crdtReadReply env now h = (r, with_peer (\<lambda>p. p\<lparr>repl_transfer_lastio := now\<rparr>) (h\<lparr>hs_in := rest\<rparr>))"
  using syncReadLine_line [of r 255 rest "[]"] assms by (simp add: crdtReadReply_def plain_line_def cstr_plain)

subsection \<open>The protocol\<close>

definition hs_path :: "sync_env \<Rightarrow> CRDT_Master_Instance \<Rightarrow> repl_state list" where
  "hs_path env p =
     [REPL_STATE_RECEIVE_PONG, REPL_STATE_RECEIVE_CRDT_AUTH]
     @ (if masterauth p \<noteq> None then [REPL_STATE_RECEIVE_AUTH] else [])
     @ [REPL_STATE_RECEIVE_PORT]
     @ (if se_announce_ip env \<noteq> None then [REPL_STATE_RECEIVE_IP] else [])
     @ [REPL_STATE_RECEIVE_CAPA, REPL_STATE_RECEIVE_VC]
     @ (if backstream_vc p \<noteq> [] then [REPL_STATE_RECEIVE_BACKFLOW] else [])
     @ [REPL_STATE_RECEIVE_PSYNC]"

definition hs_command :: "sync_env \<Rightarrow> crdt_server \<Rightarrow> CRDT_Master_Instance \<Rightarrow> repl_state \<Rightarrow> string list" where
  "hs_command env s p st =
     (case st of
        REPL_STATE_RECEIVE_PONG \<Rightarrow> [''PING'']
      | REPL_STATE_RECEIVE_CRDT_AUTH \<Rightarrow> [''CRDT.AUTH'', crdt_namespace s, show_int (pm_gid p)]
      | REPL_STATE_RECEIVE_AUTH \<Rightarrow> [''AUTH'', the (masterauth p)]
      | REPL_STATE_RECEIVE_PORT \<Rightarrow> [''CRDT.REPLCONF'', ''listening-port'', show_int (se_announce_port env)]
      | REPL_STATE_RECEIVE_IP \<Rightarrow> [''CRDT.REPLCONF'', ''ip-address'', the (se_announce_ip env)]
      | REPL_STATE_RECEIVE_CAPA \<Rightarrow> [''CRDT.REPLCONF'', ''capa'', ''eof'', ''capa'', ''psync2'']
      | REPL_STATE_RECEIVE_VC \<Rightarrow> [''CRDT.REPLCONF'', ''min-vc'', vectorClockToSds (vectorClock s)]
      | REPL_STATE_RECEIVE_BACKFLOW \<Rightarrow> [''CRDT.REPLCONF'', ''backstream'', vectorClockToSds (backstream_vc p)]
      | _ \<Rightarrow> psync_request p)"

text \<open>The state of the handshake while it waits for a reply in state \<open>st\<close>.\<close>

definition waiting ::
  "crdt_server \<Rightarrow> CRDT_Master_Instance \<Rightarrow> repl_world \<Rightarrow> string list \<Rightarrow> repl_state \<Rightarrow> hs" where
  "waiting s p w sent st =
     \<lparr>hs_peer = p\<lparr>repl_state := st, repl_transfer_lastio := unixtime s,
        master_initial_offset := (if st = REPL_STATE_RECEIVE_PSYNC then - 1 else master_initial_offset p)\<rparr>,
      hs_world = w, hs_in = [], hs_sent = sent, hs_open = True\<rparr>"

definition hs_event :: "sync_env \<Rightarrow> crdt_server \<Rightarrow> string \<Rightarrow> hs \<Rightarrow> hs res" where
  "hs_event env s input h = crdtSyncWithMaster env s (h\<lparr>hs_in := hs_in h @ input\<rparr>)"

definition smooth :: "sync_env \<Rightarrow> bool" where
  "smooth env \<longleftrightarrow> \<not> se_sockerr env \<and> se_write_ok env \<and> se_handler_ok env"

definition plus_line :: "string \<Rightarrow> bool" where
  "plus_line r \<longleftrightarrow> plain_line r \<and> take 1 r = ''+''"

lemmas event_defs = hs_event_def crdtSyncWithMaster_def stages_def waiting_def smooth_def recv_stage_def send_stage_def
  crdtSendCommand_def crdt_auth_stage_def auth_stage_def ip_stage_def psync_stage_def psync_write_def
  crdtSlaveTryPartialResynchronization_def go_def with_peer_def pong_ok_def no_error_def hs_command_def after_vc_def
  isNullVectorClock_def get_len_def connecting_stage_def psync_request_def

lemma connecting_event:
  assumes "smooth env" and "pm_proxy_type p = NONE_PROXY"
  shows "hs_event env s [] (waiting s p w sent REPL_STATE_CONNECTING)
     = Inr (waiting s p w (sent @ [sync_text (hs_command env s p REPL_STATE_RECEIVE_PONG)]) REPL_STATE_RECEIVE_PONG)"
  using assms by (simp add: event_defs)

definition hs_next :: "sync_env \<Rightarrow> CRDT_Master_Instance \<Rightarrow> repl_state \<Rightarrow> repl_state" where
  "hs_next env p st =
     (case st of
        REPL_STATE_RECEIVE_PONG \<Rightarrow> REPL_STATE_RECEIVE_CRDT_AUTH
      | REPL_STATE_RECEIVE_CRDT_AUTH \<Rightarrow> if masterauth p \<noteq> None then REPL_STATE_RECEIVE_AUTH else REPL_STATE_RECEIVE_PORT
      | REPL_STATE_RECEIVE_AUTH \<Rightarrow> REPL_STATE_RECEIVE_PORT
      | REPL_STATE_RECEIVE_PORT \<Rightarrow> if se_announce_ip env \<noteq> None then REPL_STATE_RECEIVE_IP else REPL_STATE_RECEIVE_CAPA
      | REPL_STATE_RECEIVE_IP \<Rightarrow> REPL_STATE_RECEIVE_CAPA
      | REPL_STATE_RECEIVE_CAPA \<Rightarrow> REPL_STATE_RECEIVE_VC
      | REPL_STATE_RECEIVE_VC \<Rightarrow> if backstream_vc p \<noteq> [] then REPL_STATE_RECEIVE_BACKFLOW else REPL_STATE_RECEIVE_PSYNC
      | _ \<Rightarrow> REPL_STATE_RECEIVE_PSYNC)"

definition replied :: "repl_state \<Rightarrow> bool" where
  "replied st \<longleftrightarrow> st \<in> {REPL_STATE_RECEIVE_PONG, REPL_STATE_RECEIVE_CRDT_AUTH, REPL_STATE_RECEIVE_AUTH,
     REPL_STATE_RECEIVE_PORT, REPL_STATE_RECEIVE_IP, REPL_STATE_RECEIVE_CAPA, REPL_STATE_RECEIVE_VC,
     REPL_STATE_RECEIVE_BACKFLOW}"

lemma read_plus:
  assumes "plus_line r"
  shows "crdtReadReply env now (h\<lparr>hs_in := r @ crlf\<rparr>)
     = (r, with_peer (\<lambda>p. p\<lparr>repl_transfer_lastio := now\<rparr>) (h\<lparr>hs_in := []\<rparr>))"
  using assms crdtReadReply_line [of r "h\<lparr>hs_in := r @ crlf\<rparr>" "[]"] by (simp add: plus_line_def)

lemma reply_event:
  assumes "smooth env" and "plus_line r" and "replied a"
  shows "hs_event env s (r @ crlf) (waiting s p w sent a)
     = Inr (waiting s p w (sent @ [sync_text (hs_command env s p (hs_next env p a))]) (hs_next env p a))"
proof -
  have r: "crdtReadReply env now \<lparr>hs_peer = q, hs_world = w, hs_in = r @ crlf, hs_sent = sent, hs_open = True\<rparr>
      = (r, \<lparr>hs_peer = q\<lparr>repl_transfer_lastio := now\<rparr>, hs_world = w, hs_in = [], hs_sent = sent, hs_open = True\<rparr>)" for q now
    using read_plus [OF assms(2), of env now "\<lparr>hs_peer = q, hs_world = w, hs_in = [], hs_sent = sent, hs_open = True\<rparr>"]
    by (simp add: with_peer_def)
  have "take (Suc 0) r = ''+''" using assms(2) by (simp add: plus_line_def)
  note ev = assms(1) r this
  show ?thesis
    using assms(3) unfolding replied_def
    by (elim insertE emptyE) (use ev in \<open>simp_all add: event_defs hs_next_def split: option.split\<close>)
qed

subsection \<open>Running the protocol\<close>

lemma hs_path_chain: "successively (\<lambda>a b. replied a \<and> hs_next env p a = b) (hs_path env p)"
  by (simp add: hs_path_def replied_def hs_next_def)

lemma replies_run:
  assumes "smooth env" and "successively (\<lambda>a b. replied a \<and> hs_next env p a = b) (st # sts)"
    and "list_all plus_line rs" and "length rs = length sts"
  shows "foldE (hs_event env s) (map (\<lambda>r. r @ crlf) rs) (waiting s p w sent st)
     = Inr (waiting s p w (sent @ map (\<lambda>st. sync_text (hs_command env s p st)) sts) (last (st # sts)))"
  using assms(2-)
proof (induction sts arbitrary: st sent rs)
  case Nil
  then show ?case by simp
next
  case (Cons st' sts)
  then obtain r rs' where rs: "rs = r # rs'" by (cases rs) auto
  have "hs_event env s (r @ crlf) (waiting s p w sent st)
      = Inr (waiting s p w (sent @ [sync_text (hs_command env s p st')]) st')"
    using reply_event [OF assms(1), of r st s p w sent] Cons.prems(1,2) rs by (auto simp: successively.simps)
  moreover have "successively (\<lambda>a b. replied a \<and> hs_next env p a = b) (st' # sts)" "list_all plus_line rs'"
      "length rs' = length sts"
    using Cons.prems rs by (auto simp: successively.simps)
  ultimately show ?case using Cons.IH [of st' rs'] rs by simp
qed

lemma handshake_run:
  assumes "smooth env" and "pm_proxy_type p = NONE_PROXY" and "list_all plus_line rs"
    and "length rs + 1 = length (hs_path env p)"
  shows "foldE (hs_event env s) ([] # map (\<lambda>r. r @ crlf) rs) (waiting s p w [] REPL_STATE_CONNECTING)
     = Inr (waiting s p w (map (\<lambda>st. sync_text (hs_command env s p st)) (hs_path env p)) REPL_STATE_RECEIVE_PSYNC)"
proof -
  obtain sts where sts: "hs_path env p = REPL_STATE_RECEIVE_PONG # sts" "last (hs_path env p) = REPL_STATE_RECEIVE_PSYNC"
    by (simp add: hs_path_def)
  have "successively (\<lambda>a b. replied a \<and> hs_next env p a = b) (REPL_STATE_RECEIVE_PONG # sts)"
    using hs_path_chain [of env p] sts(1) by simp
  moreover have "length rs = length sts" using assms(4) sts(1) by simp
  ultimately show ?thesis
    using replies_run [OF assms(1) _ assms(3), of p REPL_STATE_RECEIVE_PONG sts s w
        "[sync_text (hs_command env s p REPL_STATE_RECEIVE_PONG)]"] sts connecting_event [OF assms(1,2), of s w "[]"]
    by simp
qed

subsection \<open>The reply to the request for a partial resynchronisation\<close>

definition run_id :: "string \<Rightarrow> bool" where
  "run_id rid \<longleftrightarrow> length rid = CONFIG_RUN_ID_SIZE \<and> set rid \<inter> {cr, lf, CHR 0x00, CHR '' ''} = {}"

lemma read_plain:
  assumes "plain_line r"
  shows "crdtReadReply env now \<lparr>hs_peer = q, hs_world = w, hs_in = r @ crlf @ rest, hs_sent = sent, hs_open = True\<rparr>
      = (r, \<lparr>hs_peer = q\<lparr>repl_transfer_lastio := now\<rparr>, hs_world = w, hs_in = rest, hs_sent = sent, hs_open = True\<rparr>)"
  using crdtReadReply_line [OF assms, of "\<lparr>hs_peer = q, hs_world = w, hs_in = r @ crlf @ rest, hs_sent = sent, hs_open = True\<rparr>"]
  by (simp add: with_peer_def)

lemma continue_id_line: "run_id rid \<Longrightarrow> continue_id (''+CONTINUE '' @ rid) = Some rid"
proof -
  assume r: "run_id rid"
  have line: "takeWhile (\<lambda>c. c \<noteq> cr \<and> c \<noteq> lf) rid = rid"
    using r by (intro takeWhile_eq_all_conv [THEN iffD2]) (auto simp: run_id_def)
  show ?thesis using r by (simp add: continue_id_def run_id_def line)
qed

lemma continue_event:
  assumes "smooth env" and "cached_master p = Some c" and "run_id (mc_replid c)" and "repl_backlog (w_crdt w) \<noteq> None"
  shows "\<exists>h. hs_event env s (''+CONTINUE '' @ mc_replid c @ crlf @ rest) (waiting s p w sent REPL_STATE_RECEIVE_PSYNC) = Inr h
     \<and> hs_sent h = sent \<and> hs_in h = rest \<and> hs_world h = w \<and> repl_state (hs_peer h) = REPL_STATE_CONNECTED
     \<and> cached_master (hs_peer h) = None
     \<and> master (hs_peer h) = Some (c\<lparr>mc_fd := repl_transfer_s p, mc_closing := False, mc_authenticated := True,
          mc_lastinteraction := unixtime s\<rparr>)"
proof -
  have plain: "plain_line (''+CONTINUE '' @ mc_replid c)" using assms(3) by (auto simp: plain_line_def run_id_def)
  note rd = read_plain [OF this, simplified]
  obtain b where "repl_backlog (w_crdt w) = Some b" using assms(4) by blast
  then show ?thesis
    using assms rd continue_id_line [OF assms(3), simplified]
    by (cases w) (simp add: event_defs transfer_stage_def psync_read_def psync_continue_def psync_new_id_def
        crdtReplicationResurrectCachedMaster_def)
qed

lemma digits_value_num_of:
  "\<forall>c \<in> set d. digit_in 0 c \<Longrightarrow> digits_value d (int n) = int (num_of n d)"
proof (induction d arbitrary: n)
  case (Cons c d)
  have "48 \<le> (of_char c :: nat)" "(of_char c :: nat) \<le> 57" using Cons.prems by (auto simp: digit_in_def)
  then have c: "48 \<le> (of_char c :: int)" "(of_char c :: int) \<le> 57" "(of_char c :: int) - 48 = int (digit_val c)"
    unfolding of_nat_of_char [of c, where ?'a = int, symmetric] by simp_all
  have "digits_value d (int (n * 10 + digit_val c)) = int (num_of (n * 10 + digit_val c) d)"
    using Cons.IH [of "n * 10 + digit_val c"] Cons.prems by auto
  moreover have "int n * 10 + (of_char c - 48) = int (n * 10 + digit_val c)" using c(3) by linarith
  ultimately show ?case using c(1,2) by (simp del: of_nat_add of_nat_mult)
qed simp

lemma strtoll_show_int: "0 \<le> v \<Longrightarrow> v \<le> LLONG_MAX \<Longrightarrow> strtoll (show_int v) = v"
proof -
  assume v: "0 \<le> v" "v \<le> LLONG_MAX"
  obtain c p where cp: "show_nat (nat v) = c # p" "num_of (digit_val c) p = nat v"
      "\<forall>c \<in> set p. digit_in 0 c" "digit_in 0 c"
    using num_of_show_nat [of "nat v"] by blast
  have "digits_value (c # p) (int 0) = int (num_of 0 (c # p))"
    using cp(3,4) by (intro digits_value_num_of) simp
  then have d: "digits_value (c # p) 0 = v" using cp(2) v(1) by simp
  have "c \<noteq> CHR ''-''" "c \<noteq> CHR ''+''" "\<not> isspace c"
    using cp(4) by (auto simp: digit_in_def isspace_def)
  then show ?thesis using v d cp(1) by (simp add: strtoll_def show_int_def del: digits_value.simps)
qed

lemma strchr_pos_first: "ch \<notin> set a \<Longrightarrow> CHR 0x00 \<notin> set a \<Longrightarrow> strchr_pos (a @ ch # b) ch = Some (length a)"
  by (induction a) auto

lemma parse_fullresync_line:
  assumes "run_id rid"
  shows "parse_fullresync (''+FULLRESYNC '' @ rid @ '' '' @ offset) = Some (rid, offset)"
  using assms strchr_pos_first [of "CHR '' ''" rid offset]
    strchr_pos_first [of "CHR '' ''" "''+FULLRESYNC''" "rid @ '' '' @ offset"]
  by (simp add: parse_fullresync_def run_id_def)

lemma fullresync_plain:
  assumes "run_id rid" and "0 \<le> v" and "v \<le> LLONG_MAX"
  shows "plain_line (''+FULLRESYNC '' @ rid @ '' '' @ show_int v)"
proof -
  have "\<not> digit_in 0 lf" "\<not> digit_in 0 (CHR 0x00)" by (simp_all add: digit_in_def)
  then have "lf \<notin> set (show_int v)" "CHR 0x00 \<notin> set (show_int v)"
    using assms(2) show_nat_digits by (auto simp: show_int_def)
  moreover have "length (show_int v) \<le> 20" using assms(2,3) by (intro length_show_int) simp_all
  ultimately show ?thesis using assms(1) by (simp add: plain_line_def run_id_def)
qed

lemma fullresync_event:
  assumes "smooth env" and "run_id rid" and "0 \<le> v" and "v \<le> LLONG_MAX"
  shows "\<exists>h c. hs_event env s (''+FULLRESYNC '' @ rid @ '' '' @ show_int v @ crlf @ rest) (waiting s p w sent REPL_STATE_RECEIVE_PSYNC) = Inr h
     \<and> hs_sent h = sent \<and> hs_in h = rest \<and> hs_world h = w \<and> repl_state (hs_peer h) = REPL_STATE_TRANSFER
     \<and> master_replid (hs_peer h) = rid \<and> master_initial_offset (hs_peer h) = v \<and> cached_master (hs_peer h) = None
     \<and> master (hs_peer h) = Some c \<and> mc_fd c = repl_transfer_s p \<and> mc_gid c = pm_gid p"
  using assms read_plain [OF fullresync_plain [OF assms(2-4)], simplified]
    parse_fullresync_line [OF assms(2), of "show_int v", simplified]
  by (simp add: event_defs transfer_stage_def psync_read_def psync_fullresync_def crdtReplicationDiscardCachedMaster_def
        start_transfer_def crdtReplicationCreateMasterClient_def strtoll_show_int)

subsection \<open>From the connection to the stream\<close>

definition just_connected :: "int \<Rightarrow> crdt_server \<Rightarrow> CRDT_Master_Instance \<Rightarrow> repl_world \<Rightarrow> hs" where
  "just_connected fd s p w =
     \<lparr>hs_peer = snd (crdtConnectWithMaster (Some fd) (unixtime s) p), hs_world = w, hs_in = [], hs_sent = [], hs_open = True\<rparr>"

lemma just_connected_waiting:
  "just_connected fd s p w = waiting s (p\<lparr>repl_transfer_s := fd\<rparr>) w [] REPL_STATE_CONNECTING"
  by (cases p) (simp add: just_connected_def waiting_def crdtConnectWithMaster_def)

lemma hs_path_fd [simp]: "hs_path env (p\<lparr>repl_transfer_s := fd\<rparr>) = hs_path env p"
  by (simp add: hs_path_def)

lemma hs_command_fd [simp]: "hs_command env s (p\<lparr>repl_transfer_s := fd\<rparr>) = hs_command env s p"
  by (rule ext) (simp add: hs_command_def psync_request_def split: repl_state.split)

lemma foldE_snoc: "foldE f (xs @ [x]) a = bindE (foldE f xs a) (f x)"
  by (induction xs arbitrary: a) (auto simp: bindE_def split: sum.splits)

lemma handshake_then:
  assumes "smooth env" and "pm_proxy_type p = NONE_PROXY" and "list_all plus_line rs"
    and "length rs + 1 = length (hs_path env p)"
  shows "foldE (hs_event env s) (([] # map (\<lambda>r. r @ crlf) rs) @ [answer]) (just_connected fd s p w)
     = hs_event env s answer (waiting s (p\<lparr>repl_transfer_s := fd\<rparr>) w
         (map (\<lambda>st. sync_text (hs_command env s p st)) (hs_path env p)) REPL_STATE_RECEIVE_PSYNC)"
  unfolding foldE_snoc just_connected_waiting
  using handshake_run [OF assms(1) _ assms(3), of "p\<lparr>repl_transfer_s := fd\<rparr>" s w] assms(2,4) by simp

text \<open>
  C4. The handshake with a peer completes. From the connection, as long as writes succeed and the peer answers
  every command with a status line, the handler sends, in this order and each exactly once, PING,
  CRDT.AUTH, AUTH when there is a password, the listening port, the announced address when there is one, the
  capabilities, the vector clock of the server, the backstream clock when there is one, and the request for a
  partial resynchronisation. If the answer to that is CONTINUE with the known replication id, the cached link
  becomes the link of the peer with its offset and buffers as they were, and the peer is connected; if it is
  FULLRESYNC with an id and an offset, both are recorded, the cached link is dropped and the transfer starts.
\<close>

theorem crdtSyncWithMaster_completes:
  assumes "smooth env" and "pm_proxy_type p = NONE_PROXY" and "list_all plus_line rs"
    and "length rs + 1 = length (hs_path env p)" and "cached_master p = Some c" and "run_id (mc_replid c)"
    and "repl_backlog (w_crdt w) \<noteq> None" and "run_id rid" and "0 \<le> v" and "v \<le> LLONG_MAX"
  shows "(\<exists>h. foldE (hs_event env s) (([] # map (\<lambda>r. r @ crlf) rs) @ [''+CONTINUE '' @ mc_replid c @ crlf])
            (just_connected fd s p w) = Inr h
        \<and> hs_sent h = map (\<lambda>st. sync_text (hs_command env s p st)) (hs_path env p)
        \<and> repl_state (hs_peer h) = REPL_STATE_CONNECTED \<and> cached_master (hs_peer h) = None
        \<and> master (hs_peer h) = Some (c\<lparr>mc_fd := fd, mc_closing := False, mc_authenticated := True,
             mc_lastinteraction := unixtime s\<rparr>))
     \<and> (\<exists>h d. foldE (hs_event env s) (([] # map (\<lambda>r. r @ crlf) rs) @ [''+FULLRESYNC '' @ rid @ '' '' @ show_int v @ crlf])
            (just_connected fd s p w) = Inr h
        \<and> hs_sent h = map (\<lambda>st. sync_text (hs_command env s p st)) (hs_path env p)
        \<and> repl_state (hs_peer h) = REPL_STATE_TRANSFER \<and> cached_master (hs_peer h) = None
        \<and> master_replid (hs_peer h) = rid \<and> master_initial_offset (hs_peer h) = v
        \<and> master (hs_peer h) = Some d \<and> mc_fd d = fd \<and> mc_gid d = pm_gid p)"
proof -
  let ?p = "p\<lparr>repl_transfer_s := fd\<rparr>" and ?sent = "map (\<lambda>st. sync_text (hs_command env s p st)) (hs_path env p)"
  have c: "cached_master ?p = Some c" using assms(5) by simp
  have fd: "repl_transfer_s ?p = fd" "pm_gid ?p = pm_gid p" by simp_all
  show ?thesis
    unfolding handshake_then [OF assms(1-4)]
    using continue_event [OF assms(1) c assms(6,7), of s "[]" ?sent, unfolded append_Nil2 fd]
      fullresync_event [OF assms(1,8-10), of s "[]" ?p w ?sent, unfolded append_Nil2 fd] by blast
qed

definition calm_env :: sync_env where
  "calm_env = \<lparr>se_sockerr = False, se_write_ok = True, se_handler_ok = True, se_errno = [], se_announce_ip = None,
     se_announce_port = 6380\<rparr>"

definition kept_link :: mclient where
  "kept_link = sample_link\<lparr>mc_fd := - 1, mc_replid := replicate CONFIG_RUN_ID_SIZE (CHR ''a'')\<rparr>"

definition waiting_peer :: CRDT_Master_Instance where
  "waiting_peer = sample_peer\<lparr>master := None, cached_master := Some kept_link, repl_state := REPL_STATE_CONNECT\<rparr>"

theorem crdtSyncWithMaster_completes_witness:
  "\<exists>h. foldE (hs_event calm_env sample_server)
         (([] # map (\<lambda>r. r @ crlf) (replicate 6 ''+OK'')) @ [''+CONTINUE '' @ mc_replid kept_link @ crlf])
         (just_connected 12 sample_server waiting_peer sample_world) = Inr h
     \<and> length (hs_sent h) = 7 \<and> repl_state (hs_peer h) = REPL_STATE_CONNECTED
     \<and> (\<exists>m. master (hs_peer h) = Some m \<and> mc_fd m = 12 \<and> mc_reploff m = 70)"
proof -
  have ok: "list_all plus_line (replicate 6 ''+OK'')" by (simp add: list_all_iff plus_line_def plain_line_def)
  have path: "length (hs_path calm_env waiting_peer) = 7"
    by (simp add: hs_path_def calm_env_def waiting_peer_def sample_peer_def mk_vc_def)
  have id: "run_id (mc_replid kept_link)" by (simp add: run_id_def kept_link_def)
  have off: "mc_reploff kept_link = 70" by (simp add: kept_link_def sample_link_def)
  have w: "repl_backlog (w_crdt sample_world) \<noteq> None" by (simp add: sample_world_def sample_stream_def)
  have "smooth calm_env" "pm_proxy_type waiting_peer = NONE_PROXY" "cached_master waiting_peer = Some kept_link"
    by (simp_all add: smooth_def calm_env_def waiting_peer_def sample_peer_def)
  note go = crdtSyncWithMaster_completes [OF this(1,2) ok _ this(3) id w id, of 0 sample_server 12, THEN conjunct1]
  show ?thesis using go path off by force
qed

text \<open>
  C40. Three failures of the handshake are faults of the code instead of retries. A write error while sending
  CRDT.AUTH releases the error string twice. An answer CONTINUE, which a peer may give to a full
  resynchronisation request, dereferences the cached link although there is none. An answer FULLRESYNC when
  the client for the stream cannot be created dereferences the missing client.
\<close>

theorem crdtSyncWithMaster_faults:
  "(plus_line r \<and> \<not> se_sockerr env \<and> \<not> se_write_ok env \<longrightarrow>
      hs_event env s (r @ crlf) (waiting s p w sent REPL_STATE_RECEIVE_PONG) = Inl UseAfterFree)
   \<and> (smooth env \<and> cached_master p = None \<longrightarrow>
      hs_event env s (''+CONTINUE'' @ crlf) (waiting s p w sent REPL_STATE_RECEIVE_PSYNC) = Inl NullDeref)
   \<and> (plain_line (''+FULLRESYNC'' @ rest) \<and> \<not> se_sockerr env \<and> \<not> se_handler_ok env \<longrightarrow>
      hs_event env s ((''+FULLRESYNC'' @ rest) @ crlf) (waiting s p w sent REPL_STATE_RECEIVE_PSYNC) = Inl NullDeref)"
proof (intro conjI impI; elim conjE)
  assume a: "plus_line r" "\<not> se_sockerr env" "\<not> se_write_ok env"
  have r: "plain_line r" "take (Suc 0) r = ''+''" using a(1) by (simp_all add: plus_line_def)
  note rd = read_plain [OF r(1), where rest = "[]", simplified]
  show "hs_event env s (r @ crlf) (waiting s p w sent REPL_STATE_RECEIVE_PONG) = Inl UseAfterFree"
    using a rd r(2) by (simp add: event_defs)
next
  assume a: "smooth env" "cached_master p = None"
  have "plain_line ''+CONTINUE''" by (simp add: plain_line_def)
  note rd = read_plain [OF this, where rest = "[]", simplified]
  show "hs_event env s (''+CONTINUE'' @ crlf) (waiting s p w sent REPL_STATE_RECEIVE_PSYNC) = Inl NullDeref"
    using a rd by (simp add: event_defs transfer_stage_def psync_read_def psync_continue_def continue_id_def
        crdtReplicationResurrectCachedMaster_def)
next
  assume a: "plain_line (''+FULLRESYNC'' @ rest)" "\<not> se_sockerr env" "\<not> se_handler_ok env"
  note rd = read_plain [OF a(1), where rest = "[]", simplified]
  show "hs_event env s ((''+FULLRESYNC'' @ rest) @ crlf) (waiting s p w sent REPL_STATE_RECEIVE_PSYNC) = Inl NullDeref"
    using a rd by (simp add: event_defs transfer_stage_def psync_read_def)
qed

theorem crdtSyncWithMaster_faults_witness:
  "hs_event (calm_env\<lparr>se_write_ok := False\<rparr>) sample_server (''+PONG'' @ crlf)
       (waiting sample_server sample_peer sample_world [] REPL_STATE_RECEIVE_PONG) = Inl UseAfterFree
   \<and> hs_event calm_env sample_server (''+CONTINUE'' @ crlf)
       (waiting sample_server sample_peer sample_world [] REPL_STATE_RECEIVE_PSYNC) = Inl NullDeref
   \<and> hs_event (calm_env\<lparr>se_handler_ok := False\<rparr>) sample_server ((''+FULLRESYNC'' @ '' x'') @ crlf)
       (waiting sample_server sample_peer sample_world [] REPL_STATE_RECEIVE_PSYNC) = Inl NullDeref"
proof (intro conjI)
  have "plus_line ''+PONG''" "plain_line (''+FULLRESYNC'' @ '' x'')" by (simp_all add: plus_line_def plain_line_def)
  moreover have "smooth calm_env" "cached_master sample_peer = None" by (simp_all add: smooth_def calm_env_def sample_peer_def)
  moreover have e: "\<not> se_sockerr calm_env" by (simp add: calm_env_def)
  note f = crdtSyncWithMaster_faults [of "''+PONG''" _ sample_server sample_peer sample_world "[]" "'' x''"]
  ultimately show "hs_event (calm_env\<lparr>se_write_ok := False\<rparr>) sample_server (''+PONG'' @ crlf)
       (waiting sample_server sample_peer sample_world [] REPL_STATE_RECEIVE_PONG) = Inl UseAfterFree"
    "hs_event calm_env sample_server (''+CONTINUE'' @ crlf)
       (waiting sample_server sample_peer sample_world [] REPL_STATE_RECEIVE_PSYNC) = Inl NullDeref"
    "hs_event (calm_env\<lparr>se_handler_ok := False\<rparr>) sample_server ((''+FULLRESYNC'' @ '' x'') @ crlf)
       (waiting sample_server sample_peer sample_world [] REPL_STATE_RECEIVE_PSYNC) = Inl NullDeref"
    using f [of "calm_env\<lparr>se_write_ok := False\<rparr>"] f [of calm_env] f [of "calm_env\<lparr>se_handler_ok := False\<rparr>"] e
    by simp_all
qed

end
