(* ===== verification/Crdt_Resume.thy ===== *)
theory Crdt_Resume
  imports Crdt_Handshake_Theorems
begin

section \<open>The text of a command between two instances\<close>

text \<open>
  A handshake command is written as a line of words (\<open>sync_text\<close>) and read by the other instance as an inline
  request (\<open>processInlineBuffer\<close>). The lemmas show that a command of plain words is read back as it was
  given, which connects the handshake of one instance with the replication commands of the other.
\<close>

definition word_char :: "char \<Rightarrow> bool" where
  "word_char c \<longleftrightarrow> \<not> isspace c \<and> c \<noteq> CHR 0x00 \<and> c \<noteq> CHR 0x22 \<and> c \<noteq> CHR 0x27"

definition plain_word :: "string \<Rightarrow> bool" where
  "plain_word w \<longleftrightarrow> w \<noteq> [] \<and> list_all word_char w"

lemma word_char_ne:
  assumes "word_char c"
  shows "c \<noteq> CHR '' ''" "c \<noteq> CHR 0x0A" "c \<noteq> CHR 0x0D" "c \<noteq> CHR 0x09" "c \<noteq> CHR 0x22" "c \<noteq> CHR 0x27" "c \<noteq> CHR 0x00"
proof -
  have "isspace (CHR '' '')" "isspace (CHR 0x0A)" "isspace (CHR 0x0D)" "isspace (CHR 0x09)" by code_simp+
  then show "c \<noteq> CHR '' ''" "c \<noteq> CHR 0x0A" "c \<noteq> CHR 0x0D" "c \<noteq> CHR 0x09" "c \<noteq> CHR 0x22" "c \<noteq> CHR 0x27" "c \<noteq> CHR 0x00"
    using assms unfolding word_char_def by metis+
qed

lemma get_token_word:
  "word_char c \<Longrightarrow> get_token NoQuote cur (c # p) = get_token NoQuote (cur @ [c]) p"
  by (subst get_token.simps(3)) (simp add: word_char_ne)

lemma get_token_plain: "list_all word_char w \<Longrightarrow> get_token NoQuote cur (w @ r) = get_token NoQuote (cur @ w) r"
  by (induction w arbitrary: cur) (simp_all add: get_token_word)

lemma get_token_end:
  "get_token NoQuote cur [] = Some (cur, [])" "get_token NoQuote cur (CHR '' '' # r) = Some (cur, r)"
  by (subst get_token.simps(3); simp)+

lemma splitargs_loop_word:
  assumes "plain_word w"
  shows "splitargs_loop v w = Some (v @ [w])" "splitargs_loop v (w @ CHR '' '' # r) = splitargs_loop (v @ [w]) r"
proof -
  obtain c w' where w: "w = c # w'" "\<not> isspace c" using assms by (cases w) (auto simp: plain_word_def word_char_def)
  have "get_token NoQuote [] (w @ []) = Some (w, [])" "get_token NoQuote [] (w @ CHR '' '' # r) = Some (w, r)"
    using assms by (simp_all only: plain_word_def get_token_plain get_token_end append_Nil)
  then show "splitargs_loop v w = Some (v @ [w])" "splitargs_loop v (w @ CHR '' '' # r) = splitargs_loop (v @ [w]) r"
    using w by (simp_all add: splitargs_loop.simps [of v] splitargs_loop.simps [of _ "[]"])
qed

lemma splitargs_loop_words:
  "list_all plain_word ws \<Longrightarrow> ws \<noteq> [] \<Longrightarrow> splitargs_loop v (sdsjoinsds ws '' '') = Some (v @ ws)"
proof (induction ws arbitrary: v rule: induct_list012)
  case (2 x)
  then show ?case by (simp add: splitargs_loop_word)
next
  case (3 x y xs)
  then show ?case using splitargs_loop_word(2) [of x v "sdsjoinsds (y # xs) '' ''"] by simp
qed simp

lemma join_fold:
  "cmd \<noteq> [] \<Longrightarrow> list_all plain_word ws \<Longrightarrow>
     foldl (\<lambda>cmd arg. (if cmd \<noteq> [] then cmd @ '' '' else cmd) @ cstr arg) cmd ws = sdsjoinsds (cmd # ws) '' ''"
proof (induction ws arbitrary: cmd)
  case (Cons w ws)
  have "cstr w = w" using Cons.prems(2) by (intro cstr_plain) (auto simp: plain_word_def list_all_iff word_char_def)
  then show ?case
    using Cons.IH [of "cmd @ '' '' @ w"] Cons.prems by (cases ws) simp_all
qed simp

lemma sync_text_join: "list_all plain_word ws \<Longrightarrow> ws \<noteq> [] \<Longrightarrow> sync_text ws = sdsjoinsds ws '' '' @ crlf"
proof (cases ws)
  case (Cons w ws')
  assume ok: "list_all plain_word ws"
  have "cstr w = w" "w \<noteq> []" using ok Cons by (auto simp: plain_word_def list_all_iff word_char_def intro!: cstr_plain)
  then show ?thesis using ok Cons join_fold [of w ws'] by (simp add: sync_text_def)
qed simp

lemma join_chars:
  assumes "list_all plain_word ws" and "c \<in> set (sdsjoinsds ws '' '')"
  shows "c \<noteq> lf" "c \<noteq> cr" "c \<noteq> CHR 0x00"
proof -
  have "word_char c \<or> c = CHR '' ''"
    using assms set_sdsjoinsds [of ws "'' ''"] by (auto simp: list_all_iff plain_word_def)
  then show "c \<noteq> lf" "c \<noteq> cr" "c \<noteq> CHR 0x00" using word_char_ne [of c] by auto
qed

lemma join_empty: "list_all plain_word ws \<Longrightarrow> ws \<noteq> [] \<Longrightarrow> sdsjoinsds ws '' '' \<noteq> []"
  by (induction ws rule: induct_list012) (auto simp: plain_word_def)

lemma processInlineBuffer_command:
  assumes "list_all plain_word ws" and "ws \<noteq> []" and "CLIENT_SLAVE \<notin> c_flags c"
  shows "processInlineBuffer (n, c\<lparr>c_querybuf := sync_text ws\<rparr>) = Inr (True, n, c\<lparr>c_querybuf := [], c_argv := ws\<rparr>)"
proof -
  let ?line = "sdsjoinsds ws '' ''"
  note chars = join_chars [OF assms(1)]
  have pos: "strchr_pos (?line @ crlf) lf = Some (Suc (length ?line))"
    using strchr_pos_first [of lf "?line @ [cr]" "[]"] chars by auto
  have line: "takeWhile (\<lambda>c. c \<noteq> CHR 0x00) ?line = ?line" using chars by (auto simp: takeWhile_eq_all_conv)
  then have split: "sdssplitargs ?line = Some ws"
    unfolding sdssplitargs_def line using splitargs_loop_words [OF assms(1,2), of "[]"] by simp
  have "filter (\<lambda>a. a \<noteq> []) ws = ws"
    using assms(1) by (auto simp: filter_id_conv list_all_iff plain_word_def)
  then show ?thesis
    using pos split assms(2,3) join_empty [OF assms(1,2)] sync_text_join [OF assms(1,2)]
      processInlineBuffer_split [of "c\<lparr>c_querybuf := sync_text ws\<rparr>" "Suc (length ?line)" "length ?line" ws n]
    by (simp add: nth_append)
qed

section \<open>Resuming the stream of a peer\<close>

lemma show_int_word: "0 \<le> v \<Longrightarrow> plain_word (show_int v)"
proof -
  assume v: "0 \<le> v"
  have "word_char c" if "digit_in 0 c" for c
    using that by (auto simp: digit_in_def word_char_def isspace_def)
  moreover have "show_nat (nat v) \<noteq> []" using num_of_show_nat [of "nat v"] by auto
  ultimately show ?thesis using v show_nat_digits by (auto simp: plain_word_def show_int_def list_all_iff)
qed

lemma strcaseeq_refl: "strcaseeq x x"
  by (simp add: strcaseeq_def)

lemma psync_request_plain:
  assumes "cached_master p = Some c" and "plain_word (mc_replid c)" and "0 \<le> mc_reploff c"
  shows "list_all plain_word (psync_request p)"
proof -
  have "plain_word ''CRDT.PSYNC''" by code_simp
  with assms show ?thesis by (simp add: psync_request_def show_int_word)
qed

lemma run_id_plain: "plain_word rid \<Longrightarrow> length rid = CONFIG_RUN_ID_SIZE \<Longrightarrow> run_id rid"
  using word_char_ne by (fastforce simp: run_id_def plain_word_def list_all_iff)

lemma parsed_client [simp]:
  "ready (n, c\<lparr>c_querybuf := q, c_argv := a\<rparr>) = ready (n, c)" "queued (c\<lparr>c_querybuf := q, c_argv := a\<rparr>) = queued c"
  by (simp_all add: ready_def writable_def getClientType_def obuf_wf_def list_bytes_def queued_def)

end
