(* ===== verification/Repl_Master.thy ===== *)
theory Repl_Master
  imports Crdt_Handshake
begin

section \<open>The master side of replication\<close>

text \<open>
  The commands with which a replica or a peer configures its connection and asks for the stream
  (\<^verbatim>\<open>replconfCommand\<close>, \<^verbatim>\<open>syncCommand\<close>, \<^verbatim>\<open>crdtPsyncCommand\<close> of \<^verbatim>\<open>src/src/replication.c\<close>), the start of the
  snapshots for those that need one, and the transfer of a snapshot file. The clients waiting in
  \<^verbatim>\<open>srv->slaves\<close> are values of the list \<open>slaves\<close>; a loop over the list that may remove its current node
  is \<open>each_slave\<close>. Lines written directly to a socket are collected with the id of the client in
  \<open>m_out\<close>, clients released by \<^verbatim>\<open>freeClient\<close> leave the list, and clients that are only detached are
  collected in \<open>m_gone\<close>. \<open>m_master_out\<close> holds the commands queued for the own master, \<open>m_save\<close> the
  replication information handed to the child that writes a snapshot for the peers.
\<close>

abbreviation NET_IP_STR_LEN :: nat where "NET_IP_STR_LEN \<equiv> 46"
abbreviation PROTO_IOBUF_LEN :: nat where "PROTO_IOBUF_LEN \<equiv> 1024 * 16"

record mstate =
  m_world :: repl_world
  m_crdt :: crdt_server
  m_out :: "(nat \<times> string) list"
  m_gone :: "client list"
  m_master_out :: "string list list"
  m_save :: "crdtRdbSaveInfo option"

text \<open>
  \<open>me_write_ok\<close>, \<open>me_handler_ok\<close> and \<open>me_file\<close> say by client whether a direct write takes all its bytes,
  whether an event handler can be registered, and the descriptor and size of the snapshot file if it can be opened. The other
  fields are the outcomes of \<^verbatim>\<open>pipe\<close> and \<^verbatim>\<open>fork\<close>, the settings of the process and the state of its own master.
\<close>

record menv =
  me_write_ok :: "nat \<Rightarrow> bool"
  me_handler_ok :: "nat \<Rightarrow> bool"
  me_file :: "nat \<Rightarrow> (int \<times> nat) option"
  me_pipe_ok :: bool
  me_fork_ok :: bool
  me_fresh :: string
  me_crdt_enabled :: bool
  me_multi_process_sync :: bool
  me_master_down :: bool
  me_master_reploff :: "int option"
  me_has_cached_master :: bool

definition srv_of :: "bool \<Rightarrow> repl_world \<Rightarrow> repl_server" where
  "srv_of is_crdt w = (if is_crdt then w_crdt w else w_server w)"

definition set_srv :: "bool \<Rightarrow> repl_server \<Rightarrow> repl_world \<Rightarrow> repl_world" where
  "set_srv is_crdt srv w = (if is_crdt then w\<lparr>w_crdt := srv\<rparr> else w\<lparr>w_server := srv\<rparr>)"

definition slave_flag :: "bool \<Rightarrow> client_flag" where
  "slave_flag is_crdt = (if is_crdt then CLIENT_CRDT_SLAVE else CLIENT_SLAVE)"

fun each_slave :: "('s \<times> client \<Rightarrow> ('s \<times> client option) res) \<Rightarrow> client list \<Rightarrow> 's \<Rightarrow> ('s \<times> client list) res" where
  "each_slave f [] s = Inr (s, [])"
| "each_slave f (c # cs) s =
     bindE (f (s, c)) (\<lambda>(s, r).
     bindE (each_slave f cs s) (\<lambda>(s, cs).
     Inr (s, (case r of None \<Rightarrow> cs | Some c \<Rightarrow> c # cs))))"

subsection \<open>Starting a snapshot\<close>

text \<open>The loop that announces the offset of the snapshot to every client waiting for one.\<close>

definition setup_slave ::
  "menv \<Rightarrow> (repl_server \<times> net \<times> (nat \<times> string) list) \<times> client
   \<Rightarrow> ((repl_server \<times> net \<times> (nat \<times> string) list) \<times> client option) res" where
  "setup_slave env = (\<lambda>((srv, n, out), slave).
     if c_replstate slave \<noteq> SLAVE_STATE_WAIT_BGSAVE_START then Inr ((srv, n, out), Some slave)
     else
       let (_, line, srv, n, slave) =
             replicationSetupSlaveForFullResync srv (n, slave) (getPsyncInitialOffset srv) (me_write_ok env (c_id slave))
       in Inr ((srv, n, out @ [(c_id slave, line)]), Some slave))"

definition setup_slaves :: "menv \<Rightarrow> bool \<Rightarrow> mstate \<Rightarrow> mstate res" where
  "setup_slaves env is_crdt m =
     (let w = m_world m; srv = srv_of is_crdt w
      in bindE (each_slave (setup_slave env) (slaves srv) (srv, w_net w, m_out m)) (\<lambda>((srv, n, out), cs).
         Inr (m\<lparr>m_world := (set_srv is_crdt (srv\<lparr>slaves := cs\<rparr>) w)\<lparr>w_net := n\<rparr>, m_out := out\<rparr>)))"

text \<open>The loop that refuses them when the snapshot could not be started.\<close>

definition drop_slave :: "bool \<Rightarrow> (net \<times> client list) \<times> client \<Rightarrow> ((net \<times> client list) \<times> client option) res" where
  "drop_slave is_crdt = (\<lambda>((n, gone), slave).
     if c_replstate slave \<noteq> SLAVE_STATE_WAIT_BGSAVE_START then Inr ((n, gone), Some slave)
     else
       bindE (addReplyErrorLength (n, slave\<lparr>c_flags := c_flags slave - {slave_flag is_crdt}\<rparr>)
                ''BGSAVE failed, replication can't continue'') (\<lambda>(n, slave).
       Inr ((n, gone @ [slave\<lparr>c_flags := insert CLIENT_CLOSE_AFTER_REPLY (c_flags slave)\<rparr>]), None)))"

definition drop_slaves :: "bool \<Rightarrow> mstate \<Rightarrow> mstate res" where
  "drop_slaves is_crdt m =
     (let w = m_world m; srv = srv_of is_crdt w
      in bindE (each_slave (drop_slave is_crdt) (slaves srv) (w_net w, m_gone m)) (\<lambda>((n, gone), cs).
         Inr (m\<lparr>m_world := (set_srv is_crdt (srv\<lparr>slaves := cs\<rparr>) w)\<lparr>w_net := n\<rparr>, m_gone := gone\<rparr>)))"

definition waiting_ids :: "repl_server \<Rightarrow> nat list" where
  "waiting_ids srv = map c_id (filter (\<lambda>c. c_replstate c = SLAVE_STATE_WAIT_BGSAVE_START) (slaves srv))"

text \<open>\<open>rdbSaveToSlavesSockets\<close> in the parent process; the child writes the snapshot to the sockets.\<close>

definition save_forked :: "menv \<Rightarrow> bool \<Rightarrow> nat list \<Rightarrow> mstate \<Rightarrow> bool \<times> mstate" where
  "save_forked env is_crdt clientids m =
     (let w = m_world m; srv = srv_of is_crdt w
      in if \<not> me_fork_ok env then
           (False, m\<lparr>m_world := set_srv is_crdt (srv\<lparr>slaves := map (\<lambda>slave.
                if c_id slave \<in> set clientids then slave\<lparr>c_replstate := SLAVE_STATE_WAIT_BGSAVE_START\<rparr>
                else slave) (slaves srv)\<rparr>) w\<rparr>)
         else (True, m\<lparr>m_world := set_srv is_crdt (srv\<lparr>rdb_child := Some RDB_CHILD_TYPE_SOCKET\<rparr>) w\<rparr>))"

definition rdbSaveToSlavesSockets :: "menv \<Rightarrow> bool \<Rightarrow> mstate \<Rightarrow> (bool \<times> mstate) res" where
  "rdbSaveToSlavesSockets env is_crdt m =
     (let srv = srv_of is_crdt (m_world m); clientids = waiting_ids srv
      in if aof_child srv \<or> rdb_child srv \<noteq> None then Inr (False, m)
         else if \<not> me_pipe_ok env then Inr (False, m)
         else bindE (setup_slaves env is_crdt m) (\<lambda>m. Inr (save_forked env is_crdt clientids m)))"

definition rdbSaveBackground :: "menv \<Rightarrow> mstate \<Rightarrow> bool \<times> mstate" where
  "rdbSaveBackground env m =
     (let w = m_world m; server = w_server w; crdtServer = w_crdt w
      in if aof_child server \<or> rdb_child server \<noteq> None
            \<or> \<not> me_multi_process_sync env \<and> (aof_child crdtServer \<or> rdb_child crdtServer \<noteq> None) then (False, m)
         else if \<not> me_fork_ok env then (False, m)
         else (True, m\<lparr>m_world := w\<lparr>w_server := server\<lparr>rdb_child := Some RDB_CHILD_TYPE_DISK\<rparr>\<rparr>\<rparr>))"

text \<open>Whether \<open>rdbPopulateSaveInfo\<close> and \<open>crdtRdbPopulateSaveInfo2\<close> find the replication information.\<close>

definition rdbPopulateSaveInfo :: "menv \<Rightarrow> mstate \<Rightarrow> bool" where
  "rdbPopulateSaveInfo env m \<longleftrightarrow>
     iAmMaster (m_crdt m) \<and> repl_backlog (w_server (m_world m)) \<noteq> None \<or> me_master_reploff env \<noteq> None \<or> me_has_cached_master env"

definition startBgsaveForReplication :: "menv \<Rightarrow> slave_capa set \<Rightarrow> mstate \<Rightarrow> (bool \<times> mstate) res" where
  "startBgsaveForReplication env mincapa m =
     (let socket_target = repl_diskless_sync (w_server (m_world m)) \<and> SLAVE_CAPA_EOF \<in> mincapa
      in bindE (if \<not> rdbPopulateSaveInfo env m then Inr (False, m)
                else if socket_target then rdbSaveToSlavesSockets env False m
                else Inr (rdbSaveBackground env m)) (\<lambda>(retval, m).
         if \<not> retval then bindE (drop_slaves False m) (\<lambda>m. Inr (False, m))
         else
           bindE (if \<not> socket_target then setup_slaves env False m else Inr m) (\<lambda>m.
           Inr (True, m))))"

definition startCrdtBgsaveForReplication2 :: "menv \<Rightarrow> VectorClock \<Rightarrow> mstate \<Rightarrow> (bool \<times> mstate) res" where
  "startCrdtBgsaveForReplication2 env min_vc m =
     (let srv = w_crdt (m_world m)
      in bindE (case crdtRdbPopulateSaveInfo2 (repl_backlog srv \<noteq> None) (slaveseldb srv) (getPsyncInitialOffset srv)
                       (replid srv) min_vc of
                  None \<Rightarrow> Inr (False, m)
                | Some rsi \<Rightarrow>
                    bindE (rdbSaveToSlavesSockets env True m) (\<lambda>(retval, m).
                    Inr (retval, if retval then m\<lparr>m_save := Some rsi\<rparr> else m))) (\<lambda>(retval, m).
         if \<not> retval then bindE (drop_slaves True m) (\<lambda>m. Inr (False, m)) else Inr (True, m)))"

definition startCrdtBgsaveForReplication :: "menv \<Rightarrow> int \<Rightarrow> mstate \<Rightarrow> (bool \<times> mstate) res" where
  "startCrdtBgsaveForReplication env min_logic_time m =
     (let srv = w_crdt (m_world m)
      in bindE (case crdtRdbPopulateSaveInfo (repl_backlog srv \<noteq> None) (slaveseldb srv) (getPsyncInitialOffset srv)
                       (replid srv) min_logic_time of
                  None \<Rightarrow> Inr (False, m)
                | Some rsi \<Rightarrow>
                    bindE (rdbSaveToSlavesSockets env True m) (\<lambda>(retval, m).
                    Inr (retval, if retval then m\<lparr>m_save := Some rsi\<rparr> else m))) (\<lambda>(retval, m).
         if \<not> retval then bindE (drop_slaves True m) (\<lambda>m. Inr (False, m)) else Inr (True, m)))"

subsection \<open>Full and partial resynchronisation\<close>

text \<open>
  The client is the last node of \<^verbatim>\<open>srv->slaves\<close> once it is attached: \<open>set_last\<close> stores it there.
\<close>

definition set_last :: "bool \<Rightarrow> client \<Rightarrow> repl_world \<Rightarrow> repl_world" where
  "set_last is_crdt c w =
     (let srv = srv_of is_crdt w in set_srv is_crdt (srv\<lparr>slaves := butlast (slaves srv) @ [c]\<rparr>) w)"

definition refull_backlog :: "menv \<Rightarrow> bool \<Rightarrow> repl_world \<Rightarrow> repl_world res" where
  "refull_backlog env is_crdt w =
     (let server = w_server w; crdtServer = w_crdt w
      in bindE (if length (slaves crdtServer) + length (slaves server) = 1 \<and> repl_backlog server = None
                   \<and> repl_backlog crdtServer = None then
                  let server = changeReplicationId (me_fresh env) True server server;
                      crdtServer = changeReplicationId (me_fresh env) False server crdtServer
                  in createReplicationBacklog (clearReplicationId2 server, clearReplicationId2 crdtServer)
                else if repl_backlog (srv_of is_crdt w) = None then createReplicationBacklog (server, crdtServer)
                else Inr (server, crdtServer)) (\<lambda>(server, crdtServer).
         Inr (w\<lparr>w_server := server, w_crdt := crdtServer\<rparr>)))"

text \<open>Case 1 of \<open>refullSyncWithSlaves\<close>: the client joins the snapshot in progress if it may.\<close>

definition join_bgsave :: "menv \<Rightarrow> bool \<Rightarrow> client \<Rightarrow> mstate \<Rightarrow> mstate" where
  "join_bgsave env is_crdt c m =
     (let w = m_world m
      in case find (\<lambda>slave. c_replstate slave = SLAVE_STATE_WAIT_BGSAVE_END) (slaves (srv_of is_crdt w)) of
           None \<Rightarrow> m
         | Some slave \<Rightarrow>
             if c_slave_capa slave \<subseteq> c_slave_capa c then
               let (_, line, server, n, c) =
                     replicationSetupSlaveForFullResync (w_server w) (w_net w, copyClientOutputBuffer c slave)
                       (c_psync_initial_offset slave) (me_write_ok env (c_id c))
               in m\<lparr>m_world := set_last is_crdt c (w\<lparr>w_server := server, w_net := n\<rparr>), m_out := m_out m @ [(c_id c, line)]\<rparr>
             else m)"

definition refullSyncWithSlaves :: "menv \<Rightarrow> bool \<Rightarrow> mstate \<Rightarrow> client \<Rightarrow> mstate res" where
  "refullSyncWithSlaves env is_crdt m c =
     (let c = c\<lparr>c_replstate := SLAVE_STATE_WAIT_BGSAVE_START, c_repldbfd := - 1,
                c_flags := insert (slave_flag is_crdt) (c_flags c)\<rparr>;
          w = m_world m; srv = srv_of is_crdt w
      in bindE (refull_backlog env is_crdt (set_srv is_crdt (srv\<lparr>slaves := slaves srv @ [c]\<rparr>) w)) (\<lambda>w.
         let m = m\<lparr>m_world := w\<rparr>; srv = srv_of is_crdt w
         in case rdb_child srv of
              Some RDB_CHILD_TYPE_DISK \<Rightarrow> Inr (join_bgsave env is_crdt c m)
            | Some RDB_CHILD_TYPE_SOCKET \<Rightarrow> Inr m
            | None \<Rightarrow>
                if repl_diskless_sync srv \<and> SLAVE_CAPA_EOF \<in> c_slave_capa c then Inr m
                else if \<not> aof_child srv \<and> \<not> is_crdt
                then bindE (startBgsaveForReplication env (c_slave_capa c) m) (\<lambda>(_, m). Inr m)
                else Inr m))"

text \<open>
  The commands return the client, or \<^term>\<open>None\<close> when it now belongs to the list of attached clients (or was released).
\<close>

definition reply_to :: "(net \<times> client \<Rightarrow> (net \<times> client) res) \<Rightarrow> mstate \<Rightarrow> client \<Rightarrow> (mstate \<times> client option) res" where
  "reply_to f m c =
     bindE (f (w_net (m_world m), c)) (\<lambda>(n, c). Inr (m\<lparr>m_world := (m_world m)\<lparr>w_net := n\<rparr>\<rparr>, Some c))"

definition try_partial :: "menv \<Rightarrow> bool \<Rightarrow> mstate \<Rightarrow> client \<Rightarrow> (mstate \<times> client option) res" where
  "try_partial env is_crdt m c =
     (let w = m_world m
      in bindE (masterTryPartialResynchronization is_crdt (w_server w, w_crdt w) (w_net w, c) (me_write_ok env (c_id c)))
           (\<lambda>(r, n, c).
            case r of
              Some (line, server, crdtServer) \<Rightarrow>
                Inr (m\<lparr>m_world := \<lparr>w_net = n, w_server = server, w_crdt = crdtServer\<rparr>, m_out := m_out m @ [(c_id c, line)]\<rparr>, None)
            | None \<Rightarrow>
                bindE (refullSyncWithSlaves env is_crdt (m\<lparr>m_world := w\<lparr>w_net := n\<rparr>\<rparr>) c) (\<lambda>m. Inr (m, None))))"

definition pending_text :: string where
  "pending_text = ''SYNC and PSYNC are invalid with pending output''"

definition nolink_text :: string where
  "nolink_text = ''-NOMASTERLINK Can't SYNC while not connected with my master'' @ crlf"

definition syncCommand :: "menv \<Rightarrow> mstate \<Rightarrow> client \<Rightarrow> (mstate \<times> client option) res" where
  "syncCommand env m c =
     (if CLIENT_SLAVE \<in> c_flags c \<or> CLIENT_CRDT_SLAVE \<in> c_flags c then Inr (m, Some c)
      else if me_crdt_enabled env \<and> SLAVE_CAPA_CRDT \<notin> c_slave_capa c
      then reply_to (\<lambda>st. addReplySds st (''-NOMASTERLINK Slave is not crdt'' @ crlf)) m c
      else if me_master_down env then reply_to (\<lambda>st. addReplySds st nolink_text) m c
      else if clientHasPendingReplies c then reply_to (\<lambda>st. addReplyErrorLength st pending_text) m c
      else if strcaseeq (hd (c_argv c)) ''psync'' then try_partial env False m c
      else bindE (refullSyncWithSlaves env False m (c\<lparr>c_flags := insert CLIENT_PRE_PSYNC (c_flags c)\<rparr>)) (\<lambda>m.
           Inr (m, None)))"

definition newer_vc_text :: "crdt_server \<Rightarrow> client \<Rightarrow> string" where
  "newer_vc_text s c =
     ''CRDT.SYNC and CRDT.PSYNC Slave vectorClock , gid('' @ show_int (crdt_gid s) @ '') client vc(''
     @ vectorClockToSds (c_vectorClock c) @ '') > local vc('' @ vectorClockToSds (vectorClock s) @ '')''"

definition crdtPsyncCommand :: "menv \<Rightarrow> mstate \<Rightarrow> client \<Rightarrow> (mstate \<times> client option) res" where
  "crdtPsyncCommand env m c =
     (let s = m_crdt m
      in if CLIENT_SLAVE \<in> c_flags c \<or> CLIENT_CRDT_SLAVE \<in> c_flags c then Inr (m, Some c)
         else if me_master_down env then reply_to (\<lambda>st. addReplySds st nolink_text) m c
         else if SLAVE_CAPA_BACKSTREAM \<notin> c_slave_capa c
                 \<and> fst (get_vcu_from_vc (c_vectorClock c) (crdt_gid s)) > fst (get_vcu_from_vc (vectorClock s) (crdt_gid s))
         then reply_to (\<lambda>st. addReplyErrorLength st (newer_vc_text s c)) m c
         else if clientHasPendingReplies c then reply_to (\<lambda>st. addReplyErrorLength st pending_text) m c
         else try_partial env True m c)"

subsection \<open>Attached clients\<close>

text \<open>
  An attached client is reached through the list and through the command it sends; \<open>update_slave\<close> stores a
  changed client at its node. Clients are told apart by their id.
\<close>

definition update_slave :: "client \<Rightarrow> repl_world \<Rightarrow> repl_world" where
  "update_slave c w =
     (let put = (\<lambda>srv. srv\<lparr>slaves := map (\<lambda>d. if c_id d = c_id c then c else d) (slaves srv)\<rparr>)
      in w\<lparr>w_server := put (w_server w), w_crdt := put (w_crdt w)\<rparr>)"

text \<open>The part of \<open>freeClient\<close> for an attached client: its node is removed; a monitor is in another list.\<close>

definition detach :: "bool \<Rightarrow> bool \<Rightarrow> int \<Rightarrow> client \<Rightarrow> repl_server \<Rightarrow> repl_server res" where
  "detach is_slave monitor now c srv =
     (if \<not> is_slave then Inr srv
      else
        bindE (assertE (monitor \<or> c_id c \<in> c_id ` set (slaves srv))) (\<lambda>_.
        let srv = (if monitor then srv else srv\<lparr>slaves := filter (\<lambda>d. c_id d \<noteq> c_id c) (slaves srv)\<rparr>);
            srv = (if slaves srv = [] then srv\<lparr>repl_no_slaves_since := now\<rparr> else srv)
        in Inr (refreshGoodSlavesCount srv)))"

definition freeSlave :: "client \<Rightarrow> repl_world \<Rightarrow> repl_world res" where
  "freeSlave c w =
     (let now = net_unixtime (w_net w)
      in bindE (detach (CLIENT_SLAVE \<in> c_flags c) (CLIENT_MONITOR \<in> c_flags c) now c (w_server w)) (\<lambda>server.
         bindE (detach (CLIENT_CRDT_SLAVE \<in> c_flags c) False now c (w_crdt w)) (\<lambda>crdtServer.
         Inr (w\<lparr>w_server := server, w_crdt := crdtServer\<rparr>))))"

definition putSlaveOnline :: "menv \<Rightarrow> client \<Rightarrow> repl_world \<Rightarrow> (repl_world \<times> client option) res" where
  "putSlaveOnline env slave w =
     (let slave = slave\<lparr>c_replstate := SLAVE_STATE_ONLINE, c_repl_put_online_on_ack := False,
                        c_repl_ack_time := net_unixtime (w_net w)\<rparr>;
          w = update_slave slave w
      in if \<not> me_handler_ok env (c_id slave) then bindE (freeSlave slave w) (\<lambda>w. Inr (w, None))
         else if CLIENT_CRDT_SLAVE \<in> c_flags slave
         then Inr (w\<lparr>w_crdt := refreshGoodSlavesCount (w_crdt w)\<rparr>, Some slave)
         else if CLIENT_SLAVE \<in> c_flags slave
         then Inr (w\<lparr>w_server := refreshGoodSlavesCount (w_server w)\<rparr>, Some slave)
         else Inr (w, Some slave))"

subsection \<open>REPLCONF\<close>

text \<open>What one option does: go on with the next, or return from the command.\<close>

datatype conf_flow = ConfNext mstate client | ConfReturn mstate "client option"

definition conf_error :: "string \<Rightarrow> mstate \<Rightarrow> client \<Rightarrow> conf_flow res" where
  "conf_error msg m c =
     bindE (addReplyErrorFormat (w_net (m_world m), c) msg) (\<lambda>(n, c).
     Inr (ConfReturn (m\<lparr>m_world := (m_world m)\<lparr>w_net := n\<rparr>\<rparr>) (Some c)))"

definition online_on_ack :: "menv \<Rightarrow> bool \<Rightarrow> mstate \<Rightarrow> client \<Rightarrow> conf_flow res" where
  "online_on_ack env cond m c =
     (let m = m\<lparr>m_world := update_slave c (m_world m)\<rparr>
      in if c_repl_put_online_on_ack c \<and> c_replstate c = SLAVE_STATE_ONLINE \<and> cond
         then bindE (putSlaveOnline env c (m_world m)) (\<lambda>(w, r). Inr (ConfReturn (m\<lparr>m_world := w\<rparr>) r))
         else Inr (ConfReturn m (Some c)))"

definition conf_port :: "string \<Rightarrow> mstate \<Rightarrow> client \<Rightarrow> conf_flow res" where
  "conf_port val m c =
     bindE (getLongLongFromObjectOrReply (w_net (m_world m), c) val None) (\<lambda>(v, n, c).
     let m = m\<lparr>m_world := (m_world m)\<lparr>w_net := n\<rparr>\<rparr>
     in case v of
          None \<Rightarrow> Inr (ConfReturn m (Some c))
        | Some port \<Rightarrow> Inr (ConfNext m (c\<lparr>c_slave_listening_port := to_int32 port\<rparr>)))"

definition conf_ack :: "menv \<Rightarrow> string \<Rightarrow> mstate \<Rightarrow> client \<Rightarrow> conf_flow res" where
  "conf_ack env val m c =
     (if CLIENT_SLAVE \<notin> c_flags c \<and> CLIENT_CRDT_SLAVE \<notin> c_flags c then Inr (ConfReturn m (Some c))
      else
        case string2ll val of
          None \<Rightarrow> Inr (ConfReturn m (Some c))
        | Some offset \<Rightarrow>
            online_on_ack env (CLIENT_SLAVE \<in> c_flags c) m
              (c\<lparr>c_repl_ack_off := (if offset > c_repl_ack_off c then offset else c_repl_ack_off c),
                 c_repl_ack_time := net_unixtime (w_net (m_world m))\<rparr>))"

definition conf_min_vc :: "string \<Rightarrow> mstate \<Rightarrow> client \<Rightarrow> conf_flow res" where
  "conf_min_vc val m c =
     bindE (refreshVectorClock val (m_crdt m)) (\<lambda>(vc, s).
     bindE (addVectorClockUnit (c_filterVectorClock c) (crdt_gid s) (fst (get_vcu_from_vc vc (crdt_gid s)))) (\<lambda>f.
     Inr (ConfNext (m\<lparr>m_crdt := s\<rparr>) (c\<lparr>c_vectorClock := vc, c_filterVectorClock := f\<rparr>))))"

definition conf_backstream :: "string \<Rightarrow> mstate \<Rightarrow> client \<Rightarrow> conf_flow res" where
  "conf_backstream val m c =
     bindE (sdsToVectorClock val) (\<lambda>vc.
     bindE (vectorClockMerge (c_filterVectorClock c) vc) (\<lambda>(f, _, _).
     Inr (ConfNext m (c\<lparr>c_filterVectorClock := f, c_slave_capa := insert SLAVE_CAPA_BACKSTREAM (c_slave_capa c)\<rparr>))))"

definition conf_ack_vc :: "menv \<Rightarrow> string \<Rightarrow> mstate \<Rightarrow> client \<Rightarrow> conf_flow res" where
  "conf_ack_vc env val m c =
     (if CLIENT_CRDT_SLAVE \<notin> c_flags c then Inr (ConfReturn m (Some c))
      else
        bindE (refreshVectorClock val (m_crdt m)) (\<lambda>(vc, s).
        online_on_ack env True (m\<lparr>m_crdt := s\<rparr>)
          (c\<lparr>c_repl_ack_time := net_unixtime (w_net (m_world m)), c_vectorClock := vc\<rparr>)))"

definition replconf_option :: "menv \<Rightarrow> string \<Rightarrow> string \<Rightarrow> mstate \<Rightarrow> client \<Rightarrow> conf_flow res" where
  "replconf_option env opt val m c =
     (if strcaseeq opt ''listening-port'' then conf_port val m c
      else if strcaseeq opt ''ip-address'' then
        if length val < NET_IP_STR_LEN then Inr (ConfNext m (c\<lparr>c_slave_ip := val\<rparr>))
        else conf_error (''REPLCONF ip-address provided by slave instance is too long: '' @ show_int (int (length val)) @ '' bytes'') m c
      else if strcaseeq opt ''capa'' then
        Inr (ConfNext m (if strcaseeq val ''eof'' then c\<lparr>c_slave_capa := insert SLAVE_CAPA_EOF (c_slave_capa c)\<rparr>
                         else if strcaseeq val ''psync2'' then c\<lparr>c_slave_capa := insert SLAVE_CAPA_PSYNC2 (c_slave_capa c)\<rparr>
                         else c))
      else if strcaseeq opt ''ack'' then conf_ack env val m c
      else if strcaseeq opt ''getack'' then
        Inr (ConfReturn (case me_master_reploff env of
               None \<Rightarrow> m
             | Some off \<Rightarrow> m\<lparr>m_master_out := m_master_out m @ [[''REPLCONF'', ''ACK'', show_int off]]\<rparr>) (Some c))
      else if strcaseeq opt ''min-vc'' then conf_min_vc val m c
      else if strcaseeq opt ''backstream'' then conf_backstream val m c
      else if strcaseeq opt ''ack-vc'' then conf_ack_vc env val m c
      else if strcaseeq opt ''crdt'' then Inr (ConfNext m (c\<lparr>c_slave_capa := insert SLAVE_CAPA_CRDT (c_slave_capa c)\<rparr>))
      else conf_error (''Unrecognized REPLCONF option: '' @ cstr opt) m c)"

fun replconf_loop :: "menv \<Rightarrow> string list \<Rightarrow> mstate \<Rightarrow> client \<Rightarrow> conf_flow res" where
  "replconf_loop env (opt # val # rest) m c =
     bindE (replconf_option env opt val m c) (\<lambda>r.
     case r of ConfReturn m r \<Rightarrow> Inr (ConfReturn m r) | ConfNext m c \<Rightarrow> replconf_loop env rest m c)"
| "replconf_loop env _ m c = Inr (ConfNext m c)"

definition store :: "mstate \<times> client option \<Rightarrow> mstate \<times> client option" where
  "store = (\<lambda>(m, r). (case r of None \<Rightarrow> m | Some c \<Rightarrow> m\<lparr>m_world := update_slave c (m_world m)\<rparr>, r))"

definition replconfCommand :: "menv \<Rightarrow> mstate \<Rightarrow> client \<Rightarrow> (mstate \<times> client option) res" where
  "replconfCommand env m c =
     bindE (if length (c_argv c) mod 2 = 0 then reply_to (\<lambda>st. addReply st (RawObj (''-ERR syntax error'' @ crlf))) m c
            else
              bindE (replconf_loop env (tl (c_argv c)) m c) (\<lambda>r.
              case r of
                ConfReturn m r \<Rightarrow> Inr (m, r)
              | ConfNext m c \<Rightarrow> reply_to (\<lambda>st. addReply st (RawObj (''+OK'' @ crlf))) m c)) (\<lambda>r.
     Inr (store r))"

subsection \<open>Sending a snapshot file\<close>

text \<open>
  One call of the handler \<open>sendBulkToSlave\<close>. \<open>ans1\<close> and \<open>ans2\<close> are the answers of the socket to the write of the
  preamble and of the next piece of the file; the bytes written are returned with the client.
\<close>

definition send_preamble :: "write_res \<Rightarrow> client \<Rightarrow> (string \<times> bool \<times> client) option" where
  "send_preamble ans slave =
     (case c_replpreamble slave of
        None \<Rightarrow> Some ([], True, slave)
      | Some p \<Rightarrow>
          (case ans of
             Wrote k \<Rightarrow>
               let k = min k (length p); rest = sdsrange p (int k) (- 1)
               in if rest = [] then Some (take k p, True, slave\<lparr>c_replpreamble := None\<rparr>)
                  else Some (take k p, False, slave\<lparr>c_replpreamble := Some rest\<rparr>)
           | _ \<Rightarrow> None))"

definition sendBulkToSlave ::
  "menv \<Rightarrow> string \<Rightarrow> write_res \<Rightarrow> write_res \<Rightarrow> client \<Rightarrow> repl_world \<Rightarrow> (string \<times> repl_world \<times> client option) res" where
  "sendBulkToSlave env file ans1 ans2 slave w =
     (let free = (\<lambda>out slave. bindE (freeSlave slave w) (\<lambda>w. Inr (out, w, None)))
      in case send_preamble ans1 slave of
           None \<Rightarrow> free [] slave
         | Some (out, False, slave) \<Rightarrow> Inr (out, update_slave slave w, Some slave)
         | Some (out, True, slave) \<Rightarrow>
             let buf = take PROTO_IOBUF_LEN (drop (c_repldboff slave) file)
             in if buf = [] then free out slave
                else
                  case ans2 of
                    WouldBlock \<Rightarrow> Inr (out, update_slave slave w, Some slave)
                  | WriteErr \<Rightarrow> free out slave
                  | Wrote k \<Rightarrow>
                      let k = min k (length buf); slave = slave\<lparr>c_repldboff := c_repldboff slave + k\<rparr>;
                          out = out @ take k buf
                      in if c_repldboff slave = c_repldbsize slave
                         then bindE (putSlaveOnline env (slave\<lparr>c_repldbfd := - 1\<rparr>) w) (\<lambda>(w, r). Inr (out, w, r))
                         else Inr (out, update_slave slave w, Some slave))"

subsection \<open>The end of a snapshot\<close>

text \<open>A loop over the attached clients that looks each one up, since the body may release it.\<close>

definition for_slaves :: "bool \<Rightarrow> (client \<Rightarrow> 's \<times> repl_world \<Rightarrow> ('s \<times> repl_world) res) \<Rightarrow> 's \<times> repl_world \<Rightarrow> ('s \<times> repl_world) res" where
  "for_slaves is_crdt f = (\<lambda>(s, w).
     foldE (\<lambda>i (s, w). case find (\<lambda>c. c_id c = i) (slaves (srv_of is_crdt w)) of None \<Rightarrow> Inr (s, w) | Some c \<Rightarrow> f c (s, w))
       (map c_id (slaves (srv_of is_crdt w))) (s, w))"

definition bgsave_done :: "menv \<Rightarrow> bool \<Rightarrow> rdb_child \<Rightarrow> client \<Rightarrow> slave_capa set option \<times> repl_world
   \<Rightarrow> (slave_capa set option \<times> repl_world) res" where
  "bgsave_done env ok type slave = (\<lambda>(mincapa, w).
     let free = bindE (freeSlave slave w) (\<lambda>w. Inr (mincapa, w))
     in if c_replstate slave = SLAVE_STATE_WAIT_BGSAVE_START then
          Inr (Some (case mincapa of None \<Rightarrow> c_slave_capa slave | Some s \<Rightarrow> s \<inter> c_slave_capa slave), w)
        else if c_replstate slave = SLAVE_STATE_WAIT_BGSAVE_END then
          if type = RDB_CHILD_TYPE_SOCKET then
            Inr (mincapa, update_slave (slave\<lparr>c_replstate := SLAVE_STATE_ONLINE, c_repl_put_online_on_ack := True,
                   c_repl_ack_time := net_unixtime (w_net w)\<rparr>) w)
          else if \<not> ok then free
          else
            case me_file env (c_id slave) of
              None \<Rightarrow> free
            | Some (fd, sz) \<Rightarrow>
                let slave = slave\<lparr>c_repldbfd := fd, c_repldboff := 0, c_repldbsize := sz, c_replstate := SLAVE_STATE_SEND_BULK,
                                  c_replpreamble := Some (''$'' @ show_int (int sz) @ crlf)\<rparr>
                in if \<not> me_handler_ok env (c_id slave)
                   then bindE (freeSlave slave w) (\<lambda>w. Inr (mincapa, w))
                   else Inr (mincapa, update_slave slave w)
        else Inr (mincapa, w))"

definition updateSlavesWaitingBgsave :: "menv \<Rightarrow> bool \<Rightarrow> bool \<Rightarrow> rdb_child \<Rightarrow> mstate \<Rightarrow> mstate res" where
  "updateSlavesWaitingBgsave env is_crdt ok type m =
     bindE (for_slaves is_crdt (bgsave_done env ok type) (None, m_world m)) (\<lambda>(mincapa, w).
     let m = m\<lparr>m_world := w\<rparr>
     in case mincapa of
          None \<Rightarrow> Inr m
        | Some capa \<Rightarrow> bindE (startBgsaveForReplication env capa m) (\<lambda>(_, m). Inr m))"

end
