(* ===== verification/Repl_Master_Theorems.thy ===== *)
theory Repl_Master_Theorems
  imports Repl_Master "HOL-Library.Sublist"
begin

section \<open>Properties of the master side\<close>

text \<open>
  The transfer of a snapshot file delivers the file, and the conversation in which a peer configures its
  connection and asks for the stream.
\<close>

subsection \<open>The snapshot transfer\<close>

definition bulk_rest :: "string \<Rightarrow> client \<Rightarrow> string" where
  "bulk_rest file c = (case c_replpreamble c of None \<Rightarrow> [] | Some p \<Rightarrow> p) @ drop (c_repldboff c) file"

definition bulk_inv :: "string \<Rightarrow> client \<Rightarrow> bool" where
  "bulk_inv file c \<longleftrightarrow> c_replstate c = SLAVE_STATE_SEND_BULK \<and> c_repldbsize c = length file
     \<and> c_repldboff c < length file \<and> c_replpreamble c \<noteq> Some []"

text \<open>The handler called for a list of answers of the socket, as long as the client is in this state.\<close>

fun bulk_run :: "menv \<Rightarrow> string \<Rightarrow> (write_res \<times> write_res) list \<Rightarrow> client \<Rightarrow> repl_world
    \<Rightarrow> (string \<times> repl_world \<times> client option) res" where
  "bulk_run env file [] c w = Inr ([], w, Some c)"
| "bulk_run env file ((a1, a2) # answers) c w =
     (if c_replstate c \<noteq> SLAVE_STATE_SEND_BULK then Inr ([], w, Some c)
      else
        bindE (sendBulkToSlave env file a1 a2 c w) (\<lambda>(out, w, r).
        case r of
          None \<Rightarrow> Inr (out, w, None)
        | Some c \<Rightarrow> bindE (bulk_run env file answers c w) (\<lambda>(out', w, r). Inr (out @ out', w, r))))"

lemma send_preamble_split:
  assumes "send_preamble ans c = Some (out, done, c')" and "bulk_inv file c"
  shows "out @ bulk_rest file c' = bulk_rest file c" "bulk_inv file c'" "done \<Longrightarrow> c_replpreamble c' = None"
proof -
  have r: "sdsrange p (int k) (- 1) = drop k p" for p k by (rule sdsrange_drop)
  show "out @ bulk_rest file c' = bulk_rest file c" "bulk_inv file c'" "done \<Longrightarrow> c_replpreamble c' = None"
    using assms
    by (auto simp: send_preamble_def bulk_rest_def bulk_inv_def r Let_def split: option.splits write_res.splits if_splits)
qed

lemma putSlaveOnline_online:
  "putSlaveOnline env c w = Inr (w', Some c') \<Longrightarrow> c_replstate c' = SLAVE_STATE_ONLINE"
  by (auto simp: putSlaveOnline_def Let_def bindE_eq_Inr split: if_splits)

text \<open>The second half of the handler, once the preamble has been sent.\<close>

lemma bulk_chunk:
  assumes "bulk_inv file c" and "c_replpreamble c = None"
    and "k \<le> length (take PROTO_IOBUF_LEN (drop (c_repldboff c) file))"
  shows "take k (take PROTO_IOBUF_LEN (drop (c_repldboff c) file)) @ drop (c_repldboff c + k) file = bulk_rest file c"
    and "c_repldboff c + k \<le> length file"
proof -
  let ?d = "drop (c_repldboff c) file"
  have "k \<le> PROTO_IOBUF_LEN" using assms(3) by simp
  then have "take k (take PROTO_IOBUF_LEN ?d) = take k ?d" by (simp add: take_take min_absorb1)
  then show "take k (take PROTO_IOBUF_LEN ?d) @ drop (c_repldboff c + k) file = bulk_rest file c"
    using append_take_drop_id [of k ?d] assms(2) by (simp add: bulk_rest_def add.commute)
  show "c_repldboff c + k \<le> length file" using assms(1,3) by (auto simp: bulk_inv_def)
qed

lemma sendBulkToSlave_split:
  assumes "sendBulkToSlave env file a1 a2 c w = Inr (out, w', r)" and "bulk_inv file c"
  shows "prefix out (bulk_rest file c)
    \<and> (\<forall>c'. r = Some c' \<longrightarrow> bulk_inv file c' \<and> out @ bulk_rest file c' = bulk_rest file c
        \<or> c_replstate c' = SLAVE_STATE_ONLINE \<and> out = bulk_rest file c)"
proof (cases "send_preamble a1 c")
  case None
  then show ?thesis using assms(1) by (auto simp: sendBulkToSlave_def bindE_eq_Inr)
next
  case (Some x)
  then obtain out1 go c1 where p: "send_preamble a1 c = Some (out1, go, c1)" by (cases x) auto
  note pre = send_preamble_split [OF p assms(2)]
  have pf: "prefix out1 (bulk_rest file c)" using pre(1) by (metis prefixI)
  show ?thesis
  proof (cases go)
    case False
    then show ?thesis using assms(1) p pre pf by (auto simp: sendBulkToSlave_def)
  next
    case True
    let ?buf = "take PROTO_IOBUF_LEN (drop (c_repldboff c1) file)"
    have pn: "c_replpreamble c1 = None" using pre(3) True by simp
    have chunk: "out1 @ take k ?buf @ drop (c_repldboff c1 + k) file = bulk_rest file c" "c_repldboff c1 + k \<le> length file"
      if "k \<le> length ?buf" for k
      using bulk_chunk [OF pre(2) pn that] pre(1) by simp_all
    show ?thesis
    proof (cases a2)
      case (Wrote k)
      let ?k = "min k (length ?buf)"
      have b: "?buf \<noteq> []" using pre(2) by (simp add: bulk_inv_def)
      note ch = chunk [of ?k, OF min.cobounded2]
      show ?thesis
      proof (cases "c_repldboff c1 + ?k = c_repldbsize c1")
        case True
        then have sz: "c_repldboff c1 + ?k = length file" using pre(2) by (simp add: bulk_inv_def)
        with ch have "out1 @ take ?k ?buf = bulk_rest file c" by simp
        moreover have "out = out1 @ take ?k ?buf" "\<exists>c2. putSlaveOnline env c2 w = Inr (w', r)"
          using assms(1) p \<open>go\<close> Wrote b True by (auto simp: sendBulkToSlave_def Let_def bindE_eq_Inr)
        ultimately show ?thesis using putSlaveOnline_online by auto
      next
        case False
        then have "c_repldboff c1 + ?k < length file" using ch(2) pre(2) by (auto simp: bulk_inv_def)
        moreover have "out = out1 @ take ?k ?buf" "r = Some (c1\<lparr>c_repldboff := c_repldboff c1 + ?k\<rparr>)"
          using assms(1) p \<open>go\<close> Wrote b False by (auto simp: sendBulkToSlave_def Let_def)
        moreover have "bulk_rest file (c1\<lparr>c_repldboff := c_repldboff c1 + ?k\<rparr>) = drop (c_repldboff c1 + ?k) file"
          using pn by (simp add: bulk_rest_def)
        ultimately have "out @ bulk_rest file (c1\<lparr>c_repldboff := c_repldboff c1 + ?k\<rparr>) = bulk_rest file c"
            "bulk_inv file (c1\<lparr>c_repldboff := c_repldboff c1 + ?k\<rparr>)"
          using ch(1) pre(2) by (simp_all only: append_assoc) (simp add: bulk_inv_def)
        then show ?thesis using \<open>r = Some _\<close> by (metis option.inject prefixI)
      qed
    qed (use assms(1) p True pre pf in \<open>auto simp: sendBulkToSlave_def Let_def bindE_eq_Inr split: if_splits\<close>)
  qed
qed

lemma putSlaveOnline_total:
  "me_handler_ok env (c_id c) \<Longrightarrow> \<exists>w' c'. putSlaveOnline env c w = Inr (w', Some c')"
  by (simp add: putSlaveOnline_def Let_def)

lemma send_preamble_progress:
  assumes "bulk_inv file c" and "0 < k"
  shows "\<exists>out go c'. send_preamble (Wrote k) c = Some (out, go, c') \<and> (\<not> go \<longrightarrow> out \<noteq> [])"
  using assms by (cases "c_replpreamble c") (auto simp: send_preamble_def bulk_inv_def Let_def)

lemma sendBulkToSlave_progress:
  assumes "bulk_inv file c" and "0 < k1" and "0 < k2" and "\<And>i. me_handler_ok env i"
  shows "\<exists>out w' c'. sendBulkToSlave env file (Wrote k1) (Wrote k2) c w = Inr (out, w', Some c') \<and> out \<noteq> []"
proof -
  obtain out1 go c1 where p: "send_preamble (Wrote k1) c = Some (out1, go, c1)" "\<not> go \<Longrightarrow> out1 \<noteq> []"
    using send_preamble_progress [OF assms(1,2)] by blast
  note pre = send_preamble_split [OF p(1) assms(1)]
  show ?thesis
  proof (cases go)
    case False
    then show ?thesis using p by (simp add: sendBulkToSlave_def)
  next
    case True
    let ?buf = "take PROTO_IOBUF_LEN (drop (c_repldboff c1) file)"
    have b: "?buf \<noteq> []" using pre(2) by (simp add: bulk_inv_def)
    then have k: "0 < min k2 (length ?buf)" using assms(3) by simp
    let ?c = "c1\<lparr>c_repldboff := c_repldboff c1 + min k2 (length ?buf)\<rparr>" and ?out = "out1 @ take (min k2 (length ?buf)) ?buf"
    have out: "?out \<noteq> []" using b k by simp
    obtain w' c' where on: "putSlaveOnline env (?c\<lparr>c_repldbfd := - 1\<rparr>) w = Inr (w', Some c')"
      using putSlaveOnline_total [OF assms(4)] by blast
    show ?thesis
    proof (cases "c_repldboff ?c = c_repldbsize ?c")
      case eq: True
      then have "sendBulkToSlave env file (Wrote k1) (Wrote k2) c w = Inr (?out, w', Some c')"
        using p(1) True b on by (simp add: sendBulkToSlave_def Let_def)
      with out show ?thesis by blast
    next
      case False
      then have "sendBulkToSlave env file (Wrote k1) (Wrote k2) c w = Inr (?out, update_slave ?c w, Some ?c)"
        using p(1) True b by (simp add: sendBulkToSlave_def Let_def)
      with out show ?thesis by blast
    qed
  qed
qed

lemma bulk_run_stop: "c_replstate c \<noteq> SLAVE_STATE_SEND_BULK \<Longrightarrow> bulk_run env file answers c w = Inr ([], w, Some c)"
  by (cases answers) auto

lemma bulk_run_prefix:
  "bulk_inv file c \<Longrightarrow> bulk_run env file answers c w = Inr (out, w', r) \<Longrightarrow> prefix out (bulk_rest file c)"
proof (induction answers arbitrary: c w out)
  case (Cons a answers)
  obtain a1 a2 where a: "a = (a1, a2)" by (cases a)
  have st: "c_replstate c = SLAVE_STATE_SEND_BULK" using Cons.prems(1) by (simp add: bulk_inv_def)
  obtain out1 w1 r1 where s: "sendBulkToSlave env file a1 a2 c w = Inr (out1, w1, r1)"
    using Cons.prems(2) st a by (cases "sendBulkToSlave env file a1 a2 c w") auto
  note step = sendBulkToSlave_split [OF s Cons.prems(1)]
  show ?case
  proof (cases r1)
    case None
    then show ?thesis using Cons.prems(2) st s step a by simp
  next
    case (Some c1)
    then obtain out2 where o: "bulk_run env file answers c1 w1 = Inr (out2, w', r)" "out = out1 @ out2"
      using Cons.prems(2) st s a by (auto simp: bindE_eq_Inr)
    consider "bulk_inv file c1" "out1 @ bulk_rest file c1 = bulk_rest file c"
      | "c_replstate c1 = SLAVE_STATE_ONLINE" "out1 = bulk_rest file c" using step Some by blast
    then show ?thesis
    proof cases
      case 1
      then show ?thesis using Cons.IH [OF 1(1) o(1)] o(2) by (metis same_prefix_prefix)
    next
      case 2
      then show ?thesis using o bulk_run_stop [of c1] by simp
    qed
  qed
qed simp

lemma bulk_rest_pos: "bulk_inv file c \<Longrightarrow> bulk_rest file c \<noteq> []"
  by (simp add: bulk_inv_def bulk_rest_def)

lemma bulk_run_complete:
  assumes "\<And>i. me_handler_ok env i"
  shows "bulk_inv file c \<Longrightarrow> \<forall>(a1, a2) \<in> set answers. \<exists>k1 k2. a1 = Wrote k1 \<and> a2 = Wrote k2 \<and> 0 < k1 \<and> 0 < k2
     \<Longrightarrow> length (bulk_rest file c) \<le> length answers
     \<Longrightarrow> \<exists>w' c'. bulk_run env file answers c w = Inr (bulk_rest file c, w', Some c') \<and> c_replstate c' = SLAVE_STATE_ONLINE"
proof (induction answers arbitrary: c w)
  case Nil
  then show ?case using bulk_rest_pos by simp
next
  case (Cons a answers)
  then obtain k1 k2 where a: "a = (Wrote k1, Wrote k2)" "0 < k1" "0 < k2" by auto
  obtain out w1 c1 where s: "sendBulkToSlave env file (Wrote k1) (Wrote k2) c w = Inr (out, w1, Some c1)" "out \<noteq> []"
    using sendBulkToSlave_progress [OF Cons.prems(1) a(2,3) assms] by blast
  have st: "c_replstate c = SLAVE_STATE_SEND_BULK" using Cons.prems(1) by (simp add: bulk_inv_def)
  consider "bulk_inv file c1" "out @ bulk_rest file c1 = bulk_rest file c"
    | "c_replstate c1 = SLAVE_STATE_ONLINE" "out = bulk_rest file c"
    using sendBulkToSlave_split [OF s(1) Cons.prems(1)] by blast
  then show ?case
  proof cases
    case 1
    have "length (bulk_rest file c) = length out + length (bulk_rest file c1)" using 1(2) by (metis length_append)
    then have "length (bulk_rest file c1) \<le> length answers" using Cons.prems(3) s(2) by (cases out) auto
    moreover have "\<forall>(a1, a2) \<in> set answers. \<exists>k1 k2. a1 = Wrote k1 \<and> a2 = Wrote k2 \<and> 0 < k1 \<and> 0 < k2"
      using Cons.prems(2) by simp
    ultimately obtain w' c' where "bulk_run env file answers c1 w1 = Inr (bulk_rest file c1, w', Some c')"
        "c_replstate c' = SLAVE_STATE_ONLINE"
      using Cons.IH [OF 1(1)] by blast
    then show ?thesis using a s(1) st 1(2) by simp
  next
    case 2
    then show ?thesis using a s(1) st bulk_run_stop [of c1] by simp
  qed
qed

text \<open>
  C7. A snapshot is delivered exactly. Whatever the socket answers, what the handler has written is a prefix of the
  preamble followed by the file, with nothing lost, repeated or reordered; and if every write takes at least a
  byte, the whole of it is delivered and the client is put online.
\<close>

theorem sendBulkToSlave_delivers:
  assumes "c_replstate c = SLAVE_STATE_SEND_BULK" and "c_replpreamble c = Some p" and "p \<noteq> []" and "c_repldboff c = 0"
    and "c_repldbsize c = length file" and "file \<noteq> []"
  shows "(\<forall>answers out w' r. bulk_run env file answers c w = Inr (out, w', r) \<longrightarrow> prefix out (p @ file))
     \<and> ((\<forall>i. me_handler_ok env i) \<longrightarrow> (\<forall>answers.
          (\<forall>(a1, a2) \<in> set answers. \<exists>k1 k2. a1 = Wrote k1 \<and> a2 = Wrote k2 \<and> 0 < k1 \<and> 0 < k2)
          \<and> length p + length file \<le> length answers \<longrightarrow>
          (\<exists>w' c'. bulk_run env file answers c w = Inr (p @ file, w', Some c') \<and> c_replstate c' = SLAVE_STATE_ONLINE)))"
proof -
  have inv: "bulk_inv file c" and rest: "bulk_rest file c = p @ file"
    using assms by (simp_all add: bulk_inv_def bulk_rest_def)
  show ?thesis
  proof (intro conjI allI impI; (elim conjE)?)
    fix answers out w' r
    assume "bulk_run env file answers c w = Inr (out, w', r)"
    from bulk_run_prefix [OF inv this] show "prefix out (p @ file)" unfolding rest .
  next
    fix answers
    assume ok: "\<forall>i. me_handler_ok env i"
      and a: "\<forall>(a1, a2) \<in> set answers. \<exists>k1 k2. a1 = Wrote k1 \<and> a2 = Wrote k2 \<and> 0 < k1 \<and> 0 < k2"
      and "length p + length file \<le> length answers"
    then have "length (bulk_rest file c) \<le> length answers" by (simp add: rest)
    from bulk_run_complete [OF spec [OF ok] inv a this]
    show "\<exists>w' c'. bulk_run env file answers c w = Inr (p @ file, w', Some c') \<and> c_replstate c' = SLAVE_STATE_ONLINE"
      unfolding rest .
  qed
qed

definition calm_menv :: menv where
  "calm_menv = \<lparr>me_write_ok = \<lambda>_. True, me_handler_ok = \<lambda>_. True, me_file = \<lambda>_. Some (11, 3), me_pipe_ok = True,
     me_fork_ok = True, me_fresh = replicate 40 (CHR ''f''), me_crdt_enabled = True, me_multi_process_sync = True,
     me_master_down = False, me_master_reploff = None, me_has_cached_master = False\<rparr>"

definition bulk_client :: client where
  "bulk_client = blank_client\<lparr>c_flags := {CLIENT_SLAVE}, c_replstate := SLAVE_STATE_SEND_BULK,
     c_replpreamble := Some (''$3'' @ crlf), c_repldbsize := 3\<rparr>"

theorem sendBulkToSlave_delivers_witness:
  "\<exists>w' c'. bulk_run calm_menv ''RDB'' (replicate 7 (Wrote 1, Wrote 2)) bulk_client sample_world
       = Inr ((''$3'' @ crlf) @ ''RDB'', w', Some c')
     \<and> c_replstate c' = SLAVE_STATE_ONLINE"
proof -
  have c: "c_replstate bulk_client = SLAVE_STATE_SEND_BULK" "c_replpreamble bulk_client = Some (''$3'' @ crlf)"
    "c_repldboff bulk_client = 0" "c_repldbsize bulk_client = length ''RDB''"
    by (simp_all add: bulk_client_def blank_client_def)
  have ok: "\<forall>i. me_handler_ok calm_menv i" by (simp add: calm_menv_def)
  have a: "(\<forall>(a1, a2) \<in> set (replicate 7 (Wrote 1, Wrote 2)). \<exists>k1 k2. a1 = Wrote k1 \<and> a2 = Wrote k2 \<and> 0 < k1 \<and> 0 < k2)
      \<and> length (''$3'' @ crlf) + length ''RDB'' \<le> length (replicate 7 (Wrote 1, Wrote 2))" by simp
  show ?thesis
    using mp [OF spec [OF mp [OF conjunct2 [OF sendBulkToSlave_delivers [OF c(1,2) _ c(3,4)]] ok]] a] by simp
qed

end
