(* ===== verification/Crdt_Conversation.thy ===== *)
theory Crdt_Conversation
  imports Crdt_Resume Repl_Master_Theorems
begin

section \<open>Two instances\<close>

text \<open>
  The handshake of one instance run against the command handlers of another. A line arrives at the second
  instance, is read by the request parser, dispatched to its handler and the reply is written out:
  \<open>serve\<close>. \<open>talk\<close> alternates the two sides.
\<close>

subsection \<open>The serving side\<close>

definition pingCommand :: "net \<times> client \<Rightarrow> (net \<times> client) res" where
  "pingCommand = (\<lambda>(n, c).
     if 2 < length (c_argv c) then addReplyErrorFormat (n, c) ''wrong number of arguments for 'ping' command''
     else if CLIENT_PUBSUB \<in> c_flags c then
       bindE (addReply (n, c) (RawObj (''*2'' @ crlf))) (\<lambda>st.
       bindE (addReplyBulkCBuffer st ''pong'') (\<lambda>st.
       if length (c_argv c) = 1 then addReplyBulkCBuffer st [] else addReplyBulk st (RawObj (c_argv c ! 1))))
     else if length (c_argv c) = 1 then addReply (n, c) (RawObj (''+PONG'' @ crlf))
     else addReplyBulk (n, c) (RawObj (c_argv c ! 1)))"

definition reply_line :: "reply \<Rightarrow> net \<times> client \<Rightarrow> (net \<times> client) res" where
  "reply_line r st =
     (case r of
        ReplyOk \<Rightarrow> addReply st (RawObj (''+OK'' @ crlf))
      | ReplyError e \<Rightarrow> addReplyErrorLength st e
      | ReplyStatus s \<Rightarrow> addReplyStatusLength st s
      | ReplyBulk b \<Rightarrow> addReplyBulkCBuffer st b
      | _ \<Rightarrow> Inr st)"

text \<open>The rows of the command table that a handshake uses.\<close>

definition peer_command :: "menv \<Rightarrow> mstate \<Rightarrow> client \<Rightarrow> (mstate \<times> client option) res" where
  "peer_command env m c =
     (let name = hd (c_argv c)
      in if strcaseeq name ''ping'' then reply_to pingCommand m c
         else if strcaseeq name ''crdt.auth'' then reply_to (reply_line (crdtAuthCommand (c_argv c) (m_crdt m))) m c
         else if strcaseeq name ''crdt.replconf'' then replconfCommand env m c
         else if strcaseeq name ''crdt.psync'' then crdtPsyncCommand env m c
         else reply_to (\<lambda>st. addReplyErrorFormat st (''unknown command '' @ name)) m c)"

text \<open>The body of the loop of \<open>handleClientsWithPendingWrites\<close> for a client, and what it wrote.\<close>

definition handle_pending_write :: "bool \<Rightarrow> write_res list \<Rightarrow> net \<times> client \<Rightarrow> (net \<times> string \<times> client option) res" where
  "handle_pending_write handler_ok ws = (\<lambda>(n, c).
     let c = c\<lparr>c_flags := c_flags c - {CLIENT_PENDING_WRITE}\<rparr>;
         n = n\<lparr>clients_pending_write := remove1 (c_id c) (clients_pending_write n)\<rparr>
     in bindE (writeToClient (\<lambda>_. True) ws (n, c)) (\<lambda>(n, out, r).
        case r of
          None \<Rightarrow> Inr (n, out, None)
        | Some c \<Rightarrow>
            if clientHasPendingReplies c \<and> \<not> handler_ok
            then let (n, c) = freeClientAsync (n, c) in Inr (n, out, Some c)
            else Inr (n, out, Some c)))"

definition with_net :: "net \<Rightarrow> mstate \<Rightarrow> mstate" where
  "with_net n m = m\<lparr>m_world := (m_world m)\<lparr>w_net := n\<rparr>\<rparr>"

definition serve :: "menv \<Rightarrow> write_res list \<Rightarrow> string \<Rightarrow> mstate \<times> client \<Rightarrow> (mstate \<times> string \<times> client option) res" where
  "serve env ws line = (\<lambda>(m, c).
     bindE (processInlineBuffer (w_net (m_world m), c\<lparr>c_querybuf := c_querybuf c @ line\<rparr>)) (\<lambda>(ok, n, c).
     if \<not> ok then Inr (with_net n m, [], Some c)
     else
       bindE (peer_command env (with_net n m) c) (\<lambda>(m, r).
       case r of
         None \<Rightarrow> Inr (m, [], None)
       | Some c \<Rightarrow>
           bindE (handle_pending_write (me_handler_ok env (c_id c)) ws (w_net (m_world m), resetClient False c)) (\<lambda>(n, out, r).
           Inr (with_net n m, out, r)))))"

text \<open>A connection that has not sent anything but handshake commands, between two of them.\<close>

definition idle_conn :: "net \<Rightarrow> client \<Rightarrow> bool" where
  "idle_conn n c \<longleftrightarrow> c_flags c = {} \<and> 0 < c_fd c \<and> c_buf c = [] \<and> c_reply c = [] \<and> c_reply_bytes c = 0 \<and> c_sentlen c = 0
     \<and> c_querybuf c = [] \<and> c_replstate c = SLAVE_STATE_NONE \<and> length (client_obuf_limits n) = 5"

definition owing :: "string \<Rightarrow> client \<Rightarrow> client" where
  "owing text c = c\<lparr>c_flags := {CLIENT_PENDING_WRITE}, c_buf := text\<rparr>"

lemma addReply_idle:
  assumes "idle_conn n c" and "length text \<le> PROTO_REPLY_CHUNK_BYTES"
  shows "addReply (n, c) (RawObj text) = Inr (n\<lparr>clients_pending_write := c_id c # clients_pending_write n\<rparr>, owing text c)"
  using assms
  by (simp add: addReply_def prepareClientToWrite_def addReplyToBuffer_def idle_conn_def owing_def clientHasPendingReplies_def)

definition settled :: "net \<Rightarrow> client \<Rightarrow> client" where
  "settled n c = c\<lparr>c_argv := [], c_reqtype := 0, c_multibulklen := 0, c_bulklen := - 1, c_lastinteraction := net_unixtime n\<rparr>"

lemma write_owing:
  assumes "idle_conn n c" and "text \<noteq> []" and "length text \<le> k"
  shows "\<exists>n'. handle_pending_write ok [Wrote k] (n, resetClient False (owing text c)) = Inr (n', text, Some (settled n c))
     \<and> net_unixtime n' = net_unixtime n \<and> client_obuf_limits n' = client_obuf_limits n"
proof -
  let ?r = "resetClient False (owing text c)"
  let ?d = "c\<lparr>c_argv := [], c_reqtype := 0, c_multibulklen := 0, c_bulklen := - 1\<rparr>"
  have c: "?r\<lparr>c_flags := c_flags ?r - {CLIENT_PENDING_WRITE}\<rparr> = ?d\<lparr>c_buf := text\<rparr>"
    using assms(1) by (cases c) (simp add: resetClient_def owing_def idle_conn_def)
  have d: "?d\<lparr>c_buf := []\<rparr> = ?d" "\<not> clientHasPendingReplies ?d" "c_sentlen ?d = 0" "c_flags ?d = {}" "?d\<lparr>c_sentlen := 0\<rparr> = ?d"
    using assms(1) by (cases c, simp add: idle_conn_def clientHasPendingReplies_def)+
  have st: "write_step (?d\<lparr>c_buf := text\<rparr>) [Wrote k] = Inr (?d, text, Wrote (length text), [], True)"
    using assms d by (cases c) (simp add: write_step_def idle_conn_def min_def)
  have pend: "clientHasPendingReplies (?d\<lparr>c_buf := text\<rparr>)" using assms(2) by (simp add: clientHasPendingReplies_def)
  have stop: "write_loop (\<lambda>_. True) ?d [] out = Inr (?d, out, Wrote 0)" for out
    using d(2) by (subst write_loop.simps) simp
  have "\<exists>r. write_loop (\<lambda>_. True) (?d\<lparr>c_buf := text\<rparr>) [Wrote k] [] = Inr (?d, text, r) \<and> r \<noteq> WriteErr"
    by (subst write_loop.simps, subst st) (simp add: pend assms(2) stop)
  then obtain r where w: "write_loop (\<lambda>_. True) (?d\<lparr>c_buf := text\<rparr>) [Wrote k] [] = Inr (?d, text, r)" "r \<noteq> WriteErr"
    by blast
  have fin: "clientHasPendingReplies (settled n c) = False" "c_flags (settled n c) = {}"
      "(settled n c)\<lparr>c_sentlen := 0\<rparr> = settled n c" "?d\<lparr>c_lastinteraction := net_unixtime n\<rparr> = settled n c"
    using assms(1) by (cases c, simp add: settled_def idle_conn_def clientHasPendingReplies_def)+
  show ?thesis
    unfolding handle_pending_write_def writeToClient_def Let_def prod.case c w(1)
    using w(2) d(4) assms(2) fin by simp
qed

lemma idle_settled: "idle_conn n c \<Longrightarrow> client_obuf_limits n' = client_obuf_limits n \<Longrightarrow> idle_conn n' (settled k c)"
  by (simp add: idle_conn_def settled_def)

lemma with_net_same: "with_net (w_net (m_world m)) m = m"
  by (cases m; cases "m_world m") (simp add: with_net_def)

lemma serve_command:
  assumes "idle_conn (w_net (m_world m)) c" and "list_all plain_word words" and "words \<noteq> []"
    and "peer_command env m (c\<lparr>c_argv := words\<rparr>) = Inr (m1, Some (owing text c1))"
    and "idle_conn (w_net (m_world m1)) c1" and "text \<noteq> []" and "length text \<le> k"
  shows "\<exists>n'. serve env [Wrote k] (sync_text words) (m, c)
       = Inr (with_net n' m1, text, Some (settled (w_net (m_world m1)) c1))
     \<and> net_unixtime n' = net_unixtime (w_net (m_world m1)) \<and> client_obuf_limits n' = client_obuf_limits (w_net (m_world m1))"
proof -
  have q: "c\<lparr>c_querybuf := c_querybuf c @ sync_text words\<rparr> = c\<lparr>c_querybuf := sync_text words\<rparr>"
      "c\<lparr>c_querybuf := [], c_argv := words\<rparr> = c\<lparr>c_argv := words\<rparr>" "CLIENT_SLAVE \<notin> c_flags c"
    using assms(1) by (cases c, simp add: idle_conn_def)+
  obtain n' where "handle_pending_write (me_handler_ok env (c_id (owing text c1))) [Wrote k]
        (w_net (m_world m1), resetClient False (owing text c1)) = Inr (n', text, Some (settled (w_net (m_world m1)) c1))"
      "net_unixtime n' = net_unixtime (w_net (m_world m1))" "client_obuf_limits n' = client_obuf_limits (w_net (m_world m1))"
    using write_owing [OF assms(5,6,7)] by blast
  then show ?thesis
    using assms(4) processInlineBuffer_command [OF assms(2,3) q(3)]
    by (intro exI [of _ n']) (simp add: serve_def q with_net_same)
qed

lemma update_slave_absent:
  assumes "c_id c \<notin> c_id ` set (slaves (w_server w))" and "c_id c \<notin> c_id ` set (slaves (w_crdt w))"
  shows "update_slave c w = w"
proof -
  have "map (\<lambda>d. if c_id d = c_id c then c else d) xs = xs" if "c_id c \<notin> c_id ` set xs" for xs
    using that by (intro map_idI) (metis imageI)
  with assms show ?thesis by (cases w) (simp add: update_slave_def)
qed

text \<open>What the handshake commands change: only the configuration of the client and the set of known peers.\<close>

definition same_instance :: "mstate \<Rightarrow> mstate \<Rightarrow> bool" where
  "same_instance m m' \<longleftrightarrow> w_server (m_world m') = w_server (m_world m) \<and> w_crdt (m_world m') = w_crdt (m_world m)
     \<and> net_unixtime (w_net (m_world m')) = net_unixtime (w_net (m_world m)) \<and> m_out m' = m_out m
     \<and> (\<exists>ps. m_crdt m' = (m_crdt m)\<lparr>peer_set := ps\<rparr>)"

definition conf :: "client \<Rightarrow> nat \<times> slave_capa set \<times> VectorClock \<times> VectorClock \<times> int" where
  "conf c = (c_id c, c_slave_capa c, c_vectorClock c, c_filterVectorClock c, c_slave_listening_port c)"

definition unattached :: "mstate \<Rightarrow> client \<Rightarrow> bool" where
  "unattached m c \<longleftrightarrow> c_id c \<notin> c_id ` set (slaves (w_server (m_world m))) \<and> c_id c \<notin> c_id ` set (slaves (w_crdt (m_world m)))
     \<and> idle_conn (w_net (m_world m)) c"

text \<open>A handshake command is answered with a line, and leaves an idle connection with a new configuration.\<close>

definition answered :: "menv \<Rightarrow> string list \<Rightarrow> mstate \<Rightarrow> client \<Rightarrow> string \<Rightarrow> nat \<times> slave_capa set \<times> VectorClock \<times> VectorClock \<times> int \<Rightarrow> bool" where
  "answered env words m c text cf \<longleftrightarrow> (\<exists>m' c'. serve env [Wrote PROTO_REPLY_CHUNK_BYTES] (sync_text words) (m, c)
       = Inr (m', text @ crlf, Some c')
     \<and> same_instance m m' \<and> unattached m' c' \<and> conf c' = cf)"

lemma answered_by:
  assumes "unattached m c" and "list_all plain_word words" and "words \<noteq> []"
    and "peer_command env m (c\<lparr>c_argv := words\<rparr>) = Inr (with_net n1 (m\<lparr>m_crdt := (m_crdt m)\<lparr>peer_set := ps\<rparr>\<rparr>), Some (owing (text @ crlf) c1))"
    and "net_unixtime n1 = net_unixtime (w_net (m_world m))" and "client_obuf_limits n1 = client_obuf_limits (w_net (m_world m))"
    and "idle_conn n1 c1" and "conf c1 = cf" and "c_id c1 = c_id c" and "length (text @ crlf) \<le> PROTO_REPLY_CHUNK_BYTES"
  shows "answered env words m c text cf"
proof -
  let ?m1 = "with_net n1 (m\<lparr>m_crdt := (m_crdt m)\<lparr>peer_set := ps\<rparr>\<rparr>)"
  have net: "w_net (m_world ?m1) = n1" by (simp add: with_net_def)
  have idle: "idle_conn (w_net (m_world m)) c" using assms(1) by (simp add: unattached_def)
  obtain n' where s: "serve env [Wrote PROTO_REPLY_CHUNK_BYTES] (sync_text words) (m, c) = Inr (with_net n' ?m1, text @ crlf, Some (settled n1 c1))"
      "net_unixtime n' = net_unixtime n1" "client_obuf_limits n' = client_obuf_limits n1"
    using serve_command [OF idle assms(2,3,4), unfolded net, OF assms(7) _ assms(10)] by blast
  have "same_instance m (with_net n' ?m1)" using s(2) assms(5) by (auto simp: same_instance_def with_net_def)
  moreover have "unattached (with_net n' ?m1) (settled n1 c1)"
    using assms(1,9) idle_settled [OF assms(7) s(3)] by (simp add: unattached_def with_net_def settled_def)
  moreover have "conf (settled n1 c1) = cf" using assms(8) by (simp add: conf_def settled_def)
  ultimately show ?thesis unfolding answered_def using s(1) by blast
qed

lemma plain_words_literal: "plain_word ''PING''" "plain_word ''CRDT.AUTH''" "plain_word ''CRDT.REPLCONF''" "plain_word ''listening-port''"
  "plain_word ''capa''" "plain_word ''eof''" "plain_word ''psync2''" "plain_word ''min-vc''"
  by code_simp+

lemma command_names:
  "strcaseeq ''PING'' ''ping''" "\<not> strcaseeq ''CRDT.AUTH'' ''ping''" "strcaseeq ''CRDT.AUTH'' ''crdt.auth''"
  "\<not> strcaseeq ''CRDT.REPLCONF'' ''ping''" "\<not> strcaseeq ''CRDT.REPLCONF'' ''crdt.auth''"
  "strcaseeq ''CRDT.REPLCONF'' ''crdt.replconf''"
  "\<not> strcaseeq ''CRDT.PSYNC'' ''ping''" "\<not> strcaseeq ''CRDT.PSYNC'' ''crdt.auth''"
  "\<not> strcaseeq ''CRDT.PSYNC'' ''crdt.replconf''" "strcaseeq ''CRDT.PSYNC'' ''crdt.psync''"
  by code_simp+

definition pending_net :: "client \<Rightarrow> net \<Rightarrow> net" where
  "pending_net c n = n\<lparr>clients_pending_write := c_id c # clients_pending_write n\<rparr>"

lemma pending_net_simps [simp]:
  "net_unixtime (pending_net c n) = net_unixtime n" "client_obuf_limits (pending_net c n) = client_obuf_limits n"
  by (simp_all add: pending_net_def)

lemma idle_argv: "idle_conn n c \<Longrightarrow> idle_conn n (c\<lparr>c_argv := a\<rparr>)"
  by (simp add: idle_conn_def)

lemma idle_pending: "idle_conn (pending_net d n) c = idle_conn n c"
  by (simp add: idle_conn_def)

lemma reply_to_idle:
  assumes "idle_conn (w_net (m_world m)) c" and "length text \<le> PROTO_REPLY_CHUNK_BYTES"
  shows "reply_to (\<lambda>st. addReply st (RawObj text)) m c = Inr (with_net (pending_net c (w_net (m_world m))) m, Some (owing text c))"
  using addReply_idle [OF assms] by (simp add: reply_to_def with_net_def pending_net_def)

lemma same_peer_set: "m\<lparr>m_crdt := (m_crdt m)\<lparr>peer_set := peer_set (m_crdt m)\<rparr>\<rparr> = m"
  by simp

lemma ping_answered:
  assumes "unattached m c"
  shows "answered env [''PING''] m c ''+PONG'' (conf c)"
proof -
  let ?c = "c\<lparr>c_argv := [''PING'']\<rparr>"
  have idle: "idle_conn (w_net (m_world m)) ?c" using assms by (simp add: unattached_def idle_argv)
  have "pingCommand (w_net (m_world m), ?c) = addReply (w_net (m_world m), ?c) (RawObj (''+PONG'' @ crlf))"
    using idle by (simp add: pingCommand_def idle_conn_def)
  then have "peer_command env m ?c = Inr (with_net (pending_net ?c (w_net (m_world m))) m, Some (owing (''+PONG'' @ crlf) ?c))"
    using reply_to_idle [OF idle, of "''+PONG'' @ crlf"] by (simp add: peer_command_def command_names(1) reply_to_def Let_def)
  then show ?thesis
    using assms plain_words_literal(1) idle
    by (intro answered_by [where ps = "peer_set (m_crdt m)" and ?n1.0 = "pending_net ?c (w_net (m_world m))" and ?c1.0 = ?c])
      (simp_all add: idle_pending conf_def)
qed

lemma auth_answered:
  assumes "unattached m c" and "plain_word (crdt_namespace (m_crdt m))" and "0 \<le> crdt_gid (m_crdt m)" and "crdt_gid (m_crdt m) < 16"
  shows "answered env [''CRDT.AUTH'', crdt_namespace (m_crdt m), show_int (crdt_gid (m_crdt m))] m c ''+OK'' (conf c)"
proof -
  let ?a = "[''CRDT.AUTH'', crdt_namespace (m_crdt m), show_int (crdt_gid (m_crdt m))]"
  let ?c = "c\<lparr>c_argv := ?a\<rparr>"
  have idle: "idle_conn (w_net (m_world m)) ?c" using assms(1) by (simp add: unattached_def idle_argv)
  have "string2ll (show_int (crdt_gid (m_crdt m))) = Some (crdt_gid (m_crdt m))"
    using assms(3,4) by (intro string2ll_show_int) simp_all
  then have "crdtAuthCommand ?a (m_crdt m) = ReplyOk" by (simp add: crdtAuthCommand_def strcaseeq_refl)
  then have "peer_command env m ?c = Inr (with_net (pending_net ?c (w_net (m_world m))) m, Some (owing (''+OK'' @ crlf) ?c))"
    using reply_to_idle [OF idle, of "''+OK'' @ crlf"]
    by (simp add: peer_command_def command_names(2,3) reply_to_def reply_line_def Let_def)
  then show ?thesis
    using assms plain_words_literal(2) idle show_int_word [OF assms(3)]
    by (intro answered_by [where ps = "peer_set (m_crdt m)" and ?n1.0 = "pending_net ?c (w_net (m_world m))" and ?c1.0 = ?c])
      (simp_all add: idle_pending conf_def)
qed

lemma replconf_answered:
  assumes "unattached m c" and "list_all plain_word opts" and "length opts mod 2 = 0"
    and loop: "replconf_loop env opts m (c\<lparr>c_argv := ''CRDT.REPLCONF'' # opts\<rparr>)
        = Inr (ConfNext (m\<lparr>m_crdt := (m_crdt m)\<lparr>peer_set := ps\<rparr>\<rparr>) c1)"
    and "idle_conn (w_net (m_world m)) c1" and "c_id c1 = c_id c"
  shows "answered env (''CRDT.REPLCONF'' # opts) m c ''+OK'' (conf c1)"
proof -
  let ?c = "c\<lparr>c_argv := ''CRDT.REPLCONF'' # opts\<rparr>" and ?m = "m\<lparr>m_crdt := (m_crdt m)\<lparr>peer_set := ps\<rparr>\<rparr>"
  let ?n = "pending_net c1 (w_net (m_world m))"
  have r: "reply_to (\<lambda>st. addReply st (RawObj (''+OK'' @ crlf))) ?m c1 = Inr (with_net ?n ?m, Some (owing (''+OK'' @ crlf) c1))"
    using reply_to_idle [of ?m c1 "''+OK'' @ crlf"] assms(5) by simp
  have u: "update_slave (owing (''+OK'' @ crlf) c1) (m_world (with_net ?n ?m)) = m_world (with_net ?n ?m)"
    using assms(1,6) by (intro update_slave_absent) (simp_all add: unattached_def with_net_def owing_def)
  have "store (with_net ?n ?m, Some (owing (''+OK'' @ crlf) c1)) = (with_net ?n ?m, Some (owing (''+OK'' @ crlf) c1))"
    unfolding store_def prod.case option.case u by simp
  moreover have "length (c_argv ?c) mod 2 \<noteq> 0" using assms(3) by (simp add: mod_Suc)
  ultimately have "replconfCommand env m ?c = Inr (with_net ?n ?m, Some (owing (''+OK'' @ crlf) c1))"
    unfolding replconfCommand_def using loop r by simp
  then have "peer_command env m ?c = Inr (with_net ?n ?m, Some (owing (''+OK'' @ crlf) c1))"
    by (simp add: peer_command_def command_names(4-6) Let_def)
  then show ?thesis
    using assms(1,2,5,6) plain_words_literal(3)
    by (intro answered_by [where ps = ps and ?n1.0 = ?n and ?c1.0 = c1]) (simp_all add: idle_pending)
qed

lemma option_names:
  "strcaseeq ''listening-port'' ''listening-port''" "\<not> strcaseeq ''capa'' ''listening-port''" "\<not> strcaseeq ''capa'' ''ip-address''"
  "strcaseeq ''capa'' ''capa''" "strcaseeq ''eof'' ''eof''" "\<not> strcaseeq ''psync2'' ''eof''" "strcaseeq ''psync2'' ''psync2''"
  "\<not> strcaseeq ''min-vc'' ''listening-port''" "\<not> strcaseeq ''min-vc'' ''ip-address''" "\<not> strcaseeq ''min-vc'' ''capa''"
  "\<not> strcaseeq ''min-vc'' ''ack''" "\<not> strcaseeq ''min-vc'' ''getack''" "strcaseeq ''min-vc'' ''min-vc''"
  by code_simp+

lemma port_answered:
  assumes "unattached m c" and "0 \<le> port" and "port < 65536"
  shows "answered env [''CRDT.REPLCONF'', ''listening-port'', show_int port] m c ''+OK'' (conf (c\<lparr>c_slave_listening_port := port\<rparr>))"
proof -
  let ?c = "c\<lparr>c_argv := [''CRDT.REPLCONF'', ''listening-port'', show_int port]\<rparr>"
  have v: "string2ll (show_int port) = Some port" using assms(2,3) by (intro string2ll_show_int) simp_all
  have p: "to_int32 port = port" using assms(2,3) by (intro to_int32_id) simp_all
  have "replconf_loop env [''listening-port'', show_int port] m ?c
      = Inr (ConfNext (m\<lparr>m_crdt := (m_crdt m)\<lparr>peer_set := peer_set (m_crdt m)\<rparr>\<rparr>) (?c\<lparr>c_slave_listening_port := port\<rparr>))"
    by (simp add: replconf_option_def option_names conf_port_def getLongLongFromObjectOrReply_def v p)
  from replconf_answered [OF assms(1) _ _ this] show ?thesis
    using assms(1) plain_words_literal(4) show_int_word [OF assms(2)]
    by (simp add: unattached_def idle_conn_def conf_def)
qed

lemma capa_answered:
  assumes "unattached m c"
  shows "answered env [''CRDT.REPLCONF'', ''capa'', ''eof'', ''capa'', ''psync2''] m c ''+OK''
     (conf (c\<lparr>c_slave_capa := {SLAVE_CAPA_EOF, SLAVE_CAPA_PSYNC2} \<union> c_slave_capa c\<rparr>))"
proof -
  let ?c = "c\<lparr>c_argv := [''CRDT.REPLCONF'', ''capa'', ''eof'', ''capa'', ''psync2'']\<rparr>"
  have "replconf_loop env [''capa'', ''eof'', ''capa'', ''psync2''] m ?c
      = Inr (ConfNext (m\<lparr>m_crdt := (m_crdt m)\<lparr>peer_set := peer_set (m_crdt m)\<rparr>\<rparr>)
          (?c\<lparr>c_slave_capa := {SLAVE_CAPA_EOF, SLAVE_CAPA_PSYNC2} \<union> c_slave_capa c\<rparr>))"
    by (simp add: replconf_option_def option_names insert_commute)
  from replconf_answered [OF assms(1) _ _ this] show ?thesis
    using assms(1) plain_words_literal(5-7)
    by (simp add: unattached_def idle_conn_def conf_def)
qed

lemma addPeerSet_units: "\<exists>ps. foldE (\<lambda>c s. addPeerSet (get_gid c) s) cs s = Inr (s\<lparr>peer_set := ps\<rparr>)"
proof (induction cs arbitrary: s)
  case Nil
  show ?case by (simp add: exI [of _ "peer_set s"])
next
  case (Cons c cs)
  have "\<exists>ps. addPeerSet (get_gid c) s = Inr (s\<lparr>peer_set := ps\<rparr>)"
    using uint_word4_bounds [of "vcu_gid c"] exI [of _ "peer_set s"]
    by (auto simp: addPeerSet_def gid_bit_def get_gid_def)
  then obtain ps where "addPeerSet (get_gid c) s = Inr (s\<lparr>peer_set := ps\<rparr>)" by blast
  moreover obtain ps' where "foldE (\<lambda>c s. addPeerSet (get_gid c) s) cs (s\<lparr>peer_set := ps\<rparr>) = Inr (s\<lparr>peer_set := ps'\<rparr>)"
    using Cons.IH [of "s\<lparr>peer_set := ps\<rparr>"] by auto
  ultimately show ?case by auto
qed

lemma vectorClockToSds_units: "vectorClockToSds vc = units_text vc"
  by (cases vc) (simp_all add: vectorClockToSds_def isNullVectorClock_def get_len_def)

lemma clock_text_word:
  assumes "vc \<noteq> []"
  shows "plain_word (vectorClockToSds vc)"
proof -
  have d: "word_char c" if "digit_in 0 c" for c
    using that by (auto simp: digit_in_def word_char_def isspace_def)
  have s: "word_char (CHR '':'')" "word_char (CHR '';'')" by code_simp+
  have "word_char c" if "c \<in> set (unit_text u)" for c u
    using that d s show_int_digits [of "get_gid u" c] show_int_digits [of "get_logic_clock u" c]
      uint_ge_0 [of "vcu_gid u"] uint_ge_0 [of "vcu_clock u"]
    by (auto simp: unit_text_def get_gid_def get_logic_clock_def)
  then have "word_char c" if "c \<in> set (units_text vc)" for c
    using that set_sdsjoinsds [of "map unit_text vc" "'';''"] s unfolding units_text_join by auto
  moreover have "units_text vc \<noteq> []"
    using assms by (cases vc rule: units_text.cases) (simp_all add: unit_text_ne)
  ultimately show ?thesis by (simp add: plain_word_def vectorClockToSds_units list_all_iff)
qed

lemma min_vc_answered:
  assumes "unattached m c" and "vc_wf vc" and "vc \<noteq> []"
    and f: "addVectorClockUnit (c_filterVectorClock c) (crdt_gid (m_crdt m)) (fst (get_vcu_from_vc vc (crdt_gid (m_crdt m)))) = Inr f"
  shows "answered env [''CRDT.REPLCONF'', ''min-vc'', vectorClockToSds vc] m c ''+OK''
       (conf (c\<lparr>c_vectorClock := vc, c_filterVectorClock := f\<rparr>))"
proof -
  let ?c = "c\<lparr>c_argv := [''CRDT.REPLCONF'', ''min-vc'', vectorClockToSds vc]\<rparr>"
  obtain ps where ps: "foldE (\<lambda>c s. addPeerSet (get_gid c) s) vc (m_crdt m) = Inr ((m_crdt m)\<lparr>peer_set := ps\<rparr>)"
    using addPeerSet_units by blast
  have "replconf_loop env [''min-vc'', vectorClockToSds vc] m ?c
      = Inr (ConfNext (m\<lparr>m_crdt := (m_crdt m)\<lparr>peer_set := ps\<rparr>\<rparr>) (?c\<lparr>c_vectorClock := vc, c_filterVectorClock := f\<rparr>))"
    using ps f sdsToVectorClock_printed [OF assms(2)]
    by (simp add: replconf_option_def option_names conf_min_vc_def refreshVectorClock_def vectorClockToSds_units)
  from replconf_answered [OF assms(1) _ _ this] show ?thesis
    using assms(1) plain_words_literal(8) clock_text_word [OF assms(3)]
    by (simp add: unattached_def idle_conn_def conf_def)
qed

lemma idle_ready: "idle_conn n c \<Longrightarrow> ready (n, c)" "idle_conn n c \<Longrightarrow> queued c = []"
  by (auto simp: idle_conn_def ready_def writable_def getClientType_def obuf_wf_def list_bytes_def queued_def)

text \<open>The request for the stream: the answer is written directly and the connection becomes that of a peer.\<close>

lemma psync_served:
  assumes "unattached m c" and "SLAVE_CAPA_PSYNC2 \<in> c_slave_capa c" and "SLAVE_CAPA_BACKSTREAM \<notin> c_slave_capa c"
    and "\<not> me_master_down env" and "me_write_ok env (c_id c)"
    and "fst (get_vcu_from_vc (c_vectorClock c) (crdt_gid (m_crdt m))) \<le> fst (get_vcu_from_vc (vectorClock (m_crdt m)) (crdt_gid (m_crdt m)))"
    and "backlog_holds (w_crdt (m_world m)) bs" and "length bs < out_cap"
    and "plain_word rid" and "replid (w_crdt (m_world m)) = rid" and "0 \<le> off" and "off < LLONG_MAX"
    and "repl_backlog_off (w_crdt (m_world m)) \<le> off + 1" and "off \<le> master_repl_offset (w_crdt (m_world m))"
  shows "\<exists>m' c'. serve env ws (sync_text [''CRDT.PSYNC'', rid, show_int (off + 1)]) (m, c) = Inr (m', [], None)
     \<and> m_out m' = m_out m @ [(c_id c', ''+CONTINUE '' @ rid @ crlf)]
     \<and> slaves (w_crdt (m_world m')) = slaves (w_crdt (m_world m)) @ [c']
     \<and> queued c' = drop (nat (off + 1 - repl_backlog_off (w_crdt (m_world m)))) bs"
proof -
  let ?w = "[''CRDT.PSYNC'', rid, show_int (off + 1)]"
  let ?c = "c\<lparr>c_argv := ?w\<rparr>" and ?n = "w_net (m_world m)" and ?srv = "w_crdt (m_world m)"
  have idle: "idle_conn ?n c" "idle_conn ?n ?c" using assms(1) by (simp_all add: unattached_def idle_argv)
  have fl: "c_flags ?c = {}" "\<not> clientHasPendingReplies ?c" "CLIENT_SLAVE \<notin> c_flags c"
    and q: "c\<lparr>c_querybuf := c_querybuf c @ sync_text ?w\<rparr> = c\<lparr>c_querybuf := sync_text ?w\<rparr>" "c\<lparr>c_querybuf := [], c_argv := ?w\<rparr> = ?c"
    using idle(1) by (cases c, simp add: idle_conn_def clientHasPendingReplies_def)+
  have v: "string2ll (show_int (off + 1)) = Some (off + 1)" using assms(11,12) by (intro string2ll_show_int) simp_all
  have id: "psync_id_ok ?srv rid (off + 1)" using assms(10) by (simp add: psync_id_ok_def strcaseeq_refl)
  have "length (queued ?c) + length bs < out_cap" using assms(8) idle_ready(2) [OF idle(2)] by simp
  from psync_accepted [of ?srv True ?srv "w_server (m_world m)", OF _ assms(7) idle_ready(1) [OF idle(2)] _ _ _ this]
  obtain server' crdt' n' c' where p: "masterTryPartialResynchronization True (w_server (m_world m), ?srv) (?n, ?c) True
        = Inr (Some (''+CONTINUE '' @ rid @ crlf, server', crdt'), n', c')"
      "queued c' = drop (nat (off + 1 - repl_backlog_off ?srv)) bs" "slaves crdt' = slaves ?srv @ [c']"
    using v id assms(2,3,10,13,14) idle_ready(2) [OF idle(2)] by auto
  have "crdtPsyncCommand env m ?c = try_partial env True m ?c"
    using fl assms(4,6) by (simp add: crdtPsyncCommand_def Let_def)
  also have "\<dots> = Inr (m\<lparr>m_world := \<lparr>w_net = n', w_server = server', w_crdt = crdt'\<rparr>,
        m_out := m_out m @ [(c_id c', ''+CONTINUE '' @ rid @ crlf)]\<rparr>, None)" (is "_ = Inr (?m', None)")
    using p(1) assms(5) by (simp add: try_partial_def Let_def)
  finally have "peer_command env m ?c = Inr (?m', None)"
    by (simp add: peer_command_def command_names(7-10) Let_def)
  moreover have "plain_word ''CRDT.PSYNC''" by code_simp
  then have "list_all plain_word ?w" using assms(9,11) by (simp add: show_int_word)
  ultimately have "serve env ws (sync_text ?w) (m, c) = Inr (?m', [], None)"
    using processInlineBuffer_command [of ?w c, OF _ _ fl(3)] by (simp add: serve_def q with_net_same)
  then show ?thesis using p(2,3) by (intro exI [of _ ?m'] exI [of _ c']) simp
qed

subsection \<open>The two sides\<close>

text \<open>
  One turn: the first instance handles what has arrived and sends at most a line; the second instance serves
  it, and what it writes, through the buffers of the connection or directly, arrives in the next turn.
\<close>

fun talk :: "sync_env \<Rightarrow> crdt_server \<Rightarrow> menv \<Rightarrow> nat \<Rightarrow> string \<Rightarrow> hs \<times> mstate \<times> client option \<Rightarrow> (hs \<times> mstate \<times> client option) res" where
  "talk ea s eb 0 input st = Inr st"
| "talk ea s eb (Suc n) input (h, m, r) =
     bindE (hs_event ea s input h) (\<lambda>h'.
     case (r, drop (length (hs_sent h)) (hs_sent h')) of
       (Some c, [line]) \<Rightarrow>
         bindE (serve eb [Wrote PROTO_REPLY_CHUNK_BYTES] line (m, c)) (\<lambda>(m', out, r').
         talk ea s eb n (out @ concat (map snd (drop (length (m_out m)) (m_out m')))) (h', m', r'))
     | _ \<Rightarrow> Inr (h', m, r))"

lemma hs_sent_waiting [simp]: "hs_sent (waiting s p w sent st) = sent"
  by (simp add: waiting_def)

lemma same_instance_trans: "same_instance a b \<Longrightarrow> same_instance b c \<Longrightarrow> same_instance a c"
  by (auto simp: same_instance_def)

lemma talk_step:
  assumes "hs_event ea s input (waiting s p w sent a) = Inr (waiting s p w (sent @ [sync_text words]) b)"
    and "answered eb words m c text cf"
  shows "\<exists>m' c'. talk ea s eb (Suc n) input (waiting s p w sent a, m, Some c)
       = talk ea s eb n (text @ crlf) (waiting s p w (sent @ [sync_text words]) b, m', Some c')
     \<and> same_instance m m' \<and> unattached m' c' \<and> conf c' = cf"
proof -
  obtain m' c' where s: "serve eb [Wrote PROTO_REPLY_CHUNK_BYTES] (sync_text words) (m, c) = Inr (m', text @ crlf, Some c')"
      and r: "same_instance m m'" "unattached m' c'" "conf c' = cf"
    using assms(2) unfolding answered_def by blast
  have "m_out m' = m_out m" using r(1) by (simp add: same_instance_def)
  then have "talk ea s eb (Suc n) input (waiting s p w sent a, m, Some c)
      = talk ea s eb n (text @ crlf) (waiting s p w (sent @ [sync_text words]) b, m', Some c')"
    by (simp add: assms(1) s)
  then show ?thesis using r by blast
qed

text \<open>The conversation has come to the state \<open>st\<close>, with \<open>n\<close> turns left and the line \<open>text\<close> on its way back.\<close>

definition talking where
  "talking ea s eb p w m result n text sent st cf \<longleftrightarrow> (\<exists>m' c'.
     result = talk ea s eb n (text @ crlf) (waiting s p w sent st, m', Some c')
     \<and> same_instance m m' \<and> unattached m' c' \<and> conf c' = cf)"

lemma talking_next:
  assumes "talking ea s eb p w m result (Suc n) text sent st cf" and "smooth ea" and "plus_line text" and "replied st"
    and "\<And>m' c'. same_instance m m' \<Longrightarrow> unattached m' c' \<Longrightarrow> conf c' = cf
       \<Longrightarrow> answered eb (hs_command ea s p (hs_next ea p st)) m' c' text' cf'"
  shows "talking ea s eb p w m result n text' (sent @ [sync_text (hs_command ea s p (hs_next ea p st))]) (hs_next ea p st) cf'"
proof -
  obtain m' c' where r: "result = talk ea s eb (Suc n) (text @ crlf) (waiting s p w sent st, m', Some c')"
      and i: "same_instance m m'" "unattached m' c'" "conf c' = cf"
    using assms(1) unfolding talking_def by blast
  from talk_step [OF reply_event [OF assms(2,3,4)] assms(5) [OF i], of n] obtain m'' c'' where
      "result = talk ea s eb n (text' @ crlf) (waiting s p w (sent @ [sync_text (hs_command ea s p (hs_next ea p st))])
          (hs_next ea p st), m'', Some c'')" "same_instance m' m''" "unattached m'' c''" "conf c'' = cf'"
    unfolding r by blast
  then show ?thesis unfolding talking_def using same_instance_trans [OF i(1)] by blast
qed

lemma plus_lines: "plus_line ''+PONG''" "plus_line ''+OK''"
  by (simp_all add: plus_line_def plain_line_def)

lemma same_instance_clock:
  "same_instance m m' \<Longrightarrow> crdt_gid (m_crdt m') = crdt_gid (m_crdt m) \<and> crdt_namespace (m_crdt m') = crdt_namespace (m_crdt m)
     \<and> vectorClock (m_crdt m') = vectorClock (m_crdt m) \<and> w_crdt (m_world m') = w_crdt (m_world m) \<and> m_out m' = m_out m"
  by (auto simp: same_instance_def)

text \<open>The whole way up to the request for the stream, for a peer without password and without a clock to take back.\<close>

definition agreed :: "sync_env \<Rightarrow> crdt_server \<Rightarrow> CRDT_Master_Instance \<Rightarrow> mstate \<Rightarrow> client \<Rightarrow> bool" where
  "agreed ea s p m c \<longleftrightarrow>
     smooth ea \<and> pm_proxy_type p = NONE_PROXY \<and> masterauth p = None \<and> backstream_vc p = []
     \<and> se_announce_ip ea = None \<and> 0 \<le> se_announce_port ea \<and> se_announce_port ea < 65536
     \<and> vc_wf (vectorClock s) \<and> vectorClock s \<noteq> [] \<and> plain_word (crdt_namespace s)
     \<and> crdt_namespace (m_crdt m) = crdt_namespace s \<and> crdt_gid (m_crdt m) = pm_gid p \<and> check_gid (pm_gid p)
     \<and> unattached m c \<and> c_slave_capa c = {} \<and> c_filterVectorClock c = []"

lemma agreed_next:
  assumes "agreed ea s p m c"
  shows "hs_next ea p REPL_STATE_RECEIVE_PONG = REPL_STATE_RECEIVE_CRDT_AUTH"
    "hs_next ea p REPL_STATE_RECEIVE_CRDT_AUTH = REPL_STATE_RECEIVE_PORT" "hs_next ea p REPL_STATE_RECEIVE_PORT = REPL_STATE_RECEIVE_CAPA"
    "hs_next ea p REPL_STATE_RECEIVE_CAPA = REPL_STATE_RECEIVE_VC" "hs_next ea p REPL_STATE_RECEIVE_VC = REPL_STATE_RECEIVE_PSYNC"
  using assms by (simp_all add: hs_next_def agreed_def)

lemma replied_states:
  "replied REPL_STATE_RECEIVE_PONG" "replied REPL_STATE_RECEIVE_CRDT_AUTH" "replied REPL_STATE_RECEIVE_PORT"
  "replied REPL_STATE_RECEIVE_CAPA" "replied REPL_STATE_RECEIVE_VC"
  by (simp_all add: replied_def)

lemma agreed_capa:
  assumes "agreed ea s p m c"
  shows "\<exists>sent. talking ea s eb p w m (talk ea s eb (Suc (Suc (Suc (Suc n)))) [] (waiting s p w [] REPL_STATE_CONNECTING, m, Some c))
       n ''+OK'' sent REPL_STATE_RECEIVE_CAPA (c_id c, {SLAVE_CAPA_EOF, SLAVE_CAPA_PSYNC2}, c_vectorClock c, [], se_announce_port ea)"
proof -
  note a = assms [unfolded agreed_def] and st = agreed_next [OF assms]
  let ?T = "talking ea s eb p w m (talk ea s eb (Suc (Suc (Suc (Suc n)))) [] (waiting s p w [] REPL_STATE_CONNECTING, m, Some c))"
  have sm: "smooth ea" using a by blast
  have c: "conf c = (c_id c, {}, c_vectorClock c, [], c_slave_listening_port c)" using a by (simp add: conf_def)
  have ping: "hs_command ea s p REPL_STATE_RECEIVE_PONG = [''PING'']" by (simp add: hs_command_def)
  have "answered eb [''PING''] m c ''+PONG'' (conf c)" using ping_answered a by blast
  from talk_step [OF connecting_event [of ea p s w "[]", unfolded ping] this] a
  obtain s1 where t1: "?T (Suc (Suc (Suc n))) ''+PONG'' s1 REPL_STATE_RECEIVE_PONG (conf c)"
    unfolding talking_def by blast
  have "answered eb (hs_command ea s p REPL_STATE_RECEIVE_CRDT_AUTH) m' c' ''+OK'' (conf c')"
    if "same_instance m m'" "unattached m' c'" for m' c'
    using auth_answered [OF that(2)] same_instance_clock [OF that(1)] a by (simp add: hs_command_def check_gid_def)
  then obtain s2 where t2: "?T (Suc (Suc n)) ''+OK'' s2 REPL_STATE_RECEIVE_CRDT_AUTH (conf c)"
    using talking_next [OF t1 sm plus_lines(1) replied_states(1), of "''+OK''" "conf c"] unfolding st by metis
  have "answered eb (hs_command ea s p REPL_STATE_RECEIVE_PORT) m' c' ''+OK'' (c_id c, {}, c_vectorClock c, [], se_announce_port ea)"
    if "unattached m' c'" "conf c' = conf c" for m' c'
    using port_answered [OF that(1), of "se_announce_port ea"] that(2) a c by (simp add: hs_command_def conf_def)
  then obtain s3 where t3: "?T (Suc n) ''+OK'' s3 REPL_STATE_RECEIVE_PORT (c_id c, {}, c_vectorClock c, [], se_announce_port ea)"
    using talking_next [OF t2 sm plus_lines(2) replied_states(2)] unfolding st by metis
  have "answered eb (hs_command ea s p REPL_STATE_RECEIVE_CAPA) m' c' ''+OK''
      (c_id c, {SLAVE_CAPA_EOF, SLAVE_CAPA_PSYNC2}, c_vectorClock c, [], se_announce_port ea)"
    if "unattached m' c'" "conf c' = (c_id c, {}, c_vectorClock c, [], se_announce_port ea)" for m' c'
    using capa_answered [OF that(1)] that(2) by (simp add: hs_command_def conf_def)
  then show ?thesis using talking_next [OF t3 sm plus_lines(2) replied_states(3)] unfolding st by metis
qed

lemma agreed_clock:
  assumes "agreed ea s p m c"
  shows "\<exists>f sent. talking ea s eb p w m (talk ea s eb (Suc (Suc (Suc (Suc (Suc n))))) [] (waiting s p w [] REPL_STATE_CONNECTING, m, Some c))
       n ''+OK'' sent REPL_STATE_RECEIVE_VC (c_id c, {SLAVE_CAPA_EOF, SLAVE_CAPA_PSYNC2}, vectorClock s, f, se_announce_port ea)"
proof -
  note a = assms [unfolded agreed_def]
  have sm: "smooth ea" using a by blast
  obtain sent where t: "talking ea s eb p w m (talk ea s eb (Suc (Suc (Suc (Suc (Suc n))))) []
        (waiting s p w [] REPL_STATE_CONNECTING, m, Some c)) (Suc n) ''+OK'' sent REPL_STATE_RECEIVE_CAPA
      (c_id c, {SLAVE_CAPA_EOF, SLAVE_CAPA_PSYNC2}, c_vectorClock c, [], se_announce_port ea)"
    using agreed_capa [OF assms] by blast
  have "vc_wf []" "check_gid (pm_gid p)" using a by (simp_all add: vc_wf_def)
  then obtain f where f: "addVectorClockUnit [] (pm_gid p) (fst (get_vcu_from_vc (vectorClock s) (pm_gid p))) = Inr f"
    using addVectorClockUnit_ok by blast
  have "answered eb (hs_command ea s p REPL_STATE_RECEIVE_VC) m' c' ''+OK''
      (c_id c, {SLAVE_CAPA_EOF, SLAVE_CAPA_PSYNC2}, vectorClock s, f, se_announce_port ea)"
    if "same_instance m m'" "unattached m' c'"
      "conf c' = (c_id c, {SLAVE_CAPA_EOF, SLAVE_CAPA_PSYNC2}, c_vectorClock c, [], se_announce_port ea)" for m' c'
    using min_vc_answered [OF that(2), of "vectorClock s" f] same_instance_clock [OF that(1)] that(3) a f
    by (simp add: hs_command_def conf_def)
  from talking_next [OF t sm plus_lines(2) replied_states(4), unfolded agreed_next [OF assms], OF this] show ?thesis by blast
qed

text \<open>
  C2. Two instances that know the same namespace and id, one of them with a kept link into the stream of the
  other, whose backlog still holds the position: after the seven turns of the handshake, run against the request
  parser and the handlers of the other side, the first one is connected again on its kept link at the offset it
  had; the other one has added the connection to its peers, and has queued for it exactly the bytes of the
  stream that are missing.
\<close>

theorem two_instances_resume:
  assumes "agreed ea s p m c" and "cached_master p = Some k" and "plain_word (mc_replid k)"
    and "length (mc_replid k) = CONFIG_RUN_ID_SIZE" and "0 \<le> mc_reploff k" and "mc_reploff k < LLONG_MAX"
    and "repl_backlog (w_crdt w) \<noteq> None" and "\<not> me_master_down eb" and "me_write_ok eb (c_id c)"
    and "fst (get_vcu_from_vc (vectorClock s) (pm_gid p)) \<le> fst (get_vcu_from_vc (vectorClock (m_crdt m)) (pm_gid p))"
    and "backlog_holds (w_crdt (m_world m)) bs" and "length bs < out_cap" and "replid (w_crdt (m_world m)) = mc_replid k"
    and "repl_backlog_off (w_crdt (m_world m)) \<le> mc_reploff k + 1" and "mc_reploff k \<le> master_repl_offset (w_crdt (m_world m))"
  shows "\<exists>h m' c' l. talk ea s eb 7 [] (just_connected fd s p w, m, Some c) = Inr (h, m', None)
     \<and> repl_state (hs_peer h) = REPL_STATE_CONNECTED \<and> master (hs_peer h) = Some l
     \<and> mc_replid l = mc_replid k \<and> mc_reploff l = mc_reploff k \<and> mc_fd l = fd
     \<and> slaves (w_crdt (m_world m')) = slaves (w_crdt (m_world m)) @ [c']
     \<and> queued c' = drop (nat (mc_reploff k + 1 - repl_backlog_off (w_crdt (m_world m)))) bs"
proof -
  let ?p = "p\<lparr>repl_transfer_s := fd\<rparr>" and ?rq = "[''CRDT.PSYNC'', mc_replid k, show_int (mc_reploff k + 1)]"
  have ag: "agreed ea s ?p m c" using assms(1) by (simp add: agreed_def)
  then have sm: "smooth ea" and gid: "crdt_gid (m_crdt m) = pm_gid p" by (simp_all add: agreed_def)
  have rq: "hs_command ea s ?p REPL_STATE_RECEIVE_PSYNC = ?rq" using assms(2) by (simp add: hs_command_def psync_request_def)
  obtain f sent m1 c1 where t: "talk ea s eb 7 [] (just_connected fd s p w, m, Some c)
        = talk ea s eb (Suc (Suc 0)) (''+OK'' @ crlf) (waiting s ?p w sent REPL_STATE_RECEIVE_VC, m1, Some c1)"
      "same_instance m m1" "unattached m1 c1"
      "conf c1 = (c_id c, {SLAVE_CAPA_EOF, SLAVE_CAPA_PSYNC2}, vectorClock s, f, se_announce_port ea)"
    using agreed_clock [OF ag, of eb w "Suc (Suc 0)"] unfolding talking_def just_connected_waiting by (auto simp: eval_nat_numeral)
  let ?h = "waiting s ?p w (sent @ [sync_text ?rq]) REPL_STATE_RECEIVE_PSYNC"
  have ev: "hs_event ea s (''+OK'' @ crlf) (waiting s ?p w sent REPL_STATE_RECEIVE_VC) = Inr ?h"
    using reply_event [OF sm plus_lines(2) replied_states(5), of s ?p w sent] unfolding agreed_next [OF ag] rq .
  have m1: "w_crdt (m_world m1) = w_crdt (m_world m)" "crdt_gid (m_crdt m1) = pm_gid p" "vectorClock (m_crdt m1) = vectorClock (m_crdt m)"
    using same_instance_clock [OF t(2)] gid by simp_all
  have c1: "c_id c1 = c_id c" "c_slave_capa c1 = {SLAVE_CAPA_EOF, SLAVE_CAPA_PSYNC2}" "c_vectorClock c1 = vectorClock s"
    using t(4) by (simp_all add: conf_def)
  have cap: "SLAVE_CAPA_PSYNC2 \<in> {SLAVE_CAPA_EOF, SLAVE_CAPA_PSYNC2}" "SLAVE_CAPA_BACKSTREAM \<notin> {SLAVE_CAPA_EOF, SLAVE_CAPA_PSYNC2}"
    by simp_all
  obtain m2 c2 where sv: "serve eb [Wrote PROTO_REPLY_CHUNK_BYTES] (sync_text ?rq) (m1, c1) = Inr (m2, [], None)"
      "m_out m2 = m_out m1 @ [(c_id c2, ''+CONTINUE '' @ mc_replid k @ crlf)]"
      "slaves (w_crdt (m_world m2)) = slaves (w_crdt (m_world m)) @ [c2]"
      "queued c2 = drop (nat (mc_reploff k + 1 - repl_backlog_off (w_crdt (m_world m)))) bs"
    using psync_served [OF t(3), unfolded m1 c1, OF cap assms(8-12,3,13,5,6,14,15)] by blast
  obtain h where h: "hs_event ea s (''+CONTINUE '' @ mc_replid k @ crlf) ?h = Inr h" "hs_sent h = sent @ [sync_text ?rq]"
      "repl_state (hs_peer h) = REPL_STATE_CONNECTED"
      "master (hs_peer h) = Some (k\<lparr>mc_fd := fd, mc_closing := False, mc_authenticated := True, mc_lastinteraction := unixtime s\<rparr>)"
    using continue_event [of ea ?p k w s "[]" "sent @ [sync_text ?rq]", OF sm _ run_id_plain [OF assms(3,4)] assms(7), unfolded append_Nil2] assms(2)
    by auto
  have "talk ea s eb 7 [] (just_connected fd s p w, m, Some c) = Inr (h, m2, None)"
    unfolding t(1) talk.simps ev hs_sent_waiting using h(1) by (simp add: sv(1,2) h(2))
  then show ?thesis using h sv by (intro exI [of _ h] exI [of _ m2] exI [of _ c2]) simp
qed

definition far_stream :: repl_server where
  "far_stream = sample_stream\<lparr>repl_backlog_off := 70, master_repl_offset := 73, replid := mc_replid kept_link\<rparr>"

definition near_peer :: CRDT_Master_Instance where
  "near_peer = waiting_peer\<lparr>backstream_vc := []\<rparr>"

definition far_instance :: mstate where
  "far_instance = \<lparr>m_world = sample_world\<lparr>w_crdt := far_stream\<rparr>, m_crdt = sample_server\<lparr>crdt_gid := 2\<rparr>, m_out = [],
     m_gone = [], m_master_out = [], m_save = None\<rparr>"

definition far_client :: client where
  "far_client = blank_client\<lparr>c_id := 8\<rparr>"

theorem two_instances_resume_witness:
  "\<exists>h m' c' l. talk calm_env sample_server calm_menv 7 [] (just_connected 12 sample_server near_peer sample_world, far_instance, Some far_client)
       = Inr (h, m', None)
     \<and> repl_state (hs_peer h) = REPL_STATE_CONNECTED \<and> master (hs_peer h) = Some l
     \<and> mc_replid l = mc_replid kept_link \<and> mc_reploff l = 70 \<and> mc_fd l = 12
     \<and> slaves (w_crdt (m_world m')) = [c'] \<and> queued c' = ''def''"
proof -
  have word: "plain_word (mc_replid kept_link)" "plain_word ''ns''" and holds: "backlog_holds far_stream ''cdef''"
    and vc: "vc_wf (mk_vc [(1, 9), (2, 4), (3, 6)])" "mk_vc [(1, 9), (2, 4), (3, 6)] \<noteq> []"
    by code_simp+
  have k: "mc_reploff kept_link = 70" "length (mc_replid kept_link) = CONFIG_RUN_ID_SIZE" "cached_master near_peer = Some kept_link"
    by (simp_all add: kept_link_def sample_link_def near_peer_def waiting_peer_def)
  have far: "w_crdt (m_world far_instance) = far_stream" "replid far_stream = mc_replid kept_link" "repl_backlog_off far_stream = 70"
      "master_repl_offset far_stream = 73" "slaves far_stream = []"
    by (simp_all add: far_stream_def far_instance_def sample_stream_def)
  have "unattached far_instance far_client"
    by (simp add: unattached_def far_instance_def far_client_def sample_world_def far_stream_def sample_stream_def blank_defs idle_conn_def)
  then have ag: "agreed calm_env sample_server near_peer far_instance far_client"
    using word vc by (simp add: agreed_def calm_env_def smooth_def near_peer_def waiting_peer_def sample_peer_def far_instance_def
        sample_server_def far_client_def blank_client_def check_gid_def)
  have le: "fst (get_vcu_from_vc (vectorClock sample_server) (pm_gid near_peer))
      \<le> fst (get_vcu_from_vc (vectorClock (m_crdt far_instance)) (pm_gid near_peer))" by (simp add: far_instance_def)
  have "repl_backlog (w_crdt sample_world) \<noteq> None" "\<not> me_master_down calm_menv" "me_write_ok calm_menv (c_id far_client)"
      "length ''cdef'' < out_cap"
    by (simp_all add: sample_world_def sample_stream_def calm_menv_def out_cap_def)
  from two_instances_resume [OF ag k(3) word(1) k(2) _ _ this(1,2,3) le, unfolded far k, OF _ _ holds this(4), of 12]
  show ?thesis by (simp add: far(5))
qed

end
