(* ===== verification/Crdt_Cron.thy ===== *)
theory Crdt_Cron
  imports Repl_Master
begin

section \<open>The replication cron of the peers\<close>

text \<open>
  \<^verbatim>\<open>crdtReplicationCron\<close> of \<^verbatim>\<open>src/src/ctrip_crdt_replication.c\<close>, run once a second: it gives up connections that are
  silent, connects to peers, acknowledges the streams received, announces the observed vector clock, drops
  silent replicas, frees an unused backlog and starts the snapshot for the peers that wait for one. Each of its
  parts is a definition; \<open>cron_env\<close> holds the clock, the counters and the outcomes of connecting by gid.
\<close>

record cron_env =
  ce_menv :: menv
  ce_repl_env :: repl_env
  ce_time :: int
  ce_mstime :: int
  ce_ping_due :: bool
  ce_active_ovc :: bool
  ce_connect :: "int \<Rightarrow> int option"

definition peer_do :: "int \<Rightarrow> (CRDT_Master_Instance \<Rightarrow> crdt_server \<Rightarrow> crdt_server res) \<Rightarrow> crdt_server \<Rightarrow> crdt_server res" where
  "peer_do g f s = bindE (getPeerMaster g s) (\<lambda>m. case m of None \<Rightarrow> Inr s | Some p \<Rightarrow> f p s)"

definition cron_handshake :: "cron_env \<Rightarrow> int \<Rightarrow> int \<Rightarrow> CRDT_Master_Instance \<Rightarrow> crdt_server \<Rightarrow> crdt_server res" where
  "cron_handshake env timeout g p s =
     (if masterhost p \<noteq> None \<and> (repl_state p = REPL_STATE_CONNECTING \<or> crdtSlaveIsInHandshakeState p)
         \<and> ce_time env - repl_transfer_lastio p > timeout
      then bindE (proxyConnectFail p) (\<lambda>_. crdtCancelReplicationHandshake g s)
      else Inr s)"

definition cron_transfer :: "cron_env \<Rightarrow> int \<Rightarrow> int \<Rightarrow> CRDT_Master_Instance \<Rightarrow> crdt_server \<Rightarrow> crdt_server res" where
  "cron_transfer env timeout g p s =
     (if masterhost p \<noteq> None \<and> repl_state p = REPL_STATE_TRANSFER \<and> ce_time env - repl_transfer_lastio p > timeout
      then crdtCancelReplicationHandshake g s else Inr s)"

definition cron_silent :: "cron_env \<Rightarrow> int \<Rightarrow> int \<Rightarrow> CRDT_Master_Instance \<Rightarrow> crdt_server \<Rightarrow> crdt_server res" where
  "cron_silent env timeout g p s =
     (if masterhost p \<noteq> None \<and> repl_state p = REPL_STATE_CONNECTED then
        case master p of
          None \<Rightarrow> Inl NullDeref
        | Some c \<Rightarrow>
            if mc_freed c then Inl UseAfterFree
            else if ce_time env - mc_lastinteraction c > timeout then freeMasterClient g s else Inr s
      else Inr s)"

definition cron_connect :: "cron_env \<Rightarrow> int \<Rightarrow> CRDT_Master_Instance \<Rightarrow> crdt_server \<Rightarrow> crdt_server res" where
  "cron_connect env g p s =
     (if repl_state p = REPL_STATE_CONNECT \<and> (lazy_time p = NO_LAZY_TIME \<or> lazy_time p < ce_mstime env)
      then Inr (setPeerMaster g (Some (snd (crdtConnectWithMaster (ce_connect env g) (unixtime s) p))) s)
      else Inr s)"

definition cron_prepare :: "int \<Rightarrow> CRDT_Master_Instance \<Rightarrow> crdt_server \<Rightarrow> crdt_server res" where
  "cron_prepare g p s =
     (if repl_state p = REPL_STATE_NONE then Inr (setPeerMaster g (Some (p\<lparr>repl_state := REPL_STATE_CONNECT\<rparr>)) s) else Inr s)"

definition cron_ack :: "int \<Rightarrow> crdt_server \<Rightarrow> string list list res" where
  "cron_ack g s =
     bindE (getPeerMaster g s) (\<lambda>m.
     case m of
       None \<Rightarrow> Inr []
     | Some p \<Rightarrow>
         if masterhost p \<noteq> None \<and> master p \<noteq> None \<and> repl_state p = REPL_STATE_CONNECTED
         then crdtReplicationSendAck (Some p) s else Inr [])"

text \<open>One pass of the loop over the peers; the acknowledgements are collected by gid.\<close>

definition cron_peer ::
  "cron_env \<Rightarrow> int \<Rightarrow> nat \<Rightarrow> (int \<times> string list list) list \<times> crdt_server
   \<Rightarrow> ((int \<times> string list list) list \<times> crdt_server) res" where
  "cron_peer env timeout i = (\<lambda>(acks, s).
     let g = int i
     in bindE (peer_do g (cron_handshake env timeout g) s) (\<lambda>s.
        bindE (peer_do g (cron_transfer env timeout g) s) (\<lambda>s.
        bindE (peer_do g (cron_silent env timeout g) s) (\<lambda>s.
        bindE (peer_do g (cron_connect env g) s) (\<lambda>s.
        bindE (peer_do g (cron_prepare g) s) (\<lambda>s.
        bindE (cron_ack g s) (\<lambda>a.
        Inr (acks @ [(g, a)], s))))))))"

definition cron_peers :: "cron_env \<Rightarrow> int \<Rightarrow> crdt_server \<Rightarrow> ((int \<times> string list list) list \<times> crdt_server) res" where
  "cron_peers env timeout s =
     (if iAmMaster s then foldE (cron_peer env timeout) [0..<16] ([], s) else Inr ([], s))"

definition sendObservedVectorClock :: "repl_env \<Rightarrow> crdt_server \<Rightarrow> repl_world \<Rightarrow> repl_world res" where
  "sendObservedVectorClock env s w =
     replicationFeedAllSlaves env (slaveseldb (w_server w))
       [RawObj ''CRDT.OVC'', IntObj (crdt_gid s), RawObj (vectorClockToSds (vectorClock s))] w"

definition cron_ovc :: "cron_env \<Rightarrow> crdt_server \<Rightarrow> repl_world \<Rightarrow> repl_world res" where
  "cron_ovc env s w =
     (if ce_ping_due env \<and> slaves (w_crdt w) \<noteq> [] \<and> ce_active_ovc env
         \<and> (\<exists>slave \<in> set (slaves (w_crdt w)). c_replstate slave \<noteq> SLAVE_STATE_WAIT_BGSAVE_START)
      then sendObservedVectorClock (ce_repl_env env) s w else Inr w)"

definition drop_silent :: "client \<Rightarrow> unit \<times> repl_world \<Rightarrow> (unit \<times> repl_world) res" where
  "drop_silent slave = (\<lambda>(u, w).
     if c_replstate slave \<noteq> SLAVE_STATE_ONLINE then Inr (u, w)
     else if CLIENT_PRE_PSYNC \<in> c_flags slave then Inr (u, w)
     else if net_unixtime (w_net w) - c_repl_ack_time slave > repl_timeout (w_crdt w)
     then bindE (freeSlave slave w) (\<lambda>w. Inr (u, w))
     else Inr (u, w))"

definition idle_backlog :: "int \<Rightarrow> repl_server \<Rightarrow> bool" where
  "idle_backlog now srv \<longleftrightarrow> slaves srv = [] \<and> repl_backlog_time_limit srv \<noteq> 0 \<and> repl_backlog srv \<noteq> None
     \<and> now - repl_no_slaves_since srv > repl_backlog_time_limit srv"

definition cron_backlog :: "cron_env \<Rightarrow> crdt_server \<Rightarrow> repl_world \<Rightarrow> repl_world res" where
  "cron_backlog env s w =
     (let now = net_unixtime (w_net w); server = w_server w; crdtServer = w_crdt w; fresh = me_fresh (ce_menv env)
      in if iAmMaster s \<and> idle_backlog now crdtServer \<and> idle_backlog now server then
           let server = changeReplicationId fresh True server server;
               crdtServer = changeReplicationId fresh False server crdtServer
           in bindE (freeReplicationBacklog (clearReplicationId2 server)) (\<lambda>server.
              bindE (freeReplicationBacklog (clearReplicationId2 crdtServer)) (\<lambda>crdtServer.
              Inr (w\<lparr>w_server := server, w_crdt := crdtServer\<rparr>)))
         else Inr w)"

text \<open>The scan for peers that wait for a snapshot: the longest wait, their number and the minimum of their clocks.\<close>

definition scan_waiting :: "client \<Rightarrow> (int \<times> nat \<times> VectorClock) \<times> repl_world \<Rightarrow> ((int \<times> nat \<times> VectorClock) \<times> repl_world) res" where
  "scan_waiting slave = (\<lambda>((max_idle, waiting, min_vc), w).
     if c_replstate slave \<noteq> SLAVE_STATE_WAIT_BGSAVE_START then Inr ((max_idle, waiting, min_vc), w)
     else
       let idle = net_unixtime (w_net w) - c_lastinteraction slave; max_idle = max idle max_idle
       in if isNullVectorClock min_vc
          then bindE (dupVectorClock (c_filterVectorClock slave)) (\<lambda>vc. Inr ((max_idle, Suc waiting, vc), w))
          else bindE (mergeMinVectorClock min_vc (c_filterVectorClock slave)) (\<lambda>(vc, _, f).
               Inr ((max_idle, Suc waiting, vc), update_slave (slave\<lparr>c_filterVectorClock := f\<rparr>) w)))"

definition cron_bgsave :: "cron_env \<Rightarrow> mstate \<Rightarrow> mstate res" where
  "cron_bgsave env m =
     (let w = m_world m; server = w_server w; crdtServer = w_crdt w
      in if rdb_child crdtServer = None \<and> \<not> aof_child crdtServer
            \<and> (me_multi_process_sync (ce_menv env) \<or> rdb_child server = None \<and> \<not> aof_child server) then
           bindE (newVectorClock 0) (\<lambda>vc0.
           bindE (for_slaves True scan_waiting ((0, 0, vc0), w)) (\<lambda>((max_idle, waiting, min_vc), w).
           let m = m\<lparr>m_world := w\<rparr>
           in if waiting > 0 \<and> max_idle > repl_diskless_sync_delay (w_crdt w)
              then bindE (startCrdtBgsaveForReplication2 (ce_menv env) min_vc m) (\<lambda>(_, m). Inr m)
              else Inr m))
         else Inr m)"

definition crdtReplicationCron :: "cron_env \<Rightarrow> mstate \<Rightarrow> ((int \<times> string list list) list \<times> mstate) res" where
  "crdtReplicationCron env m =
     bindE (cron_peers env (repl_timeout (w_crdt (m_world m))) (m_crdt m)) (\<lambda>(acks, s).
     bindE (cron_ovc env s (m_world m)) (\<lambda>w.
     bindE (for_slaves True drop_silent ((), w)) (\<lambda>(_, w).
     bindE (cron_backlog env s w) (\<lambda>w.
     bindE (cron_bgsave env (m\<lparr>m_crdt := s, m_world := w\<rparr>)) (\<lambda>m.
     let w = m_world m
     in Inr (acks, m\<lparr>m_world := w\<lparr>w_crdt := refreshGoodSlavesCount (w_crdt w)\<rparr>\<rparr>))))))"

subsection \<open>Status commands\<close>

definition debugCancelCrdt :: "string list \<Rightarrow> crdt_server \<Rightarrow> (reply list \<times> crdt_server) res" where
  "debugCancelCrdt argv s =
     (if length argv \<noteq> 3 then Inr ([ReplyError ''syntax error''], s)
      else if \<not> strcaseeq (argv ! 2) ''chenzhu'' then Inr ([ReplyError ''syntax error''], s)
      else
        case string2ll (argv ! 1) of
          None \<Rightarrow> Inr ([ReplyError ''value is not an integer or out of range'', ReplyError ''syntax error''], s)
        | Some gid \<Rightarrow>
            bindE (getPeerMaster (to_int32 gid) s) (\<lambda>m.
            case m of
              None \<Rightarrow> Inr ([ReplyError ''syntax error''], s)
            | Some p \<Rightarrow>
                if master p = None then Inl NullDeref
                else bindE (freeMasterClient (to_int32 gid) s) (\<lambda>s. Inr ([ReplyOk], s))))"

end
