(* ===== verification/Crdt_Cron_Theorems.thy ===== *)
theory Crdt_Cron_Theorems
  imports Crdt_Cron Crdt_Peer_Theorems Repl_Master_Theorems
begin

section \<open>What the cron does\<close>

text \<open>
  The loop over the peers looks every peer up again for each of its checks; it is proved to be a function
  applied to each slot of the table. The scan for waiting peers is proved to give the snapshot a clock that
  is below the clock of each of them.
\<close>

subsection \<open>The peers\<close>

definition lapsed :: "cron_env \<Rightarrow> int \<Rightarrow> CRDT_Master_Instance \<Rightarrow> bool" where
  "lapsed env timeout p \<longleftrightarrow> (repl_state p = REPL_STATE_CONNECTING \<or> repl_state p = REPL_STATE_TRANSFER \<or> crdtSlaveIsInHandshakeState p)
     \<and> ce_time env - repl_transfer_lastio p > timeout"

definition silent :: "cron_env \<Rightarrow> int \<Rightarrow> CRDT_Master_Instance \<Rightarrow> bool" where
  "silent env timeout p \<longleftrightarrow> repl_state p = REPL_STATE_CONNECTED
     \<and> (case master p of None \<Rightarrow> False | Some c \<Rightarrow> ce_time env - mc_lastinteraction c > timeout)"

definition given_up :: "CRDT_Master_Instance \<Rightarrow> CRDT_Master_Instance" where
  "given_up p =
     (let q = p\<lparr>repl_transfer_s := - 1\<rparr>
      in (if repl_state p = REPL_STATE_TRANSFER then q\<lparr>master := None\<rparr> else q)\<lparr>repl_state := REPL_STATE_CONNECT\<rparr>)"

definition may_connect :: "cron_env \<Rightarrow> CRDT_Master_Instance \<Rightarrow> bool" where
  "may_connect env p \<longleftrightarrow> repl_state p = REPL_STATE_CONNECT \<and> (lazy_time p = NO_LAZY_TIME \<or> lazy_time p < ce_mstime env)"

text \<open>A peer after a pass: a stale connection is left, a peer without one is connected to, an idle one prepared.\<close>

definition cron_next :: "cron_env \<Rightarrow> int \<Rightarrow> int \<Rightarrow> CRDT_Master_Instance \<Rightarrow> CRDT_Master_Instance" where
  "cron_next env timeout now p =
     (let p = (if lapsed env timeout p then given_up p else if silent env timeout p then dropped now p else p);
          p = (if may_connect env p then snd (crdtConnectWithMaster (ce_connect env (pm_gid p)) now p) else p)
      in if repl_state p = REPL_STATE_NONE then p\<lparr>repl_state := REPL_STATE_CONNECT\<rparr> else p)"

definition peer_acks :: "crdt_server \<Rightarrow> CRDT_Master_Instance option \<Rightarrow> string list list" where
  "peer_acks s m =
     (case m of
        None \<Rightarrow> []
      | Some p \<Rightarrow> if repl_state p \<noteq> REPL_STATE_CONNECTED then []
          else case master p of None \<Rightarrow> [] | Some c \<Rightarrow>
            [[''CRDT.REPLCONF'', ''ACK-VC'', vectorClockToSds (vectorClock s)], [''CRDT.REPLCONF'', ''ACK'', show_int (mc_reploff c)]])"

lemma peer_do_at:
  "length (crdtMasters s) = 16 \<Longrightarrow> 0 \<le> g \<Longrightarrow> g < 16 \<Longrightarrow> peer_do g f (setPeerMaster g (Some p) s) = f p (setPeerMaster g (Some p) s)"
  by (simp add: peer_do_def)

lemma cancel_given_up:
  assumes "length (crdtMasters s) = 16" "0 \<le> g" "g < 16" "peer_ok X g p"
    and "repl_state p = REPL_STATE_CONNECTING \<or> repl_state p = REPL_STATE_TRANSFER \<or> crdtSlaveIsInHandshakeState p"
  shows "crdtCancelReplicationHandshake g (setPeerMaster g (Some p) s) = Inr (setPeerMaster g (Some (given_up p)) s)"
proof -
  have "crdtUndoConnectWithMaster p = p\<lparr>repl_transfer_s := - 1\<rparr>" by (cases p) (simp add: crdtUndoConnectWithMaster_def)
  moreover have n: "p\<lparr>repl_transfer_s := - 1, master := None, repl_state := st\<rparr> = p\<lparr>repl_transfer_s := - 1, repl_state := st\<rparr>"
    if "master p = None" for st using that by (cases p) simp
  moreover have "pred_option (\<lambda>c. \<not> mc_freed c) (master p)" using assms(4) by (auto simp: peer_ok_def link_ok_def pred_option_iff)
  ultimately show ?thesis
    using assms(1-3,5)
    by (auto simp: crdtCancelReplicationHandshake_def crdtReplicationAbortSyncTransfer_def given_up_def Let_def n
        split: option.split)
qed

lemma given_up_ok: "peer_ok X g p \<Longrightarrow> peer_ok X g (given_up p)"
  by (simp add: peer_ok_def given_up_def Let_def)

lemma dropped_ok: "peer_ok X g p \<Longrightarrow> peer_ok X g (dropped now p)"
  by (auto simp: peer_ok_def dropped_def pred_option_iff split: option.split)

lemma connect_peer_ok: "peer_ok X g p \<Longrightarrow> peer_ok X g (snd (crdtConnectWithMaster r now p))"
  by (auto simp: peer_ok_def crdtConnectWithMaster_def split: option.split)

lemma cron_next_ok: "peer_ok X g p \<Longrightarrow> peer_ok X g (cron_next env timeout now p)"
proof -
  assume p: "peer_ok X g p"
  define q where "q = (if lapsed env timeout p then given_up p else if silent env timeout p then dropped now p else p)"
  define r where "r = (if may_connect env q then snd (crdtConnectWithMaster (ce_connect env (pm_gid q)) now q) else q)"
  have "peer_ok X g q" using p by (simp add: q_def given_up_ok dropped_ok)
  then have "peer_ok X g r" by (simp add: r_def connect_peer_ok)
  moreover have "cron_next env timeout now p = (if repl_state r = REPL_STATE_NONE then r\<lparr>repl_state := REPL_STATE_CONNECT\<rparr> else r)"
    by (simp add: cron_next_def q_def r_def Let_def)
  ultimately show ?thesis by (simp add: peer_ok_def)
qed

lemma cron_stale_slot:
  assumes "length (crdtMasters s) = 16" "0 \<le> g" "g < 16" "peer_ok {} g p" "proxyConnectFail p = Inr ()"
  shows "bindE (peer_do g (cron_handshake env timeout g) (setPeerMaster g (Some p) s)) (\<lambda>s.
        bindE (peer_do g (cron_transfer env timeout g) s) (\<lambda>s. peer_do g (cron_silent env timeout g) s))
     = Inr (setPeerMaster g (Some (if lapsed env timeout p then given_up p
          else if silent env timeout p then dropped (unixtime s) p else p)) s)"
proof -
  note at = peer_do_at [OF assms(1-3)]
  have host: "masterhost p \<noteq> None" and l: "pred_option (link_ok g) (master p)"
    and m: "repl_state p = REPL_STATE_CONNECTED \<Longrightarrow> \<exists>c. master p = Some c \<and> \<not> mc_freed c"
    using assms(4) by (auto simp: peer_ok_def link_ok_def pred_option_iff)
  have up: "repl_state (given_up p) = REPL_STATE_CONNECT" by (simp add: given_up_def Let_def)
  have none: "\<not> crdtSlaveIsInHandshakeState q" if "repl_state q \<in> {REPL_STATE_CONNECT, REPL_STATE_TRANSFER, REPL_STATE_CONNECTED}" for q
    using that by (auto simp: crdtSlaveIsInHandshakeState_def)
  note defs = cron_handshake_def cron_transfer_def cron_silent_def at host up none
  show ?thesis
  proof (cases "lapsed env timeout p")
    case True
    then have "crdtCancelReplicationHandshake g (setPeerMaster g (Some p) s) = Inr (setPeerMaster g (Some (given_up p)) s)"
      using cancel_given_up [OF assms(1-4)] by (auto simp: lapsed_def)
    with True show ?thesis by (cases "repl_state p = REPL_STATE_TRANSFER") (auto simp: defs lapsed_def assms(5))
  next
    case False
    then show ?thesis
      using m freeMasterClient_at [OF assms(1-3) l]
      by (cases "repl_state p = REPL_STATE_CONNECTED") (auto simp: defs lapsed_def silent_def)
  qed
qed

lemma cron_slot:
  assumes "length (crdtMasters s) = 16" "0 \<le> g" "g < 16" "peer_ok {} g p" "proxyConnectFail p = Inr ()"
  shows "bindE (peer_do g (cron_handshake env timeout g) (setPeerMaster g (Some p) s)) (\<lambda>s.
        bindE (peer_do g (cron_transfer env timeout g) s) (\<lambda>s.
        bindE (peer_do g (cron_silent env timeout g) s) (\<lambda>s.
        bindE (peer_do g (cron_connect env g) s) (\<lambda>s.
        peer_do g (cron_prepare g) s))))
     = Inr (setPeerMaster g (Some (cron_next env timeout (unixtime s) p)) s)"
proof -
  note at = peer_do_at [OF assms(1-3)]
  have u: "unixtime (setPeerMaster g m s) = unixtime s" for m by (simp add: setPeerMaster_def)
  define q where "q = (if lapsed env timeout p then given_up p else if silent env timeout p then dropped (unixtime s) p else p)"
  define r where "r = (if may_connect env q then snd (crdtConnectWithMaster (ce_connect env g) (unixtime s) q) else q)"
  have "peer_ok {} g q" using assms(4) by (simp add: q_def given_up_ok dropped_ok)
  then have gid: "pm_gid q = g" by (simp add: peer_ok_def)
  have "cron_connect env g q (setPeerMaster g (Some q) s) = Inr (setPeerMaster g (Some r) s)"
    by (auto simp: cron_connect_def r_def may_connect_def u)
  moreover have "cron_prepare g r (setPeerMaster g (Some r) s) = Inr (setPeerMaster g (Some (cron_next env timeout (unixtime s) p)) s)"
    by (simp add: cron_prepare_def cron_next_def Let_def r_def gid flip: q_def)
  ultimately show ?thesis
    using cron_stale_slot [OF assms, of env timeout, folded q_def] by (simp add: at flip: bindE_assoc)
qed

lemma setPeerMaster_table: "setPeerMaster g m s = s\<lparr>crdtMasters := (crdtMasters s)[nat g := m]\<rparr>"
  by (simp add: setPeerMaster_def)

lemma cron_ack_peer:
  assumes "length (crdtMasters s) = 16" "0 \<le> g" "g < 16" "pred_option (peer_ok {} g) (crdtMasters s ! nat g)"
  shows "cron_ack g s = Inr (peer_acks s (crdtMasters s ! nat g))"
  using assms
  by (auto simp: cron_ack_def getPeerMaster_def peer_acks_def crdtReplicationSendAck_def peer_ok_def link_ok_def split: option.split)

lemma cron_peer_at:
  assumes "length (crdtMasters s) = 16" "i < 16" "pred_option (\<lambda>p. peer_ok {} (int i) p \<and> proxyConnectFail p = Inr ()) (crdtMasters s ! i)"
  shows "cron_peer env timeout i (acks, s)
     = (let m = map_option (cron_next env timeout (unixtime s)) (crdtMasters s ! i)
        in Inr (acks @ [(int i, peer_acks s m)], s\<lparr>crdtMasters := (crdtMasters s)[i := m]\<rparr>))"
proof (cases "crdtMasters s ! i")
  case None
  then have g: "getPeerMaster (int i) s = Inr None" using assms by (simp add: getPeerMaster_def)
  then have "peer_do (int i) f s = Inr s" for f by (simp add: peer_do_def)
  moreover have "cron_ack (int i) s = Inr []" using g by (simp add: cron_ack_def)
  moreover have "s\<lparr>crdtMasters := (crdtMasters s)[i := None]\<rparr> = s" using None by (metis list_update_id crdt_server.surjective crdt_server.update_convs(6))
  ultimately show ?thesis using None by (simp add: cron_peer_def peer_acks_def Let_def)
next
  case (Some p)
  let ?p = "cron_next env timeout (unixtime s) p" and ?g = "int i"
  have p: "peer_ok {} ?g p" "proxyConnectFail p = Inr ()" using assms(3) Some by simp_all
  have s: "setPeerMaster ?g (Some p) s = s" using setPeerMaster_same [of ?g s "Some p"] Some by simp
  let ?s = "setPeerMaster ?g (Some ?p) s"
  have "cron_ack ?g ?s = Inr (peer_acks s (Some ?p))"
    using cron_ack_peer [of ?s ?g] cron_next_ok [OF p(1)] assms(1,2) by (simp add: setPeerMaster_table peer_acks_def split: option.split)
  moreover have "bindE (peer_do ?g (cron_handshake env timeout ?g) s) (\<lambda>s.
        bindE (peer_do ?g (cron_transfer env timeout ?g) s) (\<lambda>s.
        bindE (peer_do ?g (cron_silent env timeout ?g) s) (\<lambda>s.
        bindE (peer_do ?g (cron_connect env ?g) s) (\<lambda>s.
        peer_do ?g (cron_prepare ?g) s)))) = Inr ?s"
    using cron_slot [OF assms(1) _ _ p, of env timeout] assms(2) unfolding s by simp
  ultimately show ?thesis
    by (simp add: cron_peer_def Some setPeerMaster_table Let_def flip: bindE_assoc)
qed

definition cron_table :: "cron_env \<Rightarrow> int \<Rightarrow> crdt_server \<Rightarrow> CRDT_Master_Instance option list" where
  "cron_table env timeout s = map (map_option (cron_next env timeout (unixtime s))) (crdtMasters s)"

lemma peer_acks_table [simp]: "peer_acks (s\<lparr>crdtMasters := t\<rparr>) m = peer_acks s m"
  by (simp add: peer_acks_def split: option.split)

lemma cron_peers_upto:
  assumes "peers_inv {} s" and "\<forall>p. Some p \<in> set (crdtMasters s) \<longrightarrow> proxyConnectFail p = Inr ()" and "n \<le> 16"
  shows "foldE (cron_peer env timeout) [0..<n] ([], s)
     = Inr (map (\<lambda>i. (int i, peer_acks s (cron_table env timeout s ! i))) [0..<n],
         s\<lparr>crdtMasters := take n (cron_table env timeout s) @ drop n (crdtMasters s)\<rparr>)"
  using assms(3)
proof (induction n)
  case 0
  show ?case by simp
next
  case (Suc n)
  let ?s = "s\<lparr>crdtMasters := take n (cron_table env timeout s) @ drop n (crdtMasters s)\<rparr>"
  have len: "length (crdtMasters s) = 16" using assms(1) by (rule peers_invD)
  have tl: "length (take n (cron_table env timeout s)) = n" using Suc.prems len by (simp add: cron_table_def)
  have m: "crdtMasters ?s ! n = crdtMasters s ! n" using Suc.prems tl len by (simp add: nth_append)
  have d: "drop n (crdtMasters s) = crdtMasters s ! n # drop (Suc n) (crdtMasters s)" using Suc.prems len by (simp add: Cons_nth_drop_Suc)
  have mem: "crdtMasters s ! n \<in> set (crdtMasters s)" using Suc.prems len by (simp add: nth_mem)
  have "pred_option (\<lambda>p. peer_ok {} (int n) p \<and> proxyConnectFail p = Inr ()) (crdtMasters s ! n)"
    using peers_inv_at [OF assms(1), of "int n"] assms(2) Suc.prems mem unfolding pred_option_iff by force
  then have "cron_peer env timeout n (acks, ?s)
      = Inr (acks @ [(int n, peer_acks s (cron_table env timeout s ! n))], ?s\<lparr>crdtMasters := (crdtMasters ?s)[n := cron_table env timeout s ! n]\<rparr>)" for acks
    using cron_peer_at [of ?s n env timeout acks] Suc.prems len tl m by (simp add: cron_table_def Let_def)
  moreover have "(crdtMasters ?s)[n := cron_table env timeout s ! n] = take (Suc n) (cron_table env timeout s) @ drop (Suc n) (crdtMasters s)"
    using tl Suc.prems len unfolding d by (simp add: list_update_append take_Suc_conv_app_nth cron_table_def)
  ultimately show ?case using Suc.IH Suc.prems by (simp add: foldE_append)
qed

lemma cron_table_inv: "peers_inv {} s \<Longrightarrow> peers_inv {} (s\<lparr>crdtMasters := cron_table env timeout s\<rparr>)"
proof -
  assume inv: "peers_inv {} s"
  have "pred_option (peer_ok {} (int i)) (cron_table env timeout s ! i)" if "i < 16" for i
    using peers_inv_at [OF inv, of "int i"] that peers_invD(2) [OF inv] by (auto simp: cron_table_def pred_option_iff cron_next_ok)
  with inv show ?thesis by (simp add: peers_inv_def cron_table_def clocks_wf_def)
qed

text \<open>
  C6. The pass of the cron over the peers, on a table that satisfies the invariant, neither faults nor mixes up
  peers: it is the function \<open>cron_next\<close> on every slot. A connection that has been silent for longer than the
  timeout is given up, its link kept for a partial resynchronisation, and connected to again in the same pass
  when the peer may be; the peers that remain connected, and only they, are sent the clock of this instance and
  the offset of their own stream. The invariant of the table is kept.
\<close>

theorem cron_peers_slotwise:
  assumes "peers_inv {} s" and "iAmMaster s" and "\<forall>p. Some p \<in> set (crdtMasters s) \<longrightarrow> proxyConnectFail p = Inr ()"
  shows "cron_peers env timeout s
     = Inr (map (\<lambda>i. (int i, peer_acks s (cron_table env timeout s ! i))) [0..<16], s\<lparr>crdtMasters := cron_table env timeout s\<rparr>)
     \<and> peers_inv {} (s\<lparr>crdtMasters := cron_table env timeout s\<rparr>)"
proof -
  have "length (cron_table env timeout s) = 16" "length (crdtMasters s) = 16"
    using peers_invD(2) [OF assms(1)] by (simp_all add: cron_table_def)
  then show ?thesis
    using cron_peers_upto [OF assms(1,3), of 16 env timeout] assms(2) cron_table_inv [OF assms(1)] by (simp add: cron_peers_def)
qed

definition late_env :: cron_env where
  "late_env = \<lparr>ce_menv = calm_menv, ce_repl_env = sample_env, ce_time = 100, ce_mstime = 100000, ce_ping_due = False,
     ce_active_ovc = True, ce_connect = \<lambda>_. Some 21\<rparr>"

theorem cron_peers_slotwise_witness:
  "\<exists>acks s' p c. cron_peers late_env 60 peered = Inr (acks, s') \<and> crdtMasters s' ! 2 = Some p
     \<and> repl_state p = REPL_STATE_CONNECTING \<and> repl_transfer_s p = 21 \<and> master p = None
     \<and> cached_master p = Some c \<and> mc_reploff c = 70"
proof -
  have u: "unixtime peered = 0" by (simp add: peered_def setPeerMaster_def sample_server_def)
  have px: "\<forall>p. Some p \<in> set (crdtMasters peered) \<longrightarrow> proxyConnectFail p = Inr ()"
    unfolding peered_fields by (auto simp: set_update_memI sample_peer_def proxyConnectFail_def dest!: set_update_subset_insert [THEN subsetD])
  have "cron_table late_env 60 peered ! 2 = Some (cron_next late_env 60 0 sample_peer)"
    by (simp add: cron_table_def peered_fields u)
  then show ?thesis
    using cron_peers_slotwise [OF peered_inv peered_fields(3) px, of late_env 60]
    by (simp add: cron_next_def late_env_def lapsed_def silent_def sample_peer_def sample_link_def fake_client_def dropped_def
        reset_master_client_def may_connect_def crdtConnectWithMaster_def crdtSlaveIsInHandshakeState_def)
qed

subsection \<open>The snapshot for the waiting peers\<close>

definition waits :: "client \<Rightarrow> bool" where
  "waits c \<longleftrightarrow> c_replstate c = SLAVE_STATE_WAIT_BGSAVE_START"

text \<open>A client during the scan: its clock may have been sorted.\<close>

definition sorted_client :: "client \<Rightarrow> client \<Rightarrow> bool" where
  "sorted_client c c' \<longleftrightarrow> (\<exists>f. c' = c\<lparr>c_filterVectorClock := f\<rparr> \<and> vc_wf f \<and> vc_time f = vc_time (c_filterVectorClock c)
     \<and> (f = [] \<longleftrightarrow> c_filterVectorClock c = []))"

definition least_clock :: "client set \<Rightarrow> VectorClock \<Rightarrow> bool" where
  "least_clock W vc \<longleftrightarrow> vc_wf vc \<and> vc \<noteq> [] \<and> (\<forall>g. (\<forall>c \<in> W. vc_time vc g \<le> vc_time (c_filterVectorClock c) g)
     \<and> (\<exists>c \<in> W. vc_time vc g = vc_time (c_filterVectorClock c) g))"

lemma sorted_client_refl: "vc_wf (c_filterVectorClock c) \<Longrightarrow> sorted_client c c"
  by (cases c) (auto simp: sorted_client_def)

lemma least_clock_one: "vc_wf f \<Longrightarrow> f \<noteq> [] \<Longrightarrow> vc_time f = vc_time (c_filterVectorClock c) \<Longrightarrow> least_clock {c} f"
  by (simp add: least_clock_def)

lemma least_clock_insert:
  assumes "least_clock W vc" and "vc_wf r" and "r \<noteq> []" and "\<forall>g. vc_time r g = min (vc_time vc g) (vc_time (c_filterVectorClock c) g)"
  shows "least_clock (insert c W) r"
proof -
  have "(\<forall>d \<in> insert c W. vc_time r g \<le> vc_time (c_filterVectorClock d) g)
      \<and> (\<exists>d \<in> insert c W. vc_time r g = vc_time (c_filterVectorClock d) g)" for g
  proof -
    obtain d where "d \<in> W" "vc_time vc g = vc_time (c_filterVectorClock d) g" and le: "\<forall>e \<in> W. vc_time vc g \<le> vc_time (c_filterVectorClock e) g"
      using assms(1) unfolding least_clock_def by blast
    with assms(4) show ?thesis by (auto simp: min_def)
  qed
  with assms(2,3) show ?thesis by (simp add: least_clock_def)
qed

lemma find_by_id:
  "distinct (map c_id cs) \<Longrightarrow> c \<in> set cs \<Longrightarrow> find (\<lambda>d. c_id d = c_id c) cs = Some c"
  by (induction cs) auto

lemma sorted_client_id: "sorted_client c c' \<Longrightarrow> c_id c' = c_id c"
  by (auto simp: sorted_client_def)

lemma sorted_ids: "list_all2 sorted_client cs cs' \<Longrightarrow> map c_id cs' = map c_id cs"
  by (induction rule: list_all2_induct) (simp_all add: sorted_client_id)

lemma sorted_put:
  assumes "list_all2 sorted_client cs cs'" and "distinct (map c_id cs)" and "c \<in> set cs" and "sorted_client c c'"
  shows "list_all2 sorted_client cs (map (\<lambda>d. if c_id d = c_id c then c' else d) cs')"
  using assms
proof (induction rule: list_all2_induct)
  case (Cons d ds d' ds')
  show ?case
  proof (cases "c = d")
    case True
    then have "map (\<lambda>d. if c_id d = c_id c then c' else d) ds' = ds'"
      using Cons.prems(1) sorted_ids [OF Cons.hyps(2)] by (intro map_idI) (metis (no_types) distinct.simps(2) image_eqI list.set_map list.simps(9))
    with True Cons show ?thesis by (simp add: sorted_client_id)
  next
    case False
    then have "c \<in> set ds" "c_id d \<noteq> c_id c" using Cons.prems(1,2) by auto
    with Cons show ?thesis by (simp add: sorted_client_id)
  qed
qed simp

lemma list_all2_partner: "list_all2 P xs ys \<Longrightarrow> x \<in> set xs \<Longrightarrow> \<exists>y \<in> set ys. P x y"
  by (induction rule: list_all2_induct) auto

lemma mergeMin_scan:
  assumes "vc_wf a" and "vc_wf b" and "a \<noteq> []"
  shows "\<exists>r a' b'. mergeMinVectorClock a b = Inr (r, a', b') \<and> vc_wf r \<and> r \<noteq> []
     \<and> (\<forall>g. vc_time r g = min (vc_time a g) (vc_time b g))
     \<and> vc_wf b' \<and> vc_time b' = vc_time b \<and> (b' = [] \<longleftrightarrow> b = [])"
proof -
  obtain r a' b' where r: "mergeMinVectorClock a b = Inr (r, a', b')" "vc_wf b'" "set b' = set b"
    using mergeMinVectorClock_ok [OF assms(1,2)] by blast
  have "vc_wf r" "\<forall>g. vc_time r g = min (vc_time a g) (vc_time b g)" "gids r = gids a \<union> gids b"
    using mergeMin_time [OF assms(1,2)] r(1) by auto
  moreover have "vc_time b' = vc_time b"
    using vc_map_set_eq [OF r(2) assms(2) r(3)] by (simp add: fun_eq_iff vc_time_def)
  moreover have "r \<noteq> []" using \<open>gids r = _\<close> assms(3) by auto
  moreover have "b' = [] \<longleftrightarrow> b = []" using r(3) by (metis set_empty)
  ultimately show ?thesis using r by blast
qed

definition scanned :: "nat set \<Rightarrow> repl_world \<Rightarrow> (int \<times> nat \<times> VectorClock) \<times> repl_world \<Rightarrow> bool" where
  "scanned D w = (\<lambda>((max_idle, k, vc), w').
     let W = {c \<in> set (slaves (w_crdt w)). waits c \<and> c_id c \<in> D}
     in (\<exists>cs. w_crdt w' = (w_crdt w)\<lparr>slaves := cs\<rparr> \<and> list_all2 sorted_client (slaves (w_crdt w)) cs) \<and> w_net w' = w_net w
        \<and> (if W = {} then vc = [] \<and> k = 0 else least_clock W vc \<and> 0 < k)
        \<and> (\<forall>c \<in> W. net_unixtime (w_net w) - c_lastinteraction c \<le> max_idle))"

lemma scan_first:
  assumes "c_replstate d = SLAVE_STATE_WAIT_BGSAVE_START" and "d = c\<lparr>c_filterVectorClock := h\<rparr>" and "vc_wf h"
  shows "scan_waiting d ((max_idle, k, []), w) = Inr ((max (net_unixtime (w_net w) - c_lastinteraction c) max_idle, Suc k, h), w)"
  using assms by (simp add: scan_waiting_def isNullVectorClock_def get_len_def Let_def dupVectorClock_ok)

lemma scan_next:
  assumes "c_replstate d = SLAVE_STATE_WAIT_BGSAVE_START" and "d = c\<lparr>c_filterVectorClock := h\<rparr>" and "vc_wf h"
    and "vc_time h = vc_time (c_filterVectorClock c)" and "h \<noteq> []" and "c_filterVectorClock c \<noteq> []" and lc: "least_clock W vc"
  shows "\<exists>r b'. scan_waiting d ((max_idle, k, vc), w) = Inr ((max (net_unixtime (w_net w) - c_lastinteraction c) max_idle, Suc k, r),
        update_slave (c\<lparr>c_filterVectorClock := b'\<rparr>) w)
     \<and> least_clock (insert c W) r \<and> sorted_client c (c\<lparr>c_filterVectorClock := b'\<rparr>)"
proof -
  have vcn: "vc_wf vc" "vc \<noteq> []" using lc by (simp_all add: least_clock_def)
  obtain r a' b' where r: "mergeMinVectorClock vc h = Inr (r, a', b')" "vc_wf r" "r \<noteq> []"
      "\<forall>g. vc_time r g = min (vc_time vc g) (vc_time (c_filterVectorClock c) g)"
      "vc_wf b'" "vc_time b' = vc_time (c_filterVectorClock c)" "b' \<noteq> []"
    using mergeMin_scan [OF vcn(1) assms(3) vcn(2)] assms(4,5) by auto
  have "scan_waiting d ((max_idle, k, vc), w) = Inr ((max (net_unixtime (w_net w) - c_lastinteraction c) max_idle, Suc k, r),
      update_slave (c\<lparr>c_filterVectorClock := b'\<rparr>) w)"
    using assms(1,2) vcn(2) r(1) by (simp add: scan_waiting_def isNullVectorClock_def get_len_def Let_def)
  moreover have "sorted_client c (c\<lparr>c_filterVectorClock := b'\<rparr>)" using r(5-7) assms(6) by (auto simp: sorted_client_def)
  ultimately show ?thesis using least_clock_insert [OF lc r(2-4)] by blast
qed

lemma scan_step:
  assumes "scanned D w (st, w')" and "distinct (map c_id (slaves (w_crdt w)))" and "c \<in> set (slaves (w_crdt w))"
    and "waits c \<Longrightarrow> c_filterVectorClock c \<noteq> []"
  shows "\<exists>r. (case find (\<lambda>d. c_id d = c_id c) (slaves (w_crdt w')) of None \<Rightarrow> Inr (st, w') | Some d \<Rightarrow> scan_waiting d (st, w')) = Inr r
     \<and> scanned (insert (c_id c) D) w r"
proof -
  obtain max_idle k vc where st: "st = (max_idle, k, vc)" by (cases st) auto
  let ?cs = "slaves (w_crdt w)" and ?W = "\<lambda>D. {c \<in> set (slaves (w_crdt w)). waits c \<and> c_id c \<in> D}"
  obtain cs where w': "w_crdt w' = (w_crdt w)\<lparr>slaves := cs\<rparr>" and cs: "list_all2 sorted_client ?cs cs" and n: "w_net w' = w_net w"
    and vc: "if ?W D = {} then vc = [] \<and> k = 0 else least_clock (?W D) vc \<and> 0 < k"
    and idle: "\<forall>c \<in> ?W D. net_unixtime (w_net w) - c_lastinteraction c \<le> max_idle"
    using assms(1) unfolding scanned_def st Let_def by auto
  obtain d where d: "d \<in> set cs" "sorted_client c d" using list_all2_partner [OF cs assms(3)] by blast
  have "distinct (map c_id cs)" using sorted_ids [OF cs] assms(2) by simp
  then have f: "find (\<lambda>d. c_id d = c_id c) cs = Some d" using find_by_id [OF _ d(1)] sorted_client_id [OF d(2)] by simp
  have look: "(case find (\<lambda>d. c_id d = c_id c) (slaves (w_crdt w')) of None \<Rightarrow> Inr (st, w') | Some d \<Rightarrow> scan_waiting d (st, w'))
      = scan_waiting d (st, w')" by (simp add: w' f)
  have same: "e = c" if "e \<in> set ?cs" "c_id e = c_id c" for e
    using assms(2,3) that by (auto simp: distinct_map dest: inj_onD)
  show ?thesis
  proof (cases "waits c")
    case False
    then have "?W (insert (c_id c) D) = ?W D" using same by auto
    moreover have "c_replstate d \<noteq> SLAVE_STATE_WAIT_BGSAVE_START" using False d(2) by (auto simp: waits_def sorted_client_def)
    ultimately show ?thesis using assms(1) by (simp add: st w' f scan_waiting_def scanned_def)
  next
    case True
    then have W: "?W (insert (c_id c) D) = insert c (?W D)" using same assms(3) by auto
    obtain h where h: "d = c\<lparr>c_filterVectorClock := h\<rparr>" "vc_wf h" "vc_time h = vc_time (c_filterVectorClock c)" "h \<noteq> []" "c_filterVectorClock c \<noteq> []"
      using d(2) assms(4) [OF True] by (auto simp: sorted_client_def)
    have wd: "c_replstate d = SLAVE_STATE_WAIT_BGSAVE_START" using True h(1) by (simp add: waits_def)
    have i: "\<forall>e \<in> insert c (?W D). net_unixtime (w_net w) - c_lastinteraction e \<le> max (net_unixtime (w_net w) - c_lastinteraction c) max_idle"
      using idle by auto
    show ?thesis
    proof (cases "?W D = {}")
      case True
      then have s: "scan_waiting d (st, w') = Inr ((max (net_unixtime (w_net w) - c_lastinteraction c) max_idle, Suc k, h), w')"
        using vc scan_first [OF wd h(1,2), of max_idle k w'] by (simp add: st n)
      have "least_clock (insert c (?W D)) h" using least_clock_one [OF h(2,4,3)] unfolding True .
      then have "scanned (insert (c_id c) D) w ((max (net_unixtime (w_net w) - c_lastinteraction c) max_idle, Suc k, h), w')"
        using i w' cs n unfolding scanned_def Let_def W prod.case by simp blast
      then show ?thesis unfolding look s by blast
    next
      case False
      then have lc: "least_clock (?W D) vc" using vc by simp
      obtain r b' where s: "scan_waiting d (st, w') = Inr ((max (net_unixtime (w_net w) - c_lastinteraction c) max_idle, Suc k, r),
            update_slave (c\<lparr>c_filterVectorClock := b'\<rparr>) w')"
          and r: "least_clock (insert c (?W D)) r" "sorted_client c (c\<lparr>c_filterVectorClock := b'\<rparr>)"
        using scan_next [OF wd h lc, of max_idle k w'] unfolding st n by blast
      let ?c = "c\<lparr>c_filterVectorClock := b'\<rparr>"
      from sorted_put [OF cs assms(2,3) r(2)] have
        "w_crdt (update_slave ?c w') = (w_crdt w)\<lparr>slaves := map (\<lambda>d. if c_id d = c_id c then ?c else d) cs\<rparr>"
        "list_all2 sorted_client ?cs (map (\<lambda>d. if c_id d = c_id c then ?c else d) cs)"
        by (simp_all add: update_slave_def w')
      moreover have "w_net (update_slave ?c w') = w_net w" by (simp add: update_slave_def n)
      ultimately have "scanned (insert (c_id c) D) w
          ((max (net_unixtime (w_net w) - c_lastinteraction c) max_idle, Suc k, r), update_slave ?c w')"
        using i r(1) unfolding scanned_def Let_def W prod.case by simp blast
      then show ?thesis unfolding look s by blast
    qed
  qed
qed

lemma scan_list:
  assumes "distinct (map c_id (slaves (w_crdt w)))" and "\<forall>c \<in> set (slaves (w_crdt w)). waits c \<longrightarrow> c_filterVectorClock c \<noteq> []"
    and "set cs \<subseteq> set (slaves (w_crdt w))" and "scanned D w st"
  shows "\<exists>r. foldE (\<lambda>i (s, w'). case find (\<lambda>d. c_id d = i) (slaves (w_crdt w')) of None \<Rightarrow> Inr (s, w') | Some d \<Rightarrow> scan_waiting d (s, w'))
       (map c_id cs) st = Inr r \<and> scanned (D \<union> c_id ` set cs) w r"
  using assms(3,4)
proof (induction cs arbitrary: D st)
  case (Cons c cs)
  obtain x w' where st: "st = (x, w')" by (cases st) auto
  obtain r where "(case find (\<lambda>d. c_id d = c_id c) (slaves (w_crdt w')) of None \<Rightarrow> Inr (x, w') | Some d \<Rightarrow> scan_waiting d (x, w')) = Inr r"
      "scanned (insert (c_id c) D) w r"
    using scan_step [of D w x w' c] assms(1,2) Cons.prems unfolding st by auto
  then show ?case using Cons.IH [of "insert (c_id c) D" r] Cons.prems(1) by (simp add: st)
qed simp

lemma scan_all:
  assumes "distinct (map c_id (slaves (w_crdt w)))" and "\<forall>c \<in> set (slaves (w_crdt w)). vc_wf (c_filterVectorClock c)"
    and "\<forall>c \<in> set (slaves (w_crdt w)). waits c \<longrightarrow> c_filterVectorClock c \<noteq> []"
    and "c0 \<in> set (slaves (w_crdt w))" and "waits c0"
  shows "\<exists>max_idle k vc w' cs. for_slaves True scan_waiting ((0, 0, []), w) = Inr ((max_idle, k, vc), w')
     \<and> w_crdt w' = (w_crdt w)\<lparr>slaves := cs\<rparr> \<and> least_clock {c \<in> set (slaves (w_crdt w)). waits c} vc \<and> 0 < k
     \<and> net_unixtime (w_net w) - c_lastinteraction c0 \<le> max_idle"
proof -
  have "list_all2 sorted_client (slaves (w_crdt w)) (slaves (w_crdt w))"
    using assms(2) by (simp add: list_all2_same sorted_client_refl)
  then have "scanned {} w ((0, 0, []), w)" by (auto simp: scanned_def intro!: exI [of _ "slaves (w_crdt w)"])
  from scan_list [OF assms(1,3) subset_refl this] obtain max_idle k vc w' where
      f: "for_slaves True scan_waiting ((0, 0, []), w) = Inr ((max_idle, k, vc), w')"
      and s: "scanned (c_id ` set (slaves (w_crdt w))) w ((max_idle, k, vc), w')"
    unfolding for_slaves_def srv_of_def by auto
  have W: "{c \<in> set (slaves (w_crdt w)). waits c \<and> c_id c \<in> c_id ` set (slaves (w_crdt w))} = {c \<in> set (slaves (w_crdt w)). waits c}"
    by blast
  have "{c \<in> set (slaves (w_crdt w)). waits c} \<noteq> {}" using assms(4,5) by blast
  then show ?thesis using s f assms(4,5) unfolding scanned_def Let_def prod.case W by auto
qed

lemma setup_slaves_total: "\<exists>m'. setup_slaves env is_crdt m = Inr m'"
proof -
  have "\<exists>r. each_slave (setup_slave env) cs st = Inr r" for cs st
  proof (induction cs arbitrary: st)
    case (Cons c cs)
    have "\<exists>st' r. setup_slave env (st, c) = Inr (st', r)"
      by (cases st) (simp add: setup_slave_def Let_def split: prod.split)
    then obtain st' r where "setup_slave env (st, c) = Inr (st', r)" by blast
    then show ?case using Cons.IH [of st'] by (auto split: option.split)
  qed (simp only: each_slave.simps, blast)
  then obtain srv n out cs where "each_slave (setup_slave env) (slaves (srv_of is_crdt (m_world m)))
      (srv_of is_crdt (m_world m), w_net (m_world m), m_out m) = Inr ((srv, n, out), cs)" by (metis prod.exhaust)
  then show ?thesis by (simp add: setup_slaves_def Let_def)
qed

lemma save_starts:
  assumes "rdb_child (w_crdt (m_world m)) = None" and "\<not> aof_child (w_crdt (m_world m))" and "me_pipe_ok env" and "me_fork_ok env"
    and "repl_backlog (w_crdt (m_world m)) \<noteq> None"
  shows "\<exists>m' rsi. startCrdtBgsaveForReplication2 env vc m = Inr (True, m') \<and> m_save m' = Some rsi \<and> rsi_min_vc rsi = vc"
proof -
  obtain m1 where m1: "setup_slaves env True m = Inr m1" using setup_slaves_total by blast
  obtain rsi where rsi: "crdtRdbPopulateSaveInfo2 True (slaveseldb (w_crdt (m_world m)))
        (getPsyncInitialOffset (w_crdt (m_world m))) (replid (w_crdt (m_world m))) vc = Some rsi" "rsi_min_vc rsi = vc"
    by (simp add: crdtRdbPopulateSaveInfo2_def)
  obtain m2 where "rdbSaveToSlavesSockets env True m = Inr (True, m2)"
    using assms m1 by (simp add: rdbSaveToSlavesSockets_def save_forked_def srv_of_def Let_def)
  with rsi assms(5) show ?thesis by (simp add: startCrdtBgsaveForReplication2_def Let_def)
qed

text \<open>
  C5. When the cron starts a snapshot for the peers that wait for one, the clock the snapshot is filtered with is
  the minimum of the clocks they have announced: below each of them, so that no write that a waiting peer lacks
  is left out, and at every gid equal to that of one of them, so that nothing is sent that all of them have. All
  waiting peers must have announced a clock.
\<close>

theorem cron_bgsave_covers_waiting:
  assumes "distinct (map c_id (slaves (w_crdt (m_world m))))"
    and "\<forall>c \<in> set (slaves (w_crdt (m_world m))). vc_wf (c_filterVectorClock c) \<and> (waits c \<longrightarrow> c_filterVectorClock c \<noteq> [])"
    and "c0 \<in> set (slaves (w_crdt (m_world m)))" and "waits c0"
    and "net_unixtime (w_net (m_world m)) - c_lastinteraction c0 > repl_diskless_sync_delay (w_crdt (m_world m))"
    and "rdb_child (w_crdt (m_world m)) = None" and "\<not> aof_child (w_crdt (m_world m))"
    and "me_multi_process_sync (ce_menv env)" and "me_pipe_ok (ce_menv env)" and "me_fork_ok (ce_menv env)"
    and "repl_backlog (w_crdt (m_world m)) \<noteq> None"
  shows "\<exists>m' rsi. cron_bgsave env m = Inr m' \<and> m_save m' = Some rsi
     \<and> least_clock {c \<in> set (slaves (w_crdt (m_world m))). waits c} (rsi_min_vc rsi)"
proof -
  let ?w = "m_world m"
  have "\<forall>c \<in> set (slaves (w_crdt ?w)). vc_wf (c_filterVectorClock c)"
      "\<forall>c \<in> set (slaves (w_crdt ?w)). waits c \<longrightarrow> c_filterVectorClock c \<noteq> []" using assms(2) by blast+
  from scan_all [OF assms(1) this assms(3,4)] obtain max_idle k vc w' cs where
      f: "for_slaves True scan_waiting ((0, 0, []), ?w) = Inr ((max_idle, k, vc), w')"
      and w': "w_crdt w' = (w_crdt ?w)\<lparr>slaves := cs\<rparr>" and lc: "least_clock {c \<in> set (slaves (w_crdt ?w)). waits c} vc"
      and k: "0 < k" "net_unixtime (w_net ?w) - c_lastinteraction c0 \<le> max_idle"
    by blast
  obtain m' rsi where "startCrdtBgsaveForReplication2 (ce_menv env) vc (m\<lparr>m_world := w'\<rparr>) = Inr (True, m')"
      "m_save m' = Some rsi" "rsi_min_vc rsi = vc"
    using save_starts [of "m\<lparr>m_world := w'\<rparr>" "ce_menv env" vc] assms(6,7,9-11) w' by auto
  then show ?thesis using assms(5-8) f k lc w' by (simp add: cron_bgsave_def newVectorClock_ok0 Let_def)
qed

definition waiting_client :: "nat \<Rightarrow> VectorClock \<Rightarrow> client" where
  "waiting_client i vc = blank_client\<lparr>c_id := i, c_flags := {CLIENT_CRDT_SLAVE}, c_replstate := SLAVE_STATE_WAIT_BGSAVE_START,
     c_filterVectorClock := vc\<rparr>"

definition queueing :: "client list \<Rightarrow> mstate" where
  "queueing cs = \<lparr>m_world = sample_world\<lparr>w_crdt := sample_stream\<lparr>slaves := cs\<rparr>\<rparr>, m_crdt = sample_server, m_out = [], m_gone = [],
     m_master_out = [], m_save = None\<rparr>"

lemmas queue_defs = queueing_def waiting_client_def blank_defs sample_world_def sample_stream_def late_env_def calm_menv_def waits_def

theorem cron_bgsave_covers_waiting_witness:
  "\<exists>m' rsi. cron_bgsave late_env (queueing [waiting_client 7 (mk_vc [(1, 9)]), waiting_client 8 (mk_vc [(1, 5), (2, 4)])]) = Inr m'
     \<and> m_save m' = Some rsi \<and> vc_time (rsi_min_vc rsi) 1 \<le> 5 \<and> vc_time (rsi_min_vc rsi) 2 = 0"
proof -
  let ?a = "waiting_client 7 (mk_vc [(1, 9)])" and ?b = "waiting_client 8 (mk_vc [(1, 5), (2, 4)])"
  have vc: "vc_wf (mk_vc [(1, 9)])" "mk_vc [(1, 9)] \<noteq> []" "vc_wf (mk_vc [(1, 5), (2, 4)])" "mk_vc [(1, 5), (2, 4)] \<noteq> []"
    and t: "vc_time (mk_vc [(1, 9)]) 2 = 0" "vc_time (mk_vc [(1, 5), (2, 4)]) 1 = 5" by code_simp+
  have s: "slaves (w_crdt (m_world (queueing cs))) = cs" for cs by (simp add: queueing_def)
  have "waits ?a" "waits ?b" by (simp_all add: queue_defs)
  then have W: "{c \<in> set [?a, ?b]. waits c} = {?a, ?b}" by auto
  have "\<exists>m' rsi. cron_bgsave late_env (queueing [?a, ?b]) = Inr m' \<and> m_save m' = Some rsi
      \<and> least_clock {c \<in> set (slaves (w_crdt (m_world (queueing [?a, ?b])))). waits c} (rsi_min_vc rsi)"
    using vc by (intro cron_bgsave_covers_waiting [where ?c0.0 = ?a]) (simp_all add: queue_defs)
  then obtain m' rsi where r: "cron_bgsave late_env (queueing [?a, ?b]) = Inr m'" "m_save m' = Some rsi" "least_clock {?a, ?b} (rsi_min_vc rsi)"
    unfolding s W by blast
  then have "vc_time (rsi_min_vc rsi) 1 \<le> vc_time (c_filterVectorClock ?b) 1" "vc_time (rsi_min_vc rsi) 2 \<le> vc_time (c_filterVectorClock ?a) 2"
    unfolding least_clock_def by blast+
  moreover have "c_filterVectorClock ?a = mk_vc [(1, 9)]" "c_filterVectorClock ?b = mk_vc [(1, 5), (2, 4)]" by (simp_all add: waiting_client_def)
  ultimately show ?thesis using r(1,2) t by simp
qed

text \<open>
  C39. A peer that waits without having announced a clock is forgotten by the scan when it stands before another
  one: the empty clock is taken for the initial value, and the snapshot is filtered with the clock of the other
  peer alone. Behind the other peer it makes the whole clock zero, and the snapshot is complete.
\<close>

theorem cron_bgsave_null_clock_order:
  assumes "c_id a \<noteq> c_id b" and "waits a" and "waits b" and "c_filterVectorClock a = []"
    and "vc_wf (c_filterVectorClock b)" and "c_filterVectorClock b \<noteq> []"
    and "slaves (w_crdt w) = cs" and "cs = [a, b] \<or> cs = [b, a]"
  shows "\<exists>max_idle vc w'. for_slaves True scan_waiting ((0, 0, []), w) = Inr ((max_idle, 2, vc), w')
     \<and> vc = (if cs = [a, b] then c_filterVectorClock b else cleanVectorClock (c_filterVectorClock b))"
proof -
  have z: "mergeMinVectorClock (c_filterVectorClock b) [] = Inr (cleanVectorClock (c_filterVectorClock b), c_filterVectorClock b, [])"
    using assms(5,6) by (simp add: mergeMinVectorClock_def isNullVectorClock_def get_len_def dupVectorClock_ok)
  have d: "dupVectorClock [] = Inr []" using dupVectorClock_ok [of "[]"] by simp
  show ?thesis
    using assms z d dupVectorClock_ok [OF assms(5)]
    by (auto simp: for_slaves_def srv_of_def scan_waiting_def waits_def isNullVectorClock_def get_len_def Let_def update_slave_def)
qed

theorem cron_bgsave_null_clock_order_witness:
  "\<exists>max_idle vc w'. for_slaves True scan_waiting ((0, 0, []), m_world (queueing [waiting_client 7 [], waiting_client 8 (mk_vc [(1, 5)])]))
       = Inr ((max_idle, 2, vc), w') \<and> vc = mk_vc [(1, 5)]"
proof -
  let ?a = "waiting_client 7 []" and ?b = "waiting_client 8 (mk_vc [(1, 5)])"
  have vc: "vc_wf (mk_vc [(1, 5)])" "mk_vc [(1, 5)] \<noteq> []" by code_simp+
  have b: "c_filterVectorClock ?b = mk_vc [(1, 5)]" by (simp add: waiting_client_def)
  have "c_id ?a \<noteq> c_id ?b" "waits ?a" "waits ?b" "c_filterVectorClock ?a = []" "slaves (w_crdt (m_world (queueing [?a, ?b]))) = [?a, ?b]"
    by (simp_all add: waits_def waiting_client_def queueing_def)
  from cron_bgsave_null_clock_order [OF this(1-4) _ _ this(5), unfolded b, OF vc] show ?thesis by simp
qed

end
