(* ===== verification/Dict.thy ===== *)
theory Dict
  imports Crdt_Prelude "HOL-Library.Multiset"
begin

section \<open>Dictionaries\<close>

text \<open>
  \<^verbatim>\<open>src/src/dict.c\<close>: the chained hash table with incremental rehashing that holds the keys, the expires and the
  tombstones of a database. A bucket is the list of its entries, a null table the empty list; an entry is a key
  and a value that may not have been set yet, and a pointer to an entry is its table, bucket and position
  (\<open>entry_ref\<close>). The hash function and the key comparison belong to the type of a dictionary; its functions that
  copy and release keys and values leave their contents alone. Sizes and counts are natural numbers: below
  \<open>2 ^ 62\<close> entries, which the theorems assume, none of the sums and products wraps around. Clock readings are
  arguments.
\<close>

unbundle bit_operations_syntax

type_synonym ('k, 'v) dictEntry = "'k \<times> 'v option"
type_synonym entry_ref = "bool \<times> nat \<times> nat"

record 'k dictType =
  hashFunction :: "'k \<Rightarrow> 64 word"
  keyCompare :: "('k \<Rightarrow> 'k \<Rightarrow> bool) option"

record ('k, 'v) dictht =
  ht_table :: "('k, 'v) dictEntry list list"
  ht_size :: nat
  ht_sizemask :: nat
  ht_used :: nat

record ('k, 'v) dict =
  d_type :: "'k dictType"
  d_ht0 :: "('k, 'v) dictht"
  d_ht1 :: "('k, 'v) dictht"
  d_rehashidx :: int
  d_iterators :: nat

text \<open>The settings shared by all dictionaries.\<close>

record dict_env =
  dict_can_resize :: bool
  dict_force_resize_ratio :: nat
  dict_expand_max_idle_size :: nat

abbreviation DICT_HT_INITIAL_SIZE :: nat where "DICT_HT_INITIAL_SIZE \<equiv> 4"
abbreviation LONG_MAX_nat :: nat where "LONG_MAX_nat \<equiv> 2 ^ 63 - 1"

definition dictIsRehashing :: "('k, 'v) dict \<Rightarrow> bool" where
  "dictIsRehashing d \<longleftrightarrow> d_rehashidx d \<noteq> - 1"

definition dictSize :: "('k, 'v) dict \<Rightarrow> nat" where
  "dictSize d = ht_used (d_ht0 d) + ht_used (d_ht1 d)"

definition dictHashKey :: "('k, 'v) dict \<Rightarrow> 'k \<Rightarrow> 64 word" where
  "dictHashKey d key = hashFunction (d_type d) key"

definition dictCompareKeys :: "('k, 'v) dict \<Rightarrow> 'k \<Rightarrow> 'k \<Rightarrow> bool" where
  "dictCompareKeys d key1 key2 = (case keyCompare (d_type d) of Some f \<Rightarrow> f key1 key2 | None \<Rightarrow> key1 = key2)"

subsection \<open>Tables\<close>

definition read_bucket :: "('k, 'v) dictht \<Rightarrow> nat \<Rightarrow> ('k, 'v) dictEntry list res" where
  "read_bucket t i =
     (if ht_table t = [] then Inl NullDeref else if i < length (ht_table t) then Inr (ht_table t ! i) else Inl OutOfBounds)"

definition write_bucket :: "nat \<Rightarrow> ('k, 'v) dictEntry list \<Rightarrow> ('k, 'v) dictht \<Rightarrow> ('k, 'v) dictht" where
  "write_bucket i b t = t\<lparr>ht_table := (ht_table t)[i := b]\<rparr>"

definition masked :: "64 word \<Rightarrow> ('k, 'v) dictht \<Rightarrow> nat" where
  "masked h t = unat (h AND of_nat (ht_sizemask t))"

definition ht_at :: "bool \<Rightarrow> ('k, 'v) dict \<Rightarrow> ('k, 'v) dictht" where
  "ht_at b d = (if b then d_ht1 d else d_ht0 d)"

definition set_ht :: "bool \<Rightarrow> ('k, 'v) dictht \<Rightarrow> ('k, 'v) dict \<Rightarrow> ('k, 'v) dict" where
  "set_ht b t d = (if b then d\<lparr>d_ht1 := t\<rparr> else d\<lparr>d_ht0 := t\<rparr>)"

definition dictReset :: "('k, 'v) dictht" where
  "dictReset = \<lparr>ht_table = [], ht_size = 0, ht_sizemask = 0, ht_used = 0\<rparr>"

definition dictCreate :: "'k dictType \<Rightarrow> ('k, 'v) dict" where
  "dictCreate type = \<lparr>d_type = type, d_ht0 = dictReset, d_ht1 = dictReset, d_rehashidx = - 1, d_iterators = 0\<rparr>"

subsection \<open>Resizing\<close>

text \<open>The loop starts at 4; the guard on zero only makes the recursion well-founded.\<close>

function next_power :: "nat \<Rightarrow> nat \<Rightarrow> nat" where
  "next_power i sz = (if sz \<le> i \<or> i = 0 then i else next_power (i * 2) sz)"
  by pat_completeness auto

termination next_power
  by (relation "measure (\<lambda>(i, sz). sz - i)") auto

declare next_power.simps [simp del]

definition dictNextPower :: "nat \<Rightarrow> nat" where
  "dictNextPower sz = (if LONG_MAX_nat \<le> sz then LONG_MAX_nat + 1 else next_power DICT_HT_INITIAL_SIZE sz)"

definition dictExpand :: "nat \<Rightarrow> ('k, 'v) dict \<Rightarrow> bool \<times> ('k, 'v) dict" where
  "dictExpand sz d =
     (let realsize = dictNextPower sz
      in if dictIsRehashing d \<or> ht_used (d_ht0 d) > sz then (False, d)
         else if realsize = ht_size (d_ht0 d) then (False, d)
         else
           let n = \<lparr>ht_table = replicate realsize [], ht_size = realsize, ht_sizemask = realsize - 1, ht_used = 0\<rparr>
           in if ht_table (d_ht0 d) = [] then (True, d\<lparr>d_ht0 := n\<rparr>)
              else (True, d\<lparr>d_ht1 := n, d_rehashidx := 0\<rparr>))"

text \<open>\<^verbatim>\<open>minimal\<close> is an \<^verbatim>\<open>int\<close>; a negative one becomes the initial size.\<close>

definition dictResize :: "dict_env \<Rightarrow> ('k, 'v) dict \<Rightarrow> bool \<times> ('k, 'v) dict" where
  "dictResize env d =
     (if \<not> dict_can_resize env \<or> dictIsRehashing d then (False, d)
      else
        let minimal = sint (of_nat (ht_used (d_ht0 d)) :: 32 word);
            minimal = (if minimal < int DICT_HT_INITIAL_SIZE then int DICT_HT_INITIAL_SIZE else minimal)
        in dictExpand (nat minimal) d)"

definition dictExpandIfNeeded :: "dict_env \<Rightarrow> ('k, 'v) dict \<Rightarrow> bool \<times> ('k, 'v) dict" where
  "dictExpandIfNeeded env d =
     (let t = d_ht0 d
      in if dictIsRehashing d then (True, d)
         else if ht_size t = 0 then dictExpand DICT_HT_INITIAL_SIZE d
         else if ht_used t \<ge> ht_size t \<and> (dict_can_resize env \<or> ht_used t div ht_size t > dict_force_resize_ratio env) then
           let min_2x = dictNextPower (ht_used t)
           in if min_2x > ht_used t \<and> 2 * min_2x - ht_used t > dict_expand_max_idle_size env
              then dictExpand (dictNextPower (ht_used t)) d
              else dictExpand (ht_used t * 2) d
         else (True, d))"

text \<open>
  Skipping empty buckets from the one at \<open>idx\<close> on, given those that follow. The result says whether a bucket
  with entries was found before the visits ran out.
\<close>

fun skip_empty :: "('k, 'v) dictEntry list list \<Rightarrow> int \<Rightarrow> int \<Rightarrow> (bool \<times> int \<times> int) res" where
  "skip_empty [] idx empty_visits = Inl OutOfBounds"
| "skip_empty (b # bs) idx empty_visits =
     (if b = [] then
        if empty_visits - 1 = 0 then Inr (False, idx + 1, 0) else skip_empty bs (idx + 1) (empty_visits - 1)
      else Inr (True, idx, empty_visits))"

text \<open>The entries of a bucket, pushed one by one on their buckets of the new table.\<close>

fun move_bucket :: "('k \<Rightarrow> 64 word) \<Rightarrow> ('k, 'v) dictEntry list \<Rightarrow> ('k, 'v) dictht \<times> ('k, 'v) dictht
   \<Rightarrow> (('k, 'v) dictht \<times> ('k, 'v) dictht) res" where
  "move_bucket hash [] (t0, t1) = Inr (t0, t1)"
| "move_bucket hash (de # des) (t0, t1) =
     (let h = masked (hash (fst de)) t1
      in bindE (read_bucket t1 h) (\<lambda>b.
         move_bucket hash des (t0\<lparr>ht_used := ht_used t0 - 1\<rparr>, (write_bucket h (de # b) t1)\<lparr>ht_used := ht_used t1 + 1\<rparr>)))"

fun rehash_loop :: "nat \<Rightarrow> int \<Rightarrow> ('k, 'v) dict \<Rightarrow> (bool \<times> ('k, 'v) dict) res" where
  "rehash_loop 0 empty_visits d = Inr (False, d)"
| "rehash_loop (Suc n) empty_visits d =
     (if ht_used (d_ht0 d) = 0 then Inr (False, d)
      else
        bindE (assertE (int (ht_size (d_ht0 d)) > d_rehashidx d)) (\<lambda>_.
        bindE (skip_empty (drop (nat (d_rehashidx d)) (ht_table (d_ht0 d))) (d_rehashidx d) empty_visits) (\<lambda>(found, idx, empty_visits).
        if \<not> found then Inr (True, d\<lparr>d_rehashidx := idx\<rparr>)
        else
          bindE (read_bucket (d_ht0 d) (nat idx)) (\<lambda>b.
          bindE (move_bucket (dictHashKey d) b (d_ht0 d, d_ht1 d)) (\<lambda>(t0, t1).
          rehash_loop n empty_visits
            (d\<lparr>d_ht0 := write_bucket (nat idx) [] t0, d_ht1 := t1, d_rehashidx := idx + 1\<rparr>))))))"

definition dictRehash :: "nat \<Rightarrow> ('k, 'v) dict \<Rightarrow> (bool \<times> ('k, 'v) dict) res" where
  "dictRehash n d =
     (if \<not> dictIsRehashing d then Inr (False, d)
      else
        bindE (rehash_loop n (int n * 10) d) (\<lambda>(early, d).
        if early then Inr (True, d)
        else if ht_used (d_ht0 d) = 0 then Inr (False, d\<lparr>d_ht0 := d_ht1 d, d_ht1 := dictReset, d_rehashidx := - 1\<rparr>)
        else Inr (True, d)))"

text \<open>The time that has passed is read after every round; \<^term>\<open>None\<close> when there are no more readings.\<close>

fun rehash_rounds :: "int \<Rightarrow> int list \<Rightarrow> nat \<Rightarrow> ('k, 'v) dict \<Rightarrow> (nat \<times> ('k, 'v) dict) option res" where
  "rehash_rounds ms readings rehashes d =
     bindE (dictRehash 100 d) (\<lambda>(more, d).
     if \<not> more then Inr (Some (rehashes, d))
     else
       case readings of
         [] \<Rightarrow> Inr None
       | t # readings \<Rightarrow>
           if t > ms then Inr (Some (rehashes + 100, d)) else rehash_rounds ms readings (rehashes + 100) d)"

definition dictRehashMilliseconds :: "int \<Rightarrow> int list \<Rightarrow> ('k, 'v) dict \<Rightarrow> (nat \<times> ('k, 'v) dict) option res" where
  "dictRehashMilliseconds ms readings d = rehash_rounds ms readings 0 d"

definition dictRehashStep :: "('k, 'v) dict \<Rightarrow> ('k, 'v) dict res" where
  "dictRehashStep d = (if d_iterators d = 0 then bindE (dictRehash 1 d) (\<lambda>(_, d). Inr d) else Inr d)"

definition rehash_if_needed :: "('k, 'v) dict \<Rightarrow> ('k, 'v) dict res" where
  "rehash_if_needed d = (if dictIsRehashing d then dictRehashStep d else Inr d)"

subsection \<open>Entries\<close>

fun find_pos :: "('k \<Rightarrow> bool) \<Rightarrow> ('k, 'v) dictEntry list \<Rightarrow> nat option" where
  "find_pos p [] = None"
| "find_pos p (he # hes) = (if p (fst he) then Some 0 else map_option Suc (find_pos p hes))"

text \<open>The loop over the two tables that \<open>dictFind\<close>, \<open>dictKeyIndex\<close> and \<open>dictGenericDelete\<close> share.\<close>

definition search_table :: "bool \<Rightarrow> 'k \<Rightarrow> 64 word \<Rightarrow> ('k, 'v) dict \<Rightarrow> entry_ref option res" where
  "search_table b key h d =
     (let idx = masked h (ht_at b d)
      in bindE (read_bucket (ht_at b d) idx) (\<lambda>he.
         Inr (map_option (\<lambda>pos. (b, idx, pos)) (find_pos (\<lambda>k. key = k \<or> dictCompareKeys d key k) he))))"

definition search_tables :: "'k \<Rightarrow> 64 word \<Rightarrow> ('k, 'v) dict \<Rightarrow> entry_ref option res" where
  "search_tables key h d =
     bindE (search_table False key h d) (\<lambda>r.
     case r of
       Some ref \<Rightarrow> Inr (Some ref)
     | None \<Rightarrow> if \<not> dictIsRehashing d then Inr None else search_table True key h d)"

definition dictFind :: "'k \<Rightarrow> ('k, 'v) dict \<Rightarrow> (entry_ref option \<times> ('k, 'v) dict) res" where
  "dictFind key d =
     (if ht_used (d_ht0 d) + ht_used (d_ht1 d) = 0 then Inr (None, d)
      else
        bindE (rehash_if_needed d) (\<lambda>d.
        bindE (search_tables key (dictHashKey d key) d) (\<lambda>r. Inr (r, d))))"

definition entry_at :: "entry_ref \<Rightarrow> ('k, 'v) dict \<Rightarrow> ('k, 'v) dictEntry res" where
  "entry_at = (\<lambda>(b, idx, pos) d.
     bindE (read_bucket (ht_at b d) idx) (\<lambda>he. if pos < length he then Inr (he ! pos) else Inl UseAfterFree))"

definition dictFetchValue :: "'k \<Rightarrow> ('k, 'v) dict \<Rightarrow> ('v option \<times> ('k, 'v) dict) res" where
  "dictFetchValue key d =
     bindE (dictFind key d) (\<lambda>(he, d).
     case he of
       None \<Rightarrow> Inr (None, d)
     | Some ref \<Rightarrow> bindE (entry_at ref d) (\<lambda>(_, v). if v = None then Inl UninitRead else Inr (v, d)))"

definition dictSetVal :: "entry_ref \<Rightarrow> 'v \<Rightarrow> ('k, 'v) dict \<Rightarrow> ('k, 'v) dict res" where
  "dictSetVal = (\<lambda>(b, idx, pos) val d.
     bindE (read_bucket (ht_at b d) idx) (\<lambda>he.
     if pos < length he
     then Inr (set_ht b (write_bucket idx (he[pos := (fst (he ! pos), Some val)]) (ht_at b d)) d)
     else Inl UseAfterFree))"

text \<open>The index for a new entry, or none with the entry that has the key already.\<close>

definition dictKeyIndex ::
  "dict_env \<Rightarrow> 'k \<Rightarrow> 64 word \<Rightarrow> ('k, 'v) dict \<Rightarrow> ((nat option \<times> entry_ref option) \<times> ('k, 'v) dict) res" where
  "dictKeyIndex env key hash d =
     (let (ok, d) = dictExpandIfNeeded env d
      in if \<not> ok then Inr ((None, None), d)
         else
           bindE (search_tables key hash d) (\<lambda>r.
           case r of
             Some ref \<Rightarrow> Inr ((None, Some ref), d)
           | None \<Rightarrow> Inr ((Some (masked hash (ht_at (dictIsRehashing d) d)), None), d)))"

definition dictAddRaw ::
  "dict_env \<Rightarrow> 'k \<Rightarrow> ('k, 'v) dict \<Rightarrow> ((entry_ref option \<times> entry_ref option) \<times> ('k, 'v) dict) res" where
  "dictAddRaw env key d =
     bindE (rehash_if_needed d) (\<lambda>d.
     bindE (dictKeyIndex env key (dictHashKey d key) d) (\<lambda>((index, existing), d).
     case index of
       None \<Rightarrow> Inr ((None, existing), d)
     | Some index \<Rightarrow>
         let b = dictIsRehashing d; ht = ht_at b d
         in bindE (read_bucket ht index) (\<lambda>next.
            Inr ((Some (b, index, 0), existing),
                 set_ht b ((write_bucket index ((key, None) # next) ht)\<lparr>ht_used := ht_used ht + 1\<rparr>) d))))"

definition dictAdd :: "dict_env \<Rightarrow> 'k \<Rightarrow> 'v \<Rightarrow> ('k, 'v) dict \<Rightarrow> (bool \<times> ('k, 'v) dict) res" where
  "dictAdd env key val d =
     bindE (dictAddRaw env key d) (\<lambda>((entry, _), d).
     case entry of
       None \<Rightarrow> Inr (False, d)
     | Some ref \<Rightarrow> bindE (dictSetVal ref val d) (\<lambda>d. Inr (True, d)))"

definition dictReplace :: "dict_env \<Rightarrow> 'k \<Rightarrow> 'v \<Rightarrow> ('k, 'v) dict \<Rightarrow> (bool \<times> ('k, 'v) dict) res" where
  "dictReplace env key val d =
     bindE (dictAddRaw env key d) (\<lambda>((entry, existing), d).
     case entry of
       Some ref \<Rightarrow> bindE (dictSetVal ref val d) (\<lambda>d. Inr (True, d))
     | None \<Rightarrow>
         (case existing of
            None \<Rightarrow> Inl NullDeref
          | Some ref \<Rightarrow> bindE (dictSetVal ref val d) (\<lambda>d. Inr (False, d))))"

definition dictAddOrFind :: "dict_env \<Rightarrow> 'k \<Rightarrow> ('k, 'v) dict \<Rightarrow> (entry_ref option \<times> ('k, 'v) dict) res" where
  "dictAddOrFind env key d =
     bindE (dictAddRaw env key d) (\<lambda>((entry, existing), d). Inr (if entry \<noteq> None then entry else existing, d))"

definition delete_at :: "entry_ref \<Rightarrow> ('k, 'v) dict \<Rightarrow> ('k, 'v) dict res" where
  "delete_at = (\<lambda>(b, idx, pos) d.
     let t = ht_at b d
     in bindE (read_bucket t idx) (\<lambda>he.
        Inr (set_ht b ((write_bucket idx (take pos he @ drop (Suc pos) he) t)\<lparr>ht_used := ht_used t - 1\<rparr>) d)))"

text \<open>The unlinked entry is returned; whether its memory is released at once makes no difference to the dictionary.\<close>

definition dictGenericDelete :: "'k \<Rightarrow> ('k, 'v) dict \<Rightarrow> (('k, 'v) dictEntry option \<times> ('k, 'v) dict) res" where
  "dictGenericDelete key d =
     (if ht_used (d_ht0 d) = 0 \<and> ht_used (d_ht1 d) = 0 then Inr (None, d)
      else
        bindE (rehash_if_needed d) (\<lambda>d.
        bindE (search_tables key (dictHashKey d key) d) (\<lambda>r.
        case r of
          None \<Rightarrow> Inr (None, d)
        | Some ref \<Rightarrow>
            bindE (entry_at ref d) (\<lambda>he.
            bindE (delete_at ref d) (\<lambda>d. Inr (Some he, d))))))"

definition dictDelete :: "'k \<Rightarrow> ('k, 'v) dict \<Rightarrow> (bool \<times> ('k, 'v) dict) res" where
  "dictDelete key d = bindE (dictGenericDelete key d) (\<lambda>(he, d). Inr (he \<noteq> None, d))"

definition dictUnlink :: "'k \<Rightarrow> ('k, 'v) dict \<Rightarrow> (('k, 'v) dictEntry option \<times> ('k, 'v) dict) res" where
  "dictUnlink key d = dictGenericDelete key d"

definition dictEmpty :: "('k, 'v) dict \<Rightarrow> ('k, 'v) dict" where
  "dictEmpty d = d\<lparr>d_ht0 := dictReset, d_ht1 := dictReset, d_rehashidx := - 1, d_iterators := 0\<rparr>"

subsection \<open>Scanning\<close>

text \<open>Reversing the bits of a word, by swapping halves of halving length.\<close>

function rev_loop :: "nat \<Rightarrow> 64 word \<Rightarrow> 64 word \<Rightarrow> 64 word" where
  "rev_loop s m v =
     (let s' = s div 2
      in if s' = 0 then v
         else
           let m = m XOR push_bit s' m; v = (drop_bit s' v AND m) OR (push_bit s' v AND NOT m)
           in rev_loop s' m v)"
  by pat_completeness auto

termination rev_loop
  by (relation "measure (\<lambda>(s, m, v). s)") auto

declare rev_loop.simps [simp del]

definition rev_bits :: "64 word \<Rightarrow> 64 word" where
  "rev_bits v = rev_loop 64 (NOT 0) v"

text \<open>
  The loop over the expansions of the cursor in the larger table, which collects the entries it emits. Not
  returning is \<^term>\<open>None\<close>.
\<close>

partial_function (option) scan_expand ::
  "('k, 'v) dictht \<Rightarrow> 64 word \<Rightarrow> 64 word \<Rightarrow> 64 word \<Rightarrow> ('k, 'v) dictEntry list \<Rightarrow> (('k, 'v) dictEntry list \<times> 64 word) res option" where
  "scan_expand t1 m0 m1 v out =
     (case read_bucket t1 (unat (v AND m1)) of
        Inl e \<Rightarrow> Some (Inl e)
      | Inr b \<Rightarrow>
          let v = (((v OR m0) + 1) AND NOT m0) OR (v AND m0)
          in if v AND (m0 XOR m1) = 0 then Some (Inr (out @ b, v)) else scan_expand t1 m0 m1 v (out @ b))"

declare scan_expand.simps [code]

definition scan_cursor :: "64 word \<Rightarrow> 64 word \<Rightarrow> 64 word" where
  "scan_cursor m0 v = rev_bits (rev_bits (v OR NOT m0) + 1)"

definition dictScan :: "64 word \<Rightarrow> ('k, 'v) dict \<Rightarrow> (('k, 'v) dictEntry list \<times> 64 word) res option" where
  "dictScan v d =
     (if dictSize d = 0 then Some (Inr ([], 0))
      else if \<not> dictIsRehashing d then
        let m0 = of_nat (ht_sizemask (d_ht0 d))
        in Some (bindE (read_bucket (d_ht0 d) (unat (v AND m0))) (\<lambda>de. Inr (de, scan_cursor m0 v)))
      else
        let (t0, t1) = (if ht_size (d_ht0 d) > ht_size (d_ht1 d) then (d_ht1 d, d_ht0 d) else (d_ht0 d, d_ht1 d));
            m0 = of_nat (ht_sizemask t0); m1 = of_nat (ht_sizemask t1)
        in case read_bucket t0 (unat (v AND m0)) of
             Inl e \<Rightarrow> Some (Inl e)
           | Inr de \<Rightarrow>
               (case scan_expand t1 m0 m1 v de of
                  None \<Rightarrow> None
                | Some r \<Rightarrow> Some (bindE r (\<lambda>(out, v). Inr (out, scan_cursor m0 v)))))"

end
