(* ===== verification/Dict_Map.thy ===== *)
theory Dict_Map
  imports Dict
begin

section \<open>Dictionaries are maps\<close>

text \<open>
  The invariant of a dictionary (\<open>dict_ok\<close>) and the map it stands for (\<open>dict_map\<close>). Rehashing, resizing and the
  lookups that trigger them keep both, whatever table an entry is in; adding, replacing and deleting change the
  map at one key. The contract is the locale \<open>map_store\<close>.
\<close>

subsection \<open>The invariant\<close>

definition ht_ok :: "('k \<Rightarrow> 64 word) \<Rightarrow> ('k, 'v) dictht \<Rightarrow> bool" where
  "ht_ok hash t \<longleftrightarrow> t = dictReset
     \<or> (\<exists>k < 64. ht_size t = 2 ^ k \<and> ht_sizemask t = 2 ^ k - 1 \<and> length (ht_table t) = 2 ^ k
          \<and> ht_used t = length (concat (ht_table t))
          \<and> (\<forall>i < 2 ^ k. \<forall>e \<in> set (ht_table t ! i). masked (hash (fst e)) t = i))"

definition entries :: "('k, 'v) dict \<Rightarrow> ('k, 'v) dictEntry list" where
  "entries d = concat (ht_table (d_ht0 d)) @ concat (ht_table (d_ht1 d))"

definition dict_map :: "('k, 'v) dict \<Rightarrow> 'k \<rightharpoonup> 'v option" where
  "dict_map d = map_of (entries d)"

definition type_ok :: "'k dictType \<Rightarrow> bool" where
  "type_ok type \<longleftrightarrow> pred_option (\<lambda>f. \<forall>a b. f a b \<longleftrightarrow> a = b) (keyCompare type)"

definition dict_ok :: "('k, 'v) dict \<Rightarrow> bool" where
  "dict_ok d \<longleftrightarrow> type_ok (d_type d) \<and> ht_ok (dictHashKey d) (d_ht0 d) \<and> ht_ok (dictHashKey d) (d_ht1 d)
     \<and> distinct (map fst (entries d))
     \<and> (if dictIsRehashing d
        then 0 \<le> d_rehashidx d \<and> ht_table (d_ht0 d) \<noteq> [] \<and> ht_table (d_ht1 d) \<noteq> []
          \<and> (\<forall>b \<in> set (take (nat (d_rehashidx d)) (ht_table (d_ht0 d))). b = [])
        else d_ht1 d = dictReset)"

lemma dictReset_simps [simp]:
  "ht_table dictReset = []" "ht_size dictReset = 0" "ht_sizemask dictReset = 0" "ht_used dictReset = 0"
  by (simp_all add: dictReset_def)

lemma dictHashKey_fields [simp]:
  "dictHashKey (d\<lparr>d_ht0 := t\<rparr>) = dictHashKey d" "dictHashKey (d\<lparr>d_ht1 := t\<rparr>) = dictHashKey d"
  "dictHashKey (d\<lparr>d_rehashidx := i\<rparr>) = dictHashKey d" "dictHashKey (d\<lparr>d_iterators := n\<rparr>) = dictHashKey d"
  by (simp_all add: dictHashKey_def fun_eq_iff)

lemma ht_ok_reset [simp]: "ht_ok hash dictReset"
  by (simp add: ht_ok_def)

lemma ht_ok_used: "ht_ok hash t \<Longrightarrow> ht_used t = length (concat (ht_table t))"
  by (auto simp: ht_ok_def)

lemma ht_ok_size: "ht_ok hash t \<Longrightarrow> ht_size t = length (ht_table t)"
  by (auto simp: ht_ok_def)

lemma masked_less:
  assumes "ht_ok hash t" and "ht_table t \<noteq> []"
  shows "masked h t < length (ht_table t)"
proof -
  obtain k where k: "k < 64" "ht_sizemask t = 2 ^ k - 1" "length (ht_table t) = 2 ^ k"
    using assms by (auto simp: ht_ok_def)
  have "(of_nat (ht_sizemask t) :: 64 word) = mask k" using k(2) by (simp add: mask_eq_exp_minus_1)
  then have "masked h t = unat (take_bit k h)" by (simp add: masked_def take_bit_eq_mask)
  also have "\<dots> < 2 ^ k" by (simp add: unsigned_take_bit_eq)
  finally show ?thesis using k(3) by simp
qed

lemma ht_ok_bucket: "ht_ok hash t \<Longrightarrow> i < length (ht_table t) \<Longrightarrow> e \<in> set (ht_table t ! i) \<Longrightarrow> masked (hash (fst e)) t = i"
  by (auto simp: ht_ok_def)

lemma read_bucket_ok: "i < length (ht_table t) \<Longrightarrow> read_bucket t i = Inr (ht_table t ! i)"
  by (auto simp: read_bucket_def)

lemma map_of_concat_at:
  assumes "i < length bs" and "\<And>j e. j < length bs \<Longrightarrow> j \<noteq> i \<Longrightarrow> e \<in> set (bs ! j) \<Longrightarrow> fst e \<noteq> k"
  shows "map_of (concat bs) k = map_of (bs ! i) k"
  using assms
proof (induction bs arbitrary: i)
  case (Cons b bs)
  show ?case
  proof (cases i)
    case 0
    have "map_of (concat bs) k = None"
      using Cons.prems(2) [of "Suc _"] 0 by (force simp: map_of_eq_None_iff in_set_conv_nth)
    with 0 show ?thesis by (simp add: map_add_def split: option.split)
  next
    case (Suc j)
    have "map_of b k = None" using Cons.prems(2) [of 0] Suc by (auto simp: map_of_eq_None_iff)
    then have "map_of (concat (b # bs)) k = map_of (concat bs) k" by (simp add: map_add_def split: option.split)
    with Cons.IH [of j] Cons.prems Suc show ?thesis by (metis Suc_less_eq length_Cons nat.inject nth_Cons_Suc)
  qed
qed simp

lemma bucket_map:
  assumes "ht_ok hash t" and "ht_table t \<noteq> []"
  shows "map_of (concat (ht_table t)) key = map_of (ht_table t ! masked (hash key) t) key"
  using masked_less [OF assms] ht_ok_bucket [OF assms(1)] by (intro map_of_concat_at) metis+

subsection \<open>Looking up\<close>

lemma find_pos_Some:
  "find_pos p es = Some i \<Longrightarrow> i < length es \<and> p (fst (es ! i))"
  by (induction es arbitrary: i) (auto split: if_splits)

lemma find_pos_None: "find_pos p es = None \<longleftrightarrow> (\<forall>e \<in> set es. \<not> p (fst e))"
  by (induction es) auto

lemma find_pos_map:
  "map_of es k = (case find_pos (\<lambda>k'. k = k') es of None \<Rightarrow> None | Some i \<Rightarrow> Some (snd (es ! i)))"
  by (induction es) (auto split: option.split)

lemma same_key: "type_ok (d_type d) \<Longrightarrow> (key = k \<or> dictCompareKeys d key k) \<longleftrightarrow> key = k"
  by (auto simp: dictCompareKeys_def type_ok_def split: option.split)

text \<open>Where an entry is, as a relation: what a search returns.\<close>

definition points :: "('k, 'v) dict \<Rightarrow> entry_ref \<Rightarrow> 'k \<Rightarrow> 'v option \<Rightarrow> bool" where
  "points d = (\<lambda>(b, idx, pos) key v. idx < length (ht_table (ht_at b d)) \<and> pos < length (ht_table (ht_at b d) ! idx)
     \<and> ht_table (ht_at b d) ! idx ! pos = (key, v))"

lemma search_table_spec:
  assumes "type_ok (d_type d)" and "ht_ok (dictHashKey d) (ht_at b d)" and "ht_table (ht_at b d) \<noteq> []"
  shows "\<exists>r. search_table b key (dictHashKey d key) d = Inr r
     \<and> (case r of None \<Rightarrow> map_of (concat (ht_table (ht_at b d))) key = None
         | Some ref \<Rightarrow> \<exists>v. points d ref key v \<and> map_of (concat (ht_table (ht_at b d))) key = Some v)"
proof -
  let ?t = "ht_at b d" and ?idx = "masked (dictHashKey d key) (ht_at b d)"
  have i: "?idx < length (ht_table ?t)" by (rule masked_less [OF assms(2,3)])
  have eq: "(\<lambda>k. key = k \<or> dictCompareKeys d key k) = (\<lambda>k. key = k)" using same_key [OF assms(1)] by blast
  have "search_table b key (dictHashKey d key) d
      = Inr (map_option (\<lambda>pos. (b, ?idx, pos)) (find_pos (\<lambda>k. key = k) (ht_table ?t ! ?idx)))"
    by (simp add: search_table_def Let_def read_bucket_ok [OF i] eq)
  then show ?thesis
    using i bucket_map [OF assms(2,3), of key] find_pos_map [of "ht_table ?t ! ?idx" key]
    by (cases "find_pos (\<lambda>k. key = k) (ht_table ?t ! ?idx)") (auto simp: points_def dest!: find_pos_Some intro!: prod_eqI)
qed

lemma dict_okD:
  assumes "dict_ok d"
  shows "type_ok (d_type d)" "ht_ok (dictHashKey d) (ht_at b d)" "distinct (map fst (entries d))"
    "dictIsRehashing d \<Longrightarrow> ht_table (ht_at b d) \<noteq> []" "\<not> dictIsRehashing d \<Longrightarrow> d_ht1 d = dictReset"
  using assms by (auto simp: dict_ok_def ht_at_def split: if_splits)

lemma entries_map: "dict_map d k = (case map_of (concat (ht_table (d_ht0 d))) k of None \<Rightarrow> map_of (concat (ht_table (d_ht1 d))) k | Some v \<Rightarrow> Some v)"
  by (simp add: dict_map_def entries_def map_add_def)

lemma search_tables_spec:
  assumes "dict_ok d" and "ht_table (d_ht0 d) \<noteq> []"
  shows "\<exists>r. search_tables key (dictHashKey d key) d = Inr r
     \<and> (case r of None \<Rightarrow> dict_map d key = None | Some ref \<Rightarrow> \<exists>v. points d ref key v \<and> dict_map d key = Some v)"
proof -
  note ok = dict_okD [OF assms(1)]
  have t0: "ht_at False d = d_ht0 d" and t1: "ht_at True d = d_ht1 d" by (simp_all add: ht_at_def)
  obtain r where r: "search_table False key (dictHashKey d key) d = Inr r"
      "case r of None \<Rightarrow> map_of (concat (ht_table (d_ht0 d))) key = None
       | Some ref \<Rightarrow> \<exists>v. points d ref key v \<and> map_of (concat (ht_table (d_ht0 d))) key = Some v"
    using search_table_spec [OF ok(1,2), of False key] assms(2) unfolding t0 by blast
  show ?thesis
  proof (cases r)
    case (Some ref)
    with r show ?thesis by (auto simp: search_tables_def entries_map)
  next
    case None
    show ?thesis
    proof (cases "dictIsRehashing d")
      case True
      with None r search_table_spec [OF ok(1) ok(2) ok(4) [OF True], of True key] show ?thesis
        by (auto simp: search_tables_def entries_map t1 split: option.splits)
    next
      case False
      with None r ok(5) [OF False] show ?thesis by (simp add: search_tables_def entries_map)
    qed
  qed
qed

subsection \<open>Rehashing\<close>

lemma mset_concat_update:
  "i < length bs \<Longrightarrow> mset (concat (bs[i := b])) + mset (bs ! i) = mset (concat bs) + mset b"
proof (induction bs arbitrary: i)
  case (Cons c bs)
  show ?case
  proof (cases i)
    case (Suc j)
    with Cons.IH [of j] Cons.prems show ?thesis by (simp add: ac_simps)
  qed (simp add: ac_simps)
qed simp

lemma masked_fields [simp]:
  "masked h (t\<lparr>ht_table := x\<rparr>) = masked h t" "masked h (t\<lparr>ht_used := u\<rparr>) = masked h t" "masked h (write_bucket i b t) = masked h t"
  by (simp_all add: masked_def write_bucket_def)

lemma write_bucket_simps [simp]:
  "ht_table (write_bucket i b t) = (ht_table t)[i := b]" "ht_size (write_bucket i b t) = ht_size t"
  "ht_sizemask (write_bucket i b t) = ht_sizemask t" "ht_used (write_bucket i b t) = ht_used t"
  by (simp_all add: write_bucket_def)

lemma write_bucket_used: "write_bucket i b (t\<lparr>ht_used := u\<rparr>) = (write_bucket i b t)\<lparr>ht_used := u\<rparr>"
  by (simp add: write_bucket_def)

lemma ht_ok_write:
  assumes "ht_ok hash t" and "i < length (ht_table t)" and "\<And>e. e \<in> set b \<Longrightarrow> masked (hash (fst e)) t = i"
    and "u = length (concat ((ht_table t)[i := b]))"
  shows "ht_ok hash ((write_bucket i b t)\<lparr>ht_used := u\<rparr>)"
proof -
  obtain k where k: "k < 64" "ht_size t = 2 ^ k" "ht_sizemask t = 2 ^ k - 1" "length (ht_table t) = 2 ^ k"
      "\<forall>i < 2 ^ k. \<forall>e \<in> set (ht_table t ! i). masked (hash (fst e)) t = i"
    using assms(1,2) by (auto simp: ht_ok_def)
  have "\<forall>j < 2 ^ k. \<forall>e \<in> set ((ht_table t)[i := b] ! j). masked (hash (fst e)) t = j"
    using k assms(2,3) by (auto simp: nth_list_update)
  with k assms(4) show ?thesis unfolding ht_ok_def by (intro disjI2 exI [of _ k]) simp
qed

lemma length_mset: "mset xs = mset ys \<Longrightarrow> length xs = length ys"
  by (metis size_mset)

lemma move_bucket_spec:
  assumes "ht_ok hash t1" and "ht_table t1 \<noteq> []"
  shows "\<exists>t1'. move_bucket hash es (t0, t1) = Inr (t0\<lparr>ht_used := ht_used t0 - length es\<rparr>, t1') \<and> ht_ok hash t1'
     \<and> mset (concat (ht_table t1')) = mset es + mset (concat (ht_table t1)) \<and> length (ht_table t1') = length (ht_table t1)"
  using assms
proof (induction es arbitrary: t0 t1)
  case Nil
  have "t0\<lparr>ht_used := ht_used t0\<rparr> = t0" by simp
  with Nil show ?case by simp
next
  case (Cons e es)
  let ?h = "masked (hash (fst e)) t1"
  let ?t = "(write_bucket ?h (e # ht_table t1 ! ?h) t1)\<lparr>ht_used := ht_used t1 + 1\<rparr>"
  have h: "?h < length (ht_table t1)" by (rule masked_less [OF Cons.prems])
  have ms: "mset (concat (ht_table ?t)) = add_mset e (mset (concat (ht_table t1)))"
    using mset_concat_update [OF h, of "e # ht_table t1 ! ?h"] by simp
  have "ht_ok hash ?t"
    using ht_ok_bucket [OF Cons.prems(1) h] ht_ok_used [OF Cons.prems(1)] arg_cong [OF ms, of size]
    by (intro ht_ok_write [OF Cons.prems(1) h]) auto
  from Cons.IH [OF this, of "t0\<lparr>ht_used := ht_used t0 - 1\<rparr>"] Cons.prems(2) ms show ?case
    by (simp add: read_bucket_ok [OF h] Let_def)
qed

lemma skip_empty_spec:
  assumes "b \<in> set bs" and "b \<noteq> []"
  shows "\<exists>found j ev'. skip_empty bs idx ev = Inr (found, idx + int j, ev') \<and> j \<le> length bs \<and> (\<forall>b \<in> set (take j bs). b = [])
     \<and> (if found then j < length bs \<and> bs ! j \<noteq> [] else 0 < j)"
  using assms(1)
proof (induction bs arbitrary: idx ev)
  case (Cons c bs)
  show ?case
  proof (cases "c = []")
    case False
    then show ?thesis by (intro exI [of _ True] exI [of _ "0 :: nat"] exI [of _ ev]) simp
  next
    case True
    show ?thesis
    proof (cases "ev = 1")
      case True
      with \<open>c = []\<close> show ?thesis by (intro exI [of _ False] exI [of _ "1 :: nat"] exI [of _ "0 :: int"]) simp
    next
      case False
      have "b \<in> set bs" using Cons.prems assms(2) \<open>c = []\<close> by auto
      from Cons.IH [OF this, of "idx + 1" "ev - 1"] obtain found j ev' where
          "skip_empty bs (idx + 1) (ev - 1) = Inr (found, idx + 1 + int j, ev')" "j \<le> length bs" "\<forall>b \<in> set (take j bs). b = []"
          "if found then j < length bs \<and> bs ! j \<noteq> [] else 0 < j" by blast
      with False \<open>c = []\<close> show ?thesis
        by (intro exI [of _ found] exI [of _ "Suc j"] exI [of _ ev']) (auto simp: ac_simps split: if_splits)
    qed
  qed
qed simp

text \<open>The state while entries move: the invariant of a rehashing dictionary, and what a step keeps.\<close>

definition moved :: "('k, 'v) dict \<Rightarrow> ('k, 'v) dict \<Rightarrow> bool" where
  "moved d d' \<longleftrightarrow> dict_ok d' \<and> mset (entries d') = mset (entries d) \<and> d_type d' = d_type d \<and> d_iterators d' = d_iterators d"

lemma moved_trans: "moved d d' \<Longrightarrow> moved d' d'' \<Longrightarrow> moved d d''"
  by (simp add: moved_def)

lemma moved_refl: "dict_ok d \<Longrightarrow> moved d d"
  by (simp add: moved_def)

lemma moved_map:
  assumes "moved d d'" and "dict_ok d"
  shows "dict_map d' = dict_map d"
proof -
  have "set (entries d') = set (entries d)" using assms(1) unfolding moved_def by (metis set_mset_mset)
  then show ?thesis
    using assms map_of_inject_set [of "entries d'" "entries d"] by (simp add: moved_def dict_ok_def dict_map_def)
qed

lemma same_mset_distinct: "mset xs = mset ys \<Longrightarrow> distinct (map fst xs) = distinct (map fst ys)"
  by (metis distinct_count_atmost_1 mset_map set_mset_mset list.set_map)

lemma unmoved_bucket:
  assumes "dict_ok d" and "dictIsRehashing d" and "ht_used (d_ht0 d) \<noteq> 0"
  shows "\<exists>b \<in> set (drop (nat (d_rehashidx d)) (ht_table (d_ht0 d))). b \<noteq> []" "d_rehashidx d < int (ht_size (d_ht0 d))"
proof -
  let ?n = "nat (d_rehashidx d)" and ?t = "ht_table (d_ht0 d)"
  have ok: "ht_ok (dictHashKey d) (d_ht0 d)" and e: "\<forall>b \<in> set (take ?n ?t). b = []" and n: "0 \<le> d_rehashidx d"
    using assms(1,2) by (simp_all add: dict_ok_def)
  have "concat ?t \<noteq> []" using assms(3) ht_ok_used [OF ok] by auto
  then obtain b where "b \<in> set ?t" "b \<noteq> []" by auto
  moreover have "set ?t = set (take ?n ?t) \<union> set (drop ?n ?t)" by (metis append_take_drop_id set_append)
  ultimately show *: "\<exists>b \<in> set (drop ?n ?t). b \<noteq> []" using e by blast
  then have "drop ?n ?t \<noteq> []" by auto
  then show "d_rehashidx d < int (ht_size (d_ht0 d))" using n ht_ok_size [OF ok] by simp
qed

lemma rehash_bucket:
  assumes "dict_ok d" and "dictIsRehashing d" and "idx < length (ht_table (d_ht0 d))" and "\<forall>b \<in> set (take idx (ht_table (d_ht0 d))). b = []"
  shows "\<exists>t0 t1. move_bucket (dictHashKey d) (ht_table (d_ht0 d) ! idx) (d_ht0 d, d_ht1 d) = Inr (t0, t1)
     \<and> moved d (d\<lparr>d_ht0 := write_bucket idx [] t0, d_ht1 := t1, d_rehashidx := int idx + 1\<rparr>)
     \<and> length (ht_table t0) = length (ht_table (d_ht0 d))"
proof -
  let ?b = "ht_table (d_ht0 d) ! idx"
  note ok = dict_okD [OF assms(1)]
  have ok0: "ht_ok (dictHashKey d) (d_ht0 d)" and ok1: "ht_ok (dictHashKey d) (d_ht1 d)" and ne: "ht_table (d_ht1 d) \<noteq> []"
    using ok(2) [of False] ok(2) [of True] ok(4) [OF assms(2), of True] by (simp_all add: ht_at_def)
  obtain t1 where m: "move_bucket (dictHashKey d) ?b (d_ht0 d, d_ht1 d)
        = Inr ((d_ht0 d)\<lparr>ht_used := ht_used (d_ht0 d) - length ?b\<rparr>, t1)"
      and t1: "ht_ok (dictHashKey d) t1" "mset (concat (ht_table t1)) = mset ?b + mset (concat (ht_table (d_ht1 d)))"
        "length (ht_table t1) = length (ht_table (d_ht1 d))"
    using move_bucket_spec [OF ok1 ne] by blast
  let ?t0 = "(d_ht0 d)\<lparr>ht_used := ht_used (d_ht0 d) - length ?b\<rparr>"
  let ?d = "d\<lparr>d_ht0 := write_bucket idx [] ?t0, d_ht1 := t1, d_rehashidx := int idx + 1\<rparr>"
  have ms: "mset (concat ((ht_table (d_ht0 d))[idx := []])) + mset ?b = mset (concat (ht_table (d_ht0 d)))"
    using mset_concat_update [OF assms(3), of "[]"] by simp
  have "ht_used (d_ht0 d) - length ?b = length (concat ((ht_table (d_ht0 d))[idx := []]))"
    using arg_cong [OF ms, of size] ht_ok_used [OF ok0] by simp
  then have t0: "ht_ok (dictHashKey d) (write_bucket idx [] ?t0)"
    using ht_ok_write [OF ok0 assms(3), of "[]"] by (simp add: write_bucket_used)
  have e: "mset (entries ?d) = mset (entries d)" using ms t1(2) by (simp add: entries_def ac_simps flip: ms)
  have "\<forall>b \<in> set (take (Suc idx) ((ht_table (d_ht0 d))[idx := []])). b = []"
    using assms(3,4) by (simp add: take_Suc_conv_app_nth)
  then have "dict_ok ?d"
    using ok(1,3) t0 t1 ne same_mset_distinct [OF e] assms(2) ok(4) [OF assms(2), of False]
    by (auto simp: dict_ok_def dictIsRehashing_def ht_at_def nat_add_distrib)
  with m e show ?thesis by (intro exI [of _ ?t0] exI [of _ t1]) (simp add: moved_def)
qed

definition ahead :: "('k, 'v) dict \<Rightarrow> ('k, 'v) dict \<Rightarrow> bool" where
  "ahead d d' \<longleftrightarrow> moved d d' \<and> dictIsRehashing d' \<and> d_rehashidx d \<le> d_rehashidx d'
     \<and> length (ht_table (d_ht0 d')) = length (ht_table (d_ht0 d))"

lemma ahead_trans: "ahead d d' \<Longrightarrow> ahead d' d'' \<Longrightarrow> ahead d d''"
  by (auto simp: ahead_def dest: moved_trans)

lemma skip_from:
  assumes "dict_ok d" and "dictIsRehashing d" and "ht_used (d_ht0 d) \<noteq> 0"
  shows "\<exists>found idx ev'. skip_empty (drop (nat (d_rehashidx d)) (ht_table (d_ht0 d))) (d_rehashidx d) ev = Inr (found, int idx, ev')
     \<and> nat (d_rehashidx d) \<le> idx \<and> idx \<le> length (ht_table (d_ht0 d)) \<and> (\<forall>b \<in> set (take idx (ht_table (d_ht0 d))). b = [])
     \<and> (if found then idx < length (ht_table (d_ht0 d)) else d_rehashidx d < int idx)"
proof -
  let ?n = "nat (d_rehashidx d)" and ?t = "ht_table (d_ht0 d)"
  have n: "0 \<le> d_rehashidx d" "\<forall>b \<in> set (take ?n ?t). b = []" "?n < length ?t"
    using assms(1,2) unmoved_bucket(2) [OF assms] ht_ok_size [of "dictHashKey d" "d_ht0 d"] by (simp_all add: dict_ok_def nat_less_iff)
  obtain b where "b \<in> set (drop ?n ?t)" "b \<noteq> []" using unmoved_bucket [OF assms] by blast
  from skip_empty_spec [OF this, of "d_rehashidx d" ev] obtain found j ev' where j:
      "skip_empty (drop ?n ?t) (d_rehashidx d) ev = Inr (found, d_rehashidx d + int j, ev')"
      "j \<le> length (drop ?n ?t)" "\<forall>b \<in> set (take j (drop ?n ?t)). b = []"
      "if found then j < length (drop ?n ?t) \<and> drop ?n ?t ! j \<noteq> [] else 0 < j" by blast
  have "take (?n + j) ?t = take ?n ?t @ take j (drop ?n ?t)" by (rule take_add)
  then have e: "\<forall>b \<in> set (take (?n + j) ?t). b = []" using n(2) j(3) by auto
  have eq: "d_rehashidx d + int j = int (?n + j)" using n(1) by simp
  show ?thesis
    using j(1,2,4) e n(1,3) unfolding eq by (intro exI [of _ found] exI [of _ "?n + j"] exI [of _ ev']) (auto split: if_splits)
qed

lemma rehash_loop_spec:
  assumes "dict_ok d" and "dictIsRehashing d"
  shows "\<exists>early d'. rehash_loop n ev d = Inr (early, d') \<and> ahead d d' \<and> (early \<longrightarrow> ht_used (d_ht0 d') \<noteq> 0)
     \<and> (n = 0 \<or> ht_used (d_ht0 d') = 0 \<or> d_rehashidx d < d_rehashidx d')"
  using assms
proof (induction n arbitrary: ev d)
  case 0
  then show ?case by (intro exI [of _ False] exI [of _ d]) (simp add: ahead_def moved_refl)
next
  case (Suc n)
  show ?case
  proof (cases "ht_used (d_ht0 d) = 0")
    case True
    with Suc.prems show ?thesis by (intro exI [of _ False] exI [of _ d]) (simp add: ahead_def moved_refl)
  next
    case False
    have n: "0 \<le> d_rehashidx d" using Suc.prems by (simp add: dict_ok_def)
    note lt = unmoved_bucket(2) [OF Suc.prems False]
    obtain found idx ev' where s: "skip_empty (drop (nat (d_rehashidx d)) (ht_table (d_ht0 d))) (d_rehashidx d) ev = Inr (found, int idx, ev')"
        and i: "nat (d_rehashidx d) \<le> idx" "idx \<le> length (ht_table (d_ht0 d))" "\<forall>b \<in> set (take idx (ht_table (d_ht0 d))). b = []"
          "if found then idx < length (ht_table (d_ht0 d)) else d_rehashidx d < int idx"
      using skip_from [OF Suc.prems False] by blast
    show ?thesis
    proof (cases found)
      case False
      have "dict_ok (d\<lparr>d_rehashidx := int idx\<rparr>)" "entries (d\<lparr>d_rehashidx := int idx\<rparr>) = entries d"
        using Suc.prems i by (auto simp: dict_ok_def dictIsRehashing_def entries_def)
      then have "ahead d (d\<lparr>d_rehashidx := int idx\<rparr>)" using i n by (simp add: ahead_def moved_def dictIsRehashing_def)
      with False s lt i \<open>ht_used (d_ht0 d) \<noteq> 0\<close> show ?thesis
        by (intro exI [of _ True] exI [of _ "d\<lparr>d_rehashidx := int idx\<rparr>"]) simp
    next
      case True
      then have il: "idx < length (ht_table (d_ht0 d))" using i by simp
      obtain t0 t1 where m: "move_bucket (dictHashKey d) (ht_table (d_ht0 d) ! idx) (d_ht0 d, d_ht1 d) = Inr (t0, t1)"
          and mv: "moved d (d\<lparr>d_ht0 := write_bucket idx [] t0, d_ht1 := t1, d_rehashidx := int idx + 1\<rparr>)" (is "moved d ?d")
          and len: "length (ht_table t0) = length (ht_table (d_ht0 d))"
        using rehash_bucket [OF Suc.prems il i(3)] by blast
      have a: "ahead d ?d" using mv len i(1) n by (simp add: ahead_def dictIsRehashing_def)
      then have "dict_ok ?d" "dictIsRehashing ?d" by (simp_all add: ahead_def moved_def)
      from Suc.IH [OF this, of ev'] obtain early d' where r: "rehash_loop n ev' ?d = Inr (early, d')" "ahead ?d d'"
          "early \<longrightarrow> ht_used (d_ht0 d') \<noteq> 0" by blast
      have "d_rehashidx d < d_rehashidx d'" using r(2) i(1) n by (auto simp: ahead_def nat_le_iff)
      with r(3) ahead_trans [OF a r(2)] show ?thesis
        using True s lt r(1) m False by (simp add: read_bucket_ok [OF il])
    qed
  qed
qed

lemma dictRehash_spec:
  assumes "dict_ok d"
  shows "\<exists>more d'. dictRehash n d = Inr (more, d') \<and> moved d d' \<and> (more \<longleftrightarrow> dictIsRehashing d')
     \<and> (dictIsRehashing d' \<longrightarrow> dictIsRehashing d \<and> length (ht_table (d_ht0 d')) = length (ht_table (d_ht0 d))
          \<and> ht_used (d_ht0 d') \<noteq> 0 \<and> (0 < n \<longrightarrow> d_rehashidx d < d_rehashidx d'))"
proof (cases "dictIsRehashing d")
  case False
  with assms show ?thesis by (intro exI [of _ False] exI [of _ d]) (simp add: dictRehash_def moved_refl)
next
  case True
  from rehash_loop_spec [OF assms True, of n "int n * 10"] obtain early d1 where
      r: "rehash_loop n (int n * 10) d = Inr (early, d1)" and a: "ahead d d1" and e: "early \<longrightarrow> ht_used (d_ht0 d1) \<noteq> 0"
      and p: "n = 0 \<or> ht_used (d_ht0 d1) = 0 \<or> d_rehashidx d < d_rehashidx d1" by blast
  have d1: "dict_ok d1" "dictIsRehashing d1" and mv: "moved d d1" using a by (simp_all add: ahead_def moved_def)
  show ?thesis
  proof (cases "ht_used (d_ht0 d1) = 0")
    case True
    let ?d = "d1\<lparr>d_ht0 := d_ht1 d1, d_ht1 := dictReset, d_rehashidx := - 1\<rparr>"
    have "concat (ht_table (d_ht0 d1)) = []"
      using True d1(1) ht_ok_used [of "dictHashKey d1" "d_ht0 d1"] by (simp add: dict_ok_def)
    then have en: "entries ?d = entries d1" by (simp add: entries_def)
    have "dict_ok ?d" using d1 en by (simp add: dict_ok_def dictIsRehashing_def ht_ok_def)
    then have "moved d1 ?d" using en by (simp add: moved_def)
    from moved_trans [OF mv this] True e \<open>dictIsRehashing d\<close> r show ?thesis
      by (intro exI [of _ False] exI [of _ ?d]) (auto simp: dictRehash_def, simp_all add: dictIsRehashing_def)
  next
    case False
    with \<open>dictIsRehashing d\<close> r a mv d1 p show ?thesis by (auto simp: dictRehash_def ahead_def)
  qed
qed

lemma rehash_if_needed_spec: "dict_ok d \<Longrightarrow> \<exists>d'. rehash_if_needed d = Inr d' \<and> moved d d'"
  using dictRehash_spec [of d 1] by (auto simp: rehash_if_needed_def dictRehashStep_def moved_refl)

lemma table0_entries: "dict_ok d \<Longrightarrow> entries d \<noteq> [] \<Longrightarrow> ht_table (d_ht0 d) \<noteq> []"
  by (auto simp: dict_ok_def entries_def split: if_splits)

lemma dictSize_entries: "dict_ok d \<Longrightarrow> dictSize d = length (entries d)"
  using ht_ok_used [of "dictHashKey d" "d_ht0 d"] ht_ok_used [of "dictHashKey d" "d_ht1 d"]
  by (simp add: dictSize_def entries_def dict_ok_def)

lemma moved_entries: "moved d d' \<Longrightarrow> length (entries d') = length (entries d)"
  unfolding moved_def by (metis size_mset)

subsection \<open>Resizing\<close>

lemma next_power_pow2: "\<exists>k. next_power (2 ^ j) sz = 2 ^ k \<and> sz \<le> 2 ^ k \<and> j \<le> k \<and> (k = j \<or> 2 ^ (k - 1) < sz)"
proof (induction "sz - 2 ^ j" arbitrary: j rule: less_induct)
  case less
  show ?case
  proof (cases "sz \<le> 2 ^ j")
    case True
    then show ?thesis by (intro exI [of _ j]) (simp add: next_power.simps)
  next
    case False
    have "(0 :: nat) < 2 ^ j" by simp
    then have "sz - 2 ^ Suc j < sz - 2 ^ j" using False unfolding power_Suc by linarith
    from less [OF this] obtain k where k: "next_power (2 ^ Suc j) sz = 2 ^ k" "sz \<le> 2 ^ k" "Suc j \<le> k" "k = Suc j \<or> 2 ^ (k - 1) < sz"
      by blast
    have "next_power (2 ^ j) sz = next_power (2 ^ Suc j) sz" using False by (subst next_power.simps) (simp add: mult.commute)
    with k False show ?thesis by (intro exI [of _ k]) auto
  qed
qed

lemma dictNextPower_pow2:
  "\<exists>k. 2 \<le> k \<and> k < 64 \<and> dictNextPower sz = 2 ^ k \<and> (sz < LONG_MAX_nat \<longrightarrow> sz \<le> 2 ^ k \<and> (k = 2 \<or> 2 ^ (k - 1) < sz))"
proof (cases "LONG_MAX_nat \<le> sz")
  case True
  then show ?thesis by (intro exI [of _ 63]) (simp add: dictNextPower_def)
next
  case False
  obtain k where k: "next_power (2 ^ 2) sz = 2 ^ k" "sz \<le> 2 ^ k" "2 \<le> k" "k = 2 \<or> 2 ^ (k - 1) < sz"
    using next_power_pow2 [of 2 sz] by blast
  have "k < 64"
  proof (rule ccontr)
    assume "\<not> k < 64"
    then have "(2 :: nat) ^ 63 \<le> 2 ^ (k - 1)" by (intro power_increasing) auto
    with k(4) False \<open>\<not> k < 64\<close> show False by auto
  qed
  with k False show ?thesis by (intro exI [of _ k]) (simp add: dictNextPower_def)
qed

lemma ht_ok_fresh:
  "k < 64 \<Longrightarrow> ht_ok hash \<lparr>ht_table = replicate (2 ^ k) [], ht_size = 2 ^ k, ht_sizemask = 2 ^ k - 1, ht_used = 0\<rparr>"
  unfolding ht_ok_def by (intro disjI2 exI [of _ k]) simp

lemma dictExpand_spec:
  assumes "dict_ok d" and "dictExpand sz d = (ok, d')"
  shows "moved d d'" "ok \<longleftrightarrow> \<not> dictIsRehashing d \<and> ht_used (d_ht0 d) \<le> sz \<and> dictNextPower sz \<noteq> ht_size (d_ht0 d)"
    "ok \<Longrightarrow> ht_table (d_ht0 d') \<noteq> []"
proof -
  obtain k where k: "k < 64" "dictNextPower sz = 2 ^ k" using dictNextPower_pow2 [of sz] by blast
  let ?n = "\<lparr>ht_table = replicate (2 ^ k) [], ht_size = 2 ^ k, ht_sizemask = 2 ^ k - 1, ht_used = 0\<rparr>"
  consider "d' = d" "\<not> ok" "dictIsRehashing d \<or> ht_used (d_ht0 d) > sz \<or> dictNextPower sz = ht_size (d_ht0 d)"
    | "d' = d\<lparr>d_ht0 := ?n\<rparr>" ok "\<not> dictIsRehashing d" "ht_used (d_ht0 d) \<le> sz" "dictNextPower sz \<noteq> ht_size (d_ht0 d)" "ht_table (d_ht0 d) = []"
    | "d' = d\<lparr>d_ht1 := ?n, d_rehashidx := 0\<rparr>" ok "\<not> dictIsRehashing d" "ht_used (d_ht0 d) \<le> sz" "dictNextPower sz \<noteq> ht_size (d_ht0 d)"
        "ht_table (d_ht0 d) \<noteq> []"
    using assms(2) k(2) by (fastforce simp: dictExpand_def Let_def split: if_splits)
  then have "moved d d' \<and> (ok \<longleftrightarrow> \<not> dictIsRehashing d \<and> ht_used (d_ht0 d) \<le> sz \<and> dictNextPower sz \<noteq> ht_size (d_ht0 d))
      \<and> (ok \<longrightarrow> ht_table (d_ht0 d') \<noteq> [])"
  proof cases
    case 1
    then show ?thesis using assms(1) by (auto simp: moved_refl)
  next
    case 2
    then show ?thesis
      using assms(1) k(1) ht_ok_fresh [simplified] by (simp add: moved_def dict_ok_def entries_def dictIsRehashing_def)
  next
    case 3
    then show ?thesis
      using assms(1) k(1) ht_ok_fresh [simplified] by (simp add: moved_def dict_ok_def entries_def dictIsRehashing_def)
  qed
  then show "moved d d'" "ok \<longleftrightarrow> \<not> dictIsRehashing d \<and> ht_used (d_ht0 d) \<le> sz \<and> dictNextPower sz \<noteq> ht_size (d_ht0 d)"
    "ok \<Longrightarrow> ht_table (d_ht0 d') \<noteq> []" by blast+
qed

text \<open>An entry takes more than four bytes, so a dictionary in memory has fewer than \<open>2 ^ 62\<close> of them.\<close>

definition fits :: "('k, 'v) dict \<Rightarrow> bool" where
  "fits d \<longleftrightarrow> dictSize d < 2 ^ 62"

lemma dictExpandIfNeeded_spec:
  assumes "dict_ok d" and "fits d"
  shows "\<exists>d'. dictExpandIfNeeded env d = (True, d') \<and> moved d d' \<and> ht_table (d_ht0 d') \<noteq> []"
proof -
  let ?t = "d_ht0 d"
  have ok0: "ht_ok (dictHashKey d) ?t" using assms(1) by (simp add: dict_ok_def)
  have u: "ht_used ?t < 2 ^ 62" using assms(2) by (simp add: fits_def dictSize_def)
  have expand: "\<exists>d'. dictExpand sz d = (True, d') \<and> moved d d' \<and> ht_table (d_ht0 d') \<noteq> []"
    if "\<not> dictIsRehashing d" "ht_used ?t \<le> sz" "dictNextPower sz \<noteq> ht_size ?t" for sz
    using dictExpand_spec [OF assms(1)] that by (metis prod.exhaust)
  show ?thesis
  proof (cases "dictIsRehashing d \<or> ht_size ?t \<noteq> 0 \<and> \<not> (ht_used ?t \<ge> ht_size ?t \<and> (dict_can_resize env \<or> ht_used ?t div ht_size ?t > dict_force_resize_ratio env))")
    case True
    then have "dictExpandIfNeeded env d = (True, d)" by (auto simp: dictExpandIfNeeded_def Let_def)
    moreover have "ht_table ?t \<noteq> []" using True assms(1) ht_ok_size [OF ok0] by (auto simp: dict_ok_def)
    ultimately show ?thesis using assms(1) by (simp add: moved_refl)
  next
    case False
    then have nr: "\<not> dictIsRehashing d" by simp
    show ?thesis
    proof (cases "ht_size ?t = 0")
      case True
      then have "ht_used ?t = 0" using ok0 ht_ok_size [OF ok0] ht_ok_used [OF ok0] by simp
      moreover have "dictNextPower 4 \<noteq> 0" using dictNextPower_pow2 [of 4] by auto
      ultimately show ?thesis using expand [OF nr, of 4] True nr by (simp add: dictExpandIfNeeded_def Let_def)
    next
      case sz: False
      then have ge: "ht_used ?t \<ge> ht_size ?t" and s: "0 < ht_size ?t" using False by auto
      have np: "x \<le> dictNextPower x" if "x < 2 ^ 63 - 1" for x using dictNextPower_pow2 [of x] that by auto
      have a: "dictNextPower (ht_used ?t) < 2 ^ 63 - 1"
      proof -
        obtain k where k: "2 \<le> k" "dictNextPower (ht_used ?t) = 2 ^ k" "k = 2 \<or> 2 ^ (k - 1) < ht_used ?t"
          using dictNextPower_pow2 [of "ht_used ?t"] u by auto
        have "k \<le> 62" using k(3) u power_strict_increasing_iff [of "2 :: nat" "k - 1" 62] by auto
        then have "(2 :: nat) ^ k \<le> 2 ^ 62" by (intro power_increasing) auto
        with k(2) show ?thesis by simp
      qed
      have "\<exists>sz. dictExpandIfNeeded env d = dictExpand sz d \<and> ht_used ?t \<le> sz \<and> dictNextPower sz \<noteq> ht_size ?t"
      proof (cases "dictNextPower (ht_used ?t) > ht_used ?t \<and> 2 * dictNextPower (ht_used ?t) - ht_used ?t > dict_expand_max_idle_size env")
        case True
        then show ?thesis using False sz ge np [OF a] by (intro exI [of _ "dictNextPower (ht_used ?t)"]) (auto simp: dictExpandIfNeeded_def Let_def)
      next
        case nt: False
        have "ht_used ?t * 2 \<le> dictNextPower (ht_used ?t * 2)" using np u by simp
        then show ?thesis using False sz nt ge s by (intro exI [of _ "ht_used ?t * 2"]) (auto simp: dictExpandIfNeeded_def Let_def)
      qed
      then show ?thesis using expand [OF nr] by metis
    qed
  qed
qed

lemma dictResize_spec:
  assumes "dict_ok d" and "dictResize env d = (ok, d')"
  shows "moved d d'"
proof -
  have "\<exists>sz b. dictExpand sz d = (b, d') \<or> d' = d"
    using assms(2) by (cases "\<not> dict_can_resize env \<or> dictIsRehashing d") (auto simp: dictResize_def Let_def)
  then show ?thesis using dictExpand_spec(1) [OF assms(1)] assms(1) moved_refl by blast
qed

subsection \<open>Changing entries\<close>

definition put_bucket :: "bool \<Rightarrow> nat \<Rightarrow> ('k, 'v) dictEntry list \<Rightarrow> nat \<Rightarrow> ('k, 'v) dict \<Rightarrow> ('k, 'v) dict" where
  "put_bucket b i nb u d = set_ht b ((write_bucket i nb (ht_at b d))\<lparr>ht_used := u\<rparr>) d"

lemma put_bucket_simps [simp]:
  "d_type (put_bucket b i nb u d) = d_type d" "d_rehashidx (put_bucket b i nb u d) = d_rehashidx d"
  "dictIsRehashing (put_bucket b i nb u d) = dictIsRehashing d" "dictHashKey (put_bucket b i nb u d) = dictHashKey d"
  "ht_at b (put_bucket b i nb u d) = (write_bucket i nb (ht_at b d))\<lparr>ht_used := u\<rparr>"
  by (simp_all add: put_bucket_def set_ht_def ht_at_def dictIsRehashing_def)

lemma put_bucket_mset:
  "i < length (ht_table (ht_at b d)) \<Longrightarrow> mset (entries (put_bucket b i nb u d)) + mset (ht_table (ht_at b d) ! i) = mset (entries d) + mset nb"
  using mset_concat_update [of i "ht_table (ht_at b d)" nb]
  by (cases b) (simp_all add: entries_def put_bucket_def set_ht_def ht_at_def ac_simps)

lemma put_bucket_ok:
  assumes "dict_ok d" and "i < length (ht_table (ht_at b d))" and "\<And>e. e \<in> set nb \<Longrightarrow> masked (dictHashKey d (fst e)) (ht_at b d) = i"
    and "u + length (ht_table (ht_at b d) ! i) = ht_used (ht_at b d) + length nb"
    and "distinct (map fst (entries (put_bucket b i nb u d)))"
    and "dictIsRehashing d \<Longrightarrow> b \<or> ht_table (d_ht0 d) ! i \<noteq> []"
  shows "dict_ok (put_bucket b i nb u d)"
proof -
  note ok = dict_okD [OF assms(1)]
  have "u = length (concat ((ht_table (ht_at b d))[i := nb]))"
    using arg_cong [OF mset_concat_update [OF assms(2), of nb], of size] assms(4) ht_ok_used [OF ok(2), of b] by simp
  then have t: "ht_ok (dictHashKey d) ((write_bucket i nb (ht_at b d))\<lparr>ht_used := u\<rparr>)"
    using ht_ok_write [OF ok(2) assms(2,3)] by blast
  show ?thesis
  proof (cases b)
    case True
    then have "ht_table (d_ht1 d) \<noteq> []" using assms(2) by (auto simp: ht_at_def)
    then have "dictIsRehashing d" using ok(5) by (cases "dictIsRehashing d") simp_all
    with assms(1,2,5) t True show ?thesis
      by (auto simp: dict_ok_def put_bucket_def set_ht_def ht_at_def dictIsRehashing_def)
  next
    case False
    have "\<forall>b \<in> set (take (nat (d_rehashidx d)) ((ht_table (d_ht0 d))[i := nb])). b = []" if "dictIsRehashing d"
    proof -
      have e: "\<forall>b \<in> set (take (nat (d_rehashidx d)) (ht_table (d_ht0 d))). b = []" using assms(1) that by (simp add: dict_ok_def)
      have "nat (d_rehashidx d) \<le> i"
      proof (rule ccontr)
        assume "\<not> nat (d_rehashidx d) \<le> i"
        then have "ht_table (d_ht0 d) ! i \<in> set (take (nat (d_rehashidx d)) (ht_table (d_ht0 d)))"
          using assms(2) False by (auto simp: in_set_conv_nth ht_at_def)
        with e assms(6) [OF that] False show False by blast
      qed
      with e show ?thesis by simp
    qed
    with assms(1,2,5) t False show ?thesis
      by (auto simp: dict_ok_def put_bucket_def set_ht_def ht_at_def dictIsRehashing_def split: if_splits)
  qed
qed

lemma map_of_mset:
  "mset xs = mset ys \<Longrightarrow> distinct (map fst xs) \<Longrightarrow> map_of xs = map_of ys"
  by (metis map_of_inject_set same_mset_distinct set_mset_mset)

lemma map_of_changed:
  assumes "mset xs = add_mset (k, v) M" and "mset ys = add_mset (k, w) M" and "distinct (map fst xs)"
  shows "distinct (map fst ys)" "map_of ys = (map_of xs)(k \<mapsto> w)"
proof -
  obtain zs where z: "M = mset zs" by (metis ex_mset)
  have x: "mset xs = mset ((k, v) # zs)" and y: "mset ys = mset ((k, w) # zs)" using assms(1,2) z by simp_all
  have "distinct (map fst ((k, v) # zs))" using same_mset_distinct [OF x] assms(3) by blast
  then show dy: "distinct (map fst ys)" using same_mset_distinct [OF y] by simp
  show "map_of ys = (map_of xs)(k \<mapsto> w)" using map_of_mset [OF x assms(3)] map_of_mset [OF y dy] by simp
qed

lemma map_of_removed:
  assumes "mset xs = add_mset (k, v) (mset ys)" and "distinct (map fst xs)"
  shows "distinct (map fst ys)" "map_of ys = (map_of xs)(k := None)"
proof -
  have m: "mset xs = mset ((k, v) # ys)" using assms(1) by simp
  then have d: "distinct (map fst ((k, v) # ys))" using assms(2) same_mset_distinct by blast
  have "map_of xs = map_of ((k, v) # ys)" by (rule map_of_mset [OF m assms(2)])
  moreover have "map_of ys k = None" using d by (simp add: map_of_eq_None_iff)
  ultimately show "distinct (map fst ys)" "map_of ys = (map_of xs)(k := None)" using d by auto
qed

lemma points_bucket:
  assumes "dict_ok d" and "points d (b, i, pos) key v"
  shows "i < length (ht_table (ht_at b d))" "pos < length (ht_table (ht_at b d) ! i)" "ht_table (ht_at b d) ! i ! pos = (key, v)"
    "masked (dictHashKey d key) (ht_at b d) = i" "dictIsRehashing d \<Longrightarrow> b \<or> ht_table (d_ht0 d) ! i \<noteq> []"
proof -
  show *: "i < length (ht_table (ht_at b d))" "pos < length (ht_table (ht_at b d) ! i)" "ht_table (ht_at b d) ! i ! pos = (key, v)"
    using assms(2) by (simp_all add: points_def)
  then have "(key, v) \<in> set (ht_table (ht_at b d) ! i)" by (metis nth_mem)
  then show "masked (dictHashKey d key) (ht_at b d) = i" using ht_ok_bucket [OF dict_okD(2) [OF assms(1)] *(1)] by fastforce
  show "dictIsRehashing d \<Longrightarrow> b \<or> ht_table (d_ht0 d) ! i \<noteq> []" using *(2) by (cases b) (auto simp: ht_at_def)
qed

lemma mset_swap:
  assumes "A + add_mset x M = B + add_mset y M" and "x \<in># B"
  shows "\<exists>N. B = add_mset x N \<and> A = add_mset y N"
proof -
  obtain N where N: "B = add_mset x N" using assms(2) by (metis mset_add)
  have "add_mset x (A + M) = add_mset x (add_mset y N + M)" using assms(1) unfolding N by simp
  then have "A = add_mset y N" by simp
  with N show ?thesis by blast
qed

lemma points_entry:
  assumes "points d ref key v"
  shows "(key, v) \<in># mset (entries d)"
proof -
  obtain b i pos where ref: "ref = (b, i, pos)" by (metis prod.exhaust)
  have "i < length (ht_table (ht_at b d))" "pos < length (ht_table (ht_at b d) ! i)" "ht_table (ht_at b d) ! i ! pos = (key, v)"
    using assms unfolding ref points_def by simp_all
  then have "(key, v) \<in> set (concat (ht_table (ht_at b d)))" by (metis nth_mem UN_I set_concat)
  then show ?thesis by (cases b) (auto simp: entries_def ht_at_def)
qed

lemma dictSetVal_spec:
  assumes "dict_ok d" and "points d ref key v"
  shows "\<exists>d'. dictSetVal ref val d = Inr d' \<and> dict_ok d' \<and> dict_map d' = (dict_map d)(key \<mapsto> Some val)
     \<and> d_type d' = d_type d \<and> dictSize d' = dictSize d"
proof -
  obtain b i pos where ref: "ref = (b, i, pos)" by (metis prod.exhaust)
  note p = points_bucket [OF assms(1) assms(2) [unfolded ref]]
  let ?he = "ht_table (ht_at b d) ! i" and ?t = "ht_at b d"
  let ?nb = "?he[pos := (key, Some val)]" and ?d = "put_bucket b i (?he[pos := (key, Some val)]) (ht_used ?t) d"
  have r: "dictSetVal ref val d = Inr ?d"
    using p(2,3) by (simp add: ref dictSetVal_def read_bucket_ok [OF p(1)] put_bucket_def) (simp add: write_bucket_def)
  obtain M where M: "mset ?he = add_mset (key, v) M" using p(2,3) by (metis nth_mem_mset insert_DiffM)
  then have "mset ?nb = add_mset (key, Some val) M" using p(2,3) by (simp add: mset_update)
  with put_bucket_mset [OF p(1), of ?nb "ht_used ?t"] M
  have "mset (entries ?d) + add_mset (key, v) M = mset (entries d) + add_mset (key, Some val) M" by simp
  from mset_swap [OF this points_entry [OF assms(2)]] obtain N where
      N: "mset (entries d) = add_mset (key, v) N" "mset (entries ?d) = add_mset (key, Some val) N" by blast
  note ch = map_of_changed [OF N dict_okD(3) [OF assms(1)]]
  have "dict_ok ?d"
    using ht_ok_bucket [OF dict_okD(2) [OF assms(1)] p(1)] p(2,3,4,5) ch(1)
    by (intro put_bucket_ok [OF assms(1) p(1)]) (auto dest!: set_update_subset_insert [THEN subsetD])
  moreover have "dictSize ?d = dictSize d" by (simp add: dictSize_def put_bucket_def set_ht_def ht_at_def)
  ultimately show ?thesis using r ch(2) by (simp add: dict_map_def)
qed

lemma dictFind_spec:
  assumes "dict_ok d"
  shows "\<exists>r d'. dictFind key d = Inr (r, d') \<and> moved d d'
     \<and> (case r of None \<Rightarrow> dict_map d key = None | Some ref \<Rightarrow> \<exists>v. points d' ref key v \<and> dict_map d key = Some v)"
proof (cases "ht_used (d_ht0 d) + ht_used (d_ht1 d) = 0")
  case True
  then have "entries d = []" using dictSize_entries [OF assms] by (simp add: dictSize_def)
  with True assms show ?thesis by (simp add: dictFind_def dict_map_def moved_refl)
next
  case False
  obtain d1 where d1: "rehash_if_needed d = Inr d1" "moved d d1" using rehash_if_needed_spec [OF assms] by blast
  have "entries d1 \<noteq> []" using False dictSize_entries [OF assms] moved_entries [OF d1(2)] by (auto simp: dictSize_def)
  then have "ht_table (d_ht0 d1) \<noteq> []" using table0_entries d1(2) by (auto simp: moved_def)
  with d1(2) search_tables_spec [of d1 key] have "\<exists>r. search_tables key (dictHashKey d1 key) d1 = Inr r
      \<and> (case r of None \<Rightarrow> dict_map d1 key = None | Some ref \<Rightarrow> \<exists>v. points d1 ref key v \<and> dict_map d1 key = Some v)"
    by (simp add: moved_def)
  with d1 False show ?thesis unfolding moved_map [OF d1(2) assms] by (auto simp: dictFind_def)
qed

lemma moved_size: "dict_ok d \<Longrightarrow> moved d d' \<Longrightarrow> dictSize d' = dictSize d"
  using dictSize_entries [of d] dictSize_entries [of d'] moved_entries [of d d'] unfolding moved_def by simp

lemma fits_moved: "fits d \<Longrightarrow> dict_ok d \<Longrightarrow> moved d d' \<Longrightarrow> fits d'"
  by (simp add: fits_def moved_size)

lemma dictKeyIndex_spec:
  assumes "dict_ok d" and "fits d"
  shows "\<exists>r d'. dictKeyIndex env key (dictHashKey d key) d = Inr (r, d') \<and> moved d d' \<and> ht_table (d_ht0 d') \<noteq> []
     \<and> (case dict_map d key of
          None \<Rightarrow> r = (Some (masked (dictHashKey d key) (ht_at (dictIsRehashing d') d')), None)
        | Some v \<Rightarrow> \<exists>ref. r = (None, Some ref) \<and> points d' ref key v)"
proof -
  obtain d1 where d1: "dictExpandIfNeeded env d = (True, d1)" "moved d d1" "ht_table (d_ht0 d1) \<noteq> []"
    using dictExpandIfNeeded_spec [OF assms] by blast
  have h: "dictHashKey d1 = dictHashKey d" using d1(2) by (simp add: moved_def dictHashKey_def fun_eq_iff)
  obtain r where "search_tables key (dictHashKey d key) d1 = Inr r"
      "case r of None \<Rightarrow> dict_map d key = None | Some ref \<Rightarrow> \<exists>v. points d1 ref key v \<and> dict_map d key = Some v"
    using search_tables_spec [of d1 key] d1(2,3) unfolding h moved_map [OF d1(2) assms(1)] by (auto simp: moved_def)
  with d1 show ?thesis by (cases r) (auto simp: dictKeyIndex_def)
qed

lemma dictAddRaw_spec:
  assumes "dict_ok d" and "fits d"
  shows "\<exists>r d'. dictAddRaw env key d = Inr (r, d') \<and> dict_ok d' \<and> d_type d' = d_type d
     \<and> (case dict_map d key of
          None \<Rightarrow> dict_map d' = (dict_map d)(key \<mapsto> None) \<and> dictSize d' = dictSize d + 1 \<and> (\<exists>ref. r = (Some ref, None) \<and> points d' ref key None)
        | Some v \<Rightarrow> dict_map d' = dict_map d \<and> dictSize d' = dictSize d \<and> (\<exists>ref. r = (None, Some ref) \<and> points d' ref key v))"
proof -
  obtain d1 where d1: "rehash_if_needed d = Inr d1" "moved d d1" using rehash_if_needed_spec [OF assms(1)] by blast
  have ok1: "dict_ok d1" using d1(2) by (simp add: moved_def)
  obtain r d2 where d2: "dictKeyIndex env key (dictHashKey d1 key) d1 = Inr (r, d2)" "moved d1 d2" "ht_table (d_ht0 d2) \<noteq> []"
      and r: "case dict_map d1 key of
          None \<Rightarrow> r = (Some (masked (dictHashKey d1 key) (ht_at (dictIsRehashing d2) d2)), None)
        | Some v \<Rightarrow> \<exists>ref. r = (None, Some ref) \<and> points d2 ref key v"
    using dictKeyIndex_spec [OF ok1 fits_moved [OF assms(2,1) d1(2)]] by blast
  have mv: "moved d d2" using moved_trans [OF d1(2) d2(2)] .
  have ok2: "dict_ok d2" using mv by (simp add: moved_def)
  have sz: "dictSize d2 = dictSize d" by (rule moved_size [OF assms(1) mv])
  note m1 = moved_map [OF d1(2) assms(1)] and m2 = moved_map [OF mv assms(1)]
  have h: "dictHashKey d1 = dictHashKey d2" using d2(2) by (simp add: moved_def dictHashKey_def fun_eq_iff)
  show ?thesis
  proof (cases "dict_map d key")
    case (Some v)
    then show ?thesis using d1 d2 r m1 m2 mv ok2 sz by (auto simp: dictAddRaw_def moved_def)
  next
    case None
    let ?b = "dictIsRehashing d2" and ?i = "masked (dictHashKey d2 key) (ht_at (dictIsRehashing d2) d2)"
    let ?t = "ht_at ?b d2" and ?old = "ht_table (ht_at (dictIsRehashing d2) d2) ! ?i"
    let ?d = "put_bucket ?b ?i ((key, None) # ?old) (ht_used ?t + 1) d2"
    have ne: "ht_table ?t \<noteq> []" using d2(3) dict_okD(4) [OF ok2, of ?b] by (cases ?b) (auto simp: ht_at_def)
    have i: "?i < length (ht_table ?t)" using masked_less [OF dict_okD(2) [OF ok2] ne] .
    have e: "dictAddRaw env key d = Inr ((Some (?b, ?i, 0), None), ?d)"
      using None d1(1) d2(1) r m1 by (simp add: dictAddRaw_def h Let_def read_bucket_ok [OF i] put_bucket_def)
    have ms: "mset (entries ?d) = add_mset (key, None) (mset (entries d2))"
      using put_bucket_mset [OF i, of "(key, None) # ?old" "ht_used ?t + 1"] by simp
    have "key \<notin> fst ` set (entries d2)" using None m2 unfolding dict_map_def by (metis map_of_eq_None_iff)
    then have dx: "distinct (map fst ((key, None) # entries d2))" using dict_okD(3) [OF ok2] by simp
    have ms': "mset (entries ?d) = mset ((key, None) # entries d2)" using ms by simp
    have ok: "dict_ok ?d"
      using ht_ok_bucket [OF dict_okD(2) [OF ok2] i] same_mset_distinct [OF ms'] dx by (intro put_bucket_ok [OF ok2 i]) auto
    have "dict_map ?d = (dict_map d)(key \<mapsto> None)"
      using map_of_mset [OF ms'] same_mset_distinct [OF ms'] dx m2 by (simp add: dict_map_def)
    moreover have "points ?d (?b, ?i, 0) key None" using i by (simp add: points_def)
    moreover have "dictSize ?d = dictSize d + 1" using dictSize_entries [OF ok] arg_cong [OF ms', of size] dictSize_entries [OF ok2] sz by simp
    ultimately show ?thesis using None e ok mv by (simp add: moved_def)
  qed
qed

lemma entry_at_points: "points d ref key v \<Longrightarrow> entry_at ref d = Inr (key, v)"
  by (cases ref) (auto simp: points_def entry_at_def read_bucket_ok)

lemma delete_at_spec:
  assumes "dict_ok d" and "points d ref key v"
  shows "\<exists>d'. delete_at ref d = Inr d' \<and> dict_ok d' \<and> dict_map d' = (dict_map d)(key := None)
     \<and> d_type d' = d_type d \<and> dictSize d' = dictSize d - 1"
proof -
  obtain b i pos where ref: "ref = (b, i, pos)" by (metis prod.exhaust)
  note p = points_bucket [OF assms(1) assms(2) [unfolded ref]]
  let ?he = "ht_table (ht_at b d) ! i" and ?t = "ht_at b d"
  let ?nb = "take pos ?he @ drop (Suc pos) ?he" and ?d = "put_bucket b i (take pos ?he @ drop (Suc pos) ?he) (ht_used ?t - 1) d"
  have r: "delete_at ref d = Inr ?d" by (simp add: ref delete_at_def Let_def read_bucket_ok [OF p(1)] put_bucket_def)
  have he: "?he = take pos ?he @ (key, v) # drop (Suc pos) ?he" using id_take_nth_drop [OF p(2)] p(3) by simp
  then have "mset ?he = mset (take pos ?he @ (key, v) # drop (Suc pos) ?he)" by (rule arg_cong)
  then have "mset ?he = add_mset (key, v) (mset ?nb)" by simp
  then have ms: "mset (entries d) = add_mset (key, v) (mset (entries ?d))"
    using put_bucket_mset [OF p(1), of ?nb "ht_used ?t - 1"] by simp
  note rm = map_of_removed [OF ms dict_okD(3) [OF assms(1)]]
  have "?he \<noteq> []" using p(2) by auto
  then have "0 < ht_used ?t"
    using ht_ok_used [OF dict_okD(2) [OF assms(1), of b]] p(1) by (metis concat_eq_Nil_conv length_greater_0_conv nth_mem)
  moreover have "length ?he = Suc (length ?nb)" using p(2) by simp
  moreover have "set ?nb \<subseteq> set ?he" by (metis append_take_drop_id set_append Un_mono set_drop_subset set_take_subset le_sup_iff)
  ultimately have ok: "dict_ok ?d"
    using ht_ok_bucket [OF dict_okD(2) [OF assms(1)] p(1)] p(5) rm(1) by (intro put_bucket_ok [OF assms(1) p(1)]) auto
  have "dictSize ?d = dictSize d - 1" using dictSize_entries [OF ok] dictSize_entries [OF assms(1)] arg_cong [OF ms, of size] by simp
  then show ?thesis using r ok rm(2) by (simp add: dict_map_def)
qed

lemma dictGenericDelete_spec:
  assumes "dict_ok d"
  shows "\<exists>r d'. dictGenericDelete key d = Inr (r, d') \<and> dict_ok d' \<and> d_type d' = d_type d \<and> dict_map d' = (dict_map d)(key := None)
     \<and> r = map_option (Pair key) (dict_map d key) \<and> dictSize d' \<le> dictSize d"
proof (cases "ht_used (d_ht0 d) = 0 \<and> ht_used (d_ht1 d) = 0")
  case True
  then have "entries d = []" using dictSize_entries [OF assms] by (simp add: dictSize_def)
  then have "dict_map d = Map.empty" by (simp add: dict_map_def)
  with True assms show ?thesis by (simp add: dictGenericDelete_def fun_upd_idem)
next
  case False
  obtain d1 where d1: "rehash_if_needed d = Inr d1" "moved d d1" using rehash_if_needed_spec [OF assms] by blast
  have ok1: "dict_ok d1" using d1(2) by (simp add: moved_def)
  have "entries d1 \<noteq> []" using False dictSize_entries [OF assms] moved_entries [OF d1(2)] by (auto simp: dictSize_def)
  then obtain r where r: "search_tables key (dictHashKey d1 key) d1 = Inr r"
      "case r of None \<Rightarrow> dict_map d key = None | Some ref \<Rightarrow> \<exists>v. points d1 ref key v \<and> dict_map d key = Some v"
    using search_tables_spec [OF ok1 table0_entries [OF ok1], of key] unfolding moved_map [OF d1(2) assms] by blast
  show ?thesis
  proof (cases r)
    case None
    then show ?thesis using False d1 r ok1 moved_map [OF d1(2) assms] moved_size [OF assms d1(2)]
      by (auto simp: dictGenericDelete_def moved_def fun_upd_idem)
  next
    case (Some ref)
    then obtain v where v: "points d1 ref key v" "dict_map d key = Some v" using r(2) by auto
    obtain d2 where "delete_at ref d1 = Inr d2" "dict_ok d2" "dict_map d2 = (dict_map d1)(key := None)" "d_type d2 = d_type d1"
        "dictSize d2 = dictSize d1 - 1"
      using delete_at_spec [OF ok1 v(1)] by blast
    then show ?thesis
      using False d1 r(1) Some v moved_map [OF d1(2) assms] moved_size [OF assms d1(2)] entry_at_points [OF v(1)]
      by (auto simp: dictGenericDelete_def moved_def)
  qed
qed

subsection \<open>The contract\<close>

text \<open>
  Operations of a store of values under keys and what they answer. \<open>map_step\<close> is the specification; \<open>Tidy\<close> and
  \<open>Shrink\<close> are housekeeping and must not be seen.
\<close>

datatype ('k, 'v) store_op = Fetch 'k | Add 'k 'v | Replace 'k 'v | Delete 'k | Tidy nat | Shrink

datatype 'v answer = Value "'v option" | Flag bool | Silent

fun map_step :: "('k, 'v) store_op \<Rightarrow> ('k \<rightharpoonup> 'v) \<Rightarrow> 'v answer \<times> ('k \<rightharpoonup> 'v)" where
  "map_step (Fetch k) m = (Value (m k), m)"
| "map_step (Add k v) m = (Flag (m k = None), if m k = None then m(k \<mapsto> v) else m)"
| "map_step (Replace k v) m = (Flag (m k = None), m(k \<mapsto> v))"
| "map_step (Delete k) m = (Flag (m k \<noteq> None), m(k := None))"
| "map_step (Tidy n) m = (Silent, m)"
| "map_step Shrink m = (Silent, m)"

fun map_run :: "('k, 'v) store_op list \<Rightarrow> ('k \<rightharpoonup> 'v) \<Rightarrow> 'v answer list \<times> ('k \<rightharpoonup> 'v)" where
  "map_run [] m = ([], m)"
| "map_run (op # ops) m = (let (a, m) = map_step op m; (as, m) = map_run ops m in (a # as, m))"

fun store_run :: "('e \<Rightarrow> ('k, 'v) store_op \<Rightarrow> 's \<Rightarrow> ('v answer \<times> 's) res) \<Rightarrow> ('e \<times> ('k, 'v) store_op) list \<Rightarrow> 's \<Rightarrow> ('v answer list \<times> 's) res" where
  "store_run step [] s = Inr ([], s)"
| "store_run step ((e, op) # ops) s =
     bindE (step e op s) (\<lambda>(a, s). bindE (store_run step ops s) (\<lambda>(as, s). Inr (a # as, s)))"

text \<open>The laws a store promises its clients: while it has room, every step answers like the map it stands for.\<close>

locale map_store =
  fixes ok :: "nat \<Rightarrow> 's \<Rightarrow> bool"
    and abs_map :: "'s \<Rightarrow> 'k \<rightharpoonup> 'v"
    and step :: "'e \<Rightarrow> ('k, 'v) store_op \<Rightarrow> 's \<Rightarrow> ('v answer \<times> 's) res"
  assumes step_ok: "ok (Suc n) s \<Longrightarrow> \<exists>s'. step e op s = Inr (fst (map_step op (abs_map s)), s') \<and> ok n s'
      \<and> abs_map s' = snd (map_step op (abs_map s))"
begin

lemma run_refines:
  "ok (length ops) s \<Longrightarrow> \<exists>s'. store_run step ops s = Inr (fst (map_run (map snd ops) (abs_map s)), s') \<and> ok 0 s'
     \<and> abs_map s' = snd (map_run (map snd ops) (abs_map s))"
proof (induction ops arbitrary: s)
  case (Cons x ops)
  obtain e op where x: "x = (e, op)" by (cases x)
  obtain s1 where s1: "step e op s = Inr (fst (map_step op (abs_map s)), s1)" "ok (length ops) s1"
      "abs_map s1 = snd (map_step op (abs_map s))" using step_ok [of "length ops" s e op] Cons.prems by auto
  from Cons.IH [OF s1(2)] obtain s2 where "store_run step ops s1 = Inr (fst (map_run (map snd ops) (abs_map s1)), s2)" "ok 0 s2"
      "abs_map s2 = snd (map_run (map snd ops) (abs_map s1))" by blast
  with s1 show ?case by (simp add: x Let_def split_beta)
qed simp

lemma fetch_after_replace:
  assumes "ok (Suc (Suc n)) s" and "step e (Replace k v) s = Inr (a, s1)"
  shows "\<exists>s2. step e' (Fetch k) s1 = Inr (Value (Some v), s2)"
proof -
  have "ok (Suc n) s1" "abs_map s1 = (abs_map s)(k \<mapsto> v)" using step_ok [OF assms(1), of e "Replace k v"] assms(2) by auto
  then show ?thesis using step_ok [of n s1 e' "Fetch k"] by auto
qed

end

definition dict_step :: "dict_env \<Rightarrow> ('k, 'v) store_op \<Rightarrow> ('k, 'v) dict \<Rightarrow> ('v answer \<times> ('k, 'v) dict) res" where
  "dict_step env op d =
     (case op of
        Fetch k \<Rightarrow> bindE (dictFetchValue k d) (\<lambda>(v, d). Inr (Value v, d))
      | Add k v \<Rightarrow> bindE (dictAdd env k v d) (\<lambda>(b, d). Inr (Flag b, d))
      | Replace k v \<Rightarrow> bindE (dictReplace env k v d) (\<lambda>(b, d). Inr (Flag b, d))
      | Delete k \<Rightarrow> bindE (dictDelete k d) (\<lambda>(b, d). Inr (Flag b, d))
      | Tidy n \<Rightarrow> bindE (dictRehash n d) (\<lambda>(_, d). Inr (Silent, d))
      | Shrink \<Rightarrow> Inr (Silent, snd (dictResize env d)))"

text \<open>All values have been set.\<close>

definition full :: "('k, 'v) dict \<Rightarrow> bool" where
  "full d \<longleftrightarrow> None \<notin> ran (dict_map d)"

definition dict_abs :: "('k, 'v) dict \<Rightarrow> 'k \<rightharpoonup> 'v" where
  "dict_abs d k = Option.bind (dict_map d k) id"

definition dict_room :: "nat \<Rightarrow> ('k, 'v) dict \<Rightarrow> bool" where
  "dict_room n d \<longleftrightarrow> dict_ok d \<and> full d \<and> dictSize d + n \<le> 2 ^ 62"

lemma full_upd: "full d \<Longrightarrow> dict_map d' = (dict_map d)(k \<mapsto> Some v) \<Longrightarrow> full d' \<and> dict_abs d' = (dict_abs d)(k \<mapsto> v)"
  by (auto simp: full_def dict_abs_def fun_eq_iff ran_def)

lemma full_del: "full d \<Longrightarrow> dict_map d' = (dict_map d)(k := None) \<Longrightarrow> full d' \<and> dict_abs d' = (dict_abs d)(k := None)"
  by (auto simp: full_def dict_abs_def fun_eq_iff ran_def)

lemma full_same: "full d \<Longrightarrow> dict_map d' = dict_map d \<Longrightarrow> full d' \<and> dict_abs d' = dict_abs d"
  by (simp add: full_def dict_abs_def [abs_def])

lemma full_None: "full d \<Longrightarrow> dict_abs d k = None \<longleftrightarrow> dict_map d k = None"
  by (cases "dict_map d k"; cases "the (dict_map d k)") (auto simp: full_def dict_abs_def ran_def)

lemma room_moved: "dict_room (Suc n) d \<Longrightarrow> moved d d' \<Longrightarrow> dict_room n d' \<and> dict_abs d' = dict_abs d"
  using full_same [of d d'] moved_map [of d d'] moved_size [of d d'] by (auto simp: dict_room_def moved_def)

lemma fetch_step:
  assumes "dict_room (Suc n) d"
  shows "\<exists>d'. dictFetchValue k d = Inr (dict_abs d k, d') \<and> dict_room n d' \<and> dict_abs d' = dict_abs d"
proof -
  have ok: "dict_ok d" and f: "full d" using assms by (simp_all add: dict_room_def)
  obtain r d1 where r: "dictFind k d = Inr (r, d1)" "moved d d1"
      "case r of None \<Rightarrow> dict_map d k = None | Some ref \<Rightarrow> \<exists>v. points d1 ref k v \<and> dict_map d k = Some v"
    using dictFind_spec [OF ok] by blast
  show ?thesis
  proof (cases r)
    case None
    with r room_moved [OF assms r(2)] show ?thesis by (simp add: dictFetchValue_def dict_abs_def)
  next
    case (Some ref)
    then obtain v where v: "points d1 ref k v" "dict_map d k = Some v" using r(3) by auto
    then have "v \<noteq> None" using full_None [OF f, of k] by (auto simp: dict_abs_def)
    with Some r v room_moved [OF assms r(2)] show ?thesis by (auto simp: dictFetchValue_def entry_at_points dict_abs_def)
  qed
qed

text \<open>Adding and replacing: the entry that \<open>dictAddRaw\<close> points to gets the value.\<close>

lemma add_raw_set:
  assumes "dict_room (Suc n) d"
  shows "\<exists>e x d1. dictAddRaw env k d = Inr ((e, x), d1) \<and> dict_ok d1 \<and> (e = None \<longleftrightarrow> dict_map d k \<noteq> None) \<and> (e = None \<longrightarrow> x \<noteq> None)
     \<and> (e = None \<longrightarrow> dict_room n d1 \<and> dict_abs d1 = dict_abs d)
     \<and> (\<forall>ref. e = Some ref \<or> e = None \<and> x = Some ref \<longrightarrow> (\<exists>d2. dictSetVal ref v d1 = Inr d2 \<and> dict_room n d2 \<and> dict_abs d2 = (dict_abs d)(k \<mapsto> v)))"
proof -
  have ok: "dict_ok d" and f: "full d" and sz: "dictSize d + Suc n \<le> 2 ^ 62" using assms by (simp_all add: dict_room_def)
  obtain e x d1 where r: "dictAddRaw env k d = Inr ((e, x), d1)" and ok1: "dict_ok d1"
      and c: "case dict_map d k of
          None \<Rightarrow> dict_map d1 = (dict_map d)(k \<mapsto> None) \<and> dictSize d1 = dictSize d + 1 \<and> (\<exists>ref. (e, x) = (Some ref, None) \<and> points d1 ref k None)
        | Some v \<Rightarrow> dict_map d1 = dict_map d \<and> dictSize d1 = dictSize d \<and> (\<exists>ref. (e, x) = (None, Some ref) \<and> points d1 ref k v)"
    using dictAddRaw_spec [OF ok, of env k] sz by (fastforce simp: fits_def)
  have set: "\<exists>d2. dictSetVal ref v d1 = Inr d2 \<and> dict_room n d2 \<and> dict_abs d2 = (dict_abs d)(k \<mapsto> v)"
    if p: "points d1 ref k w" "dict_map d1 = (dict_map d)(k \<mapsto> w) \<or> dict_map d1 = dict_map d" "dictSize d1 \<le> dictSize d + 1" for ref w
  proof -
    obtain d2 where d2: "dictSetVal ref v d1 = Inr d2" "dict_ok d2" "dict_map d2 = (dict_map d1)(k \<mapsto> Some v)" "dictSize d2 = dictSize d1"
      using dictSetVal_spec [OF ok1 p(1), of v] by blast
    then have "dict_map d2 = (dict_map d)(k \<mapsto> Some v)" using p(2) by auto
    from full_upd [OF f this] d2 p(3) sz show ?thesis by (simp add: dict_room_def)
  qed
  show ?thesis
  proof (cases "dict_map d k")
    case None
    with c obtain ref where "e = Some ref" "x = None" "points d1 ref k None" "dict_map d1 = (dict_map d)(k \<mapsto> None)" "dictSize d1 = dictSize d + 1"
      by auto
    with r ok1 None set [of ref None] show ?thesis by (intro exI [of _ e] exI [of _ x] exI [of _ d1]) auto
  next
    case (Some w)
    with c obtain ref where "e = None" "x = Some ref" "points d1 ref k w" "dict_map d1 = dict_map d" "dictSize d1 = dictSize d" by auto
    with r ok1 Some set [of ref w] full_same [OF f, of d1] sz show ?thesis
      by (intro exI [of _ e] exI [of _ x] exI [of _ d1]) (auto simp: dict_room_def)
  qed
qed

lemma dict_step_ok:
  assumes "dict_room (Suc n) d"
  shows "\<exists>d'. dict_step env op d = Inr (fst (map_step op (dict_abs d)), d') \<and> dict_room n d' \<and> dict_abs d' = snd (map_step op (dict_abs d))"
proof -
  have ok: "dict_ok d" and f: "full d" and sz: "dictSize d + Suc n \<le> 2 ^ 62" using assms by (simp_all add: dict_room_def)
  show ?thesis
  proof (cases op)
    case (Fetch k)
    with fetch_step [OF assms, of k] show ?thesis by (auto simp: dict_step_def)
  next
    case (Add k v)
    with add_raw_set [OF assms, of env k v] full_None [OF f, of k] show ?thesis by (fastforce simp: dict_step_def dictAdd_def split: option.split)
  next
    case (Replace k v)
    with add_raw_set [OF assms, of env k v] full_None [OF f, of k] show ?thesis by (fastforce simp: dict_step_def dictReplace_def split: option.split)
  next
    case (Delete k)
    obtain r d1 where "dictGenericDelete k d = Inr (r, d1)" "dict_ok d1" "dict_map d1 = (dict_map d)(k := None)"
        "r = map_option (Pair k) (dict_map d k)" "dictSize d1 \<le> dictSize d"
      using dictGenericDelete_spec [OF ok] by blast
    with Delete full_del [OF f, of d1 k] full_None [OF f, of k] sz show ?thesis by (auto simp: dict_step_def dictDelete_def dict_room_def)
  next
    case (Tidy m)
    with dictRehash_spec [OF ok, of m] room_moved [OF assms] show ?thesis by (auto simp: dict_step_def)
  next
    case Shrink
    have "moved d (snd (dictResize env d))" using dictResize_spec [OF ok] by (metis prod.collapse)
    with Shrink room_moved [OF assms] show ?thesis by (simp add: dict_step_def)
  qed
qed

interpretation dict_store: map_store dict_room dict_abs dict_step
  by unfold_locales (rule dict_step_ok)

lemma dictCreate_ok: "type_ok type \<Longrightarrow> dict_ok (dictCreate type) \<and> full (dictCreate type) \<and> dict_abs (dictCreate type) = Map.empty \<and> dictSize (dictCreate type) = 0"
  by (auto simp: dictCreate_def dict_ok_def entries_def dictIsRehashing_def full_def dict_map_def dict_abs_def dictSize_def fun_eq_iff)

text \<open>
  C10. A dictionary is a map: any sequence of lookups, additions, replacements and deletions, mixed with steps of
  rehashing and with resizing, and with the lookups moving entries themselves, returns without a fault and
  answers as the map does that the dictionary stands for. At every moment an entry may be in either table.
\<close>

theorem dict_refines_map:
  assumes "dict_ok d" and "full d" and "dictSize d + length ops \<le> 2 ^ 62"
  shows "\<exists>d'. store_run dict_step ops d = Inr (fst (map_run (map snd ops) (dict_abs d)), d')
     \<and> dict_ok d' \<and> full d' \<and> dict_abs d' = snd (map_run (map snd ops) (dict_abs d))"
  using dict_store.run_refines [of ops d] assms by (auto simp: dict_room_def)

definition byte_type :: "nat dictType" where
  "byte_type = \<lparr>hashFunction = of_nat, keyCompare = Some (=)\<rparr>"

definition plain_env :: dict_env where
  "plain_env = \<lparr>dict_can_resize = True, dict_force_resize_ratio = 5, dict_expand_max_idle_size = 128 * 1024 * 1024\<rparr>"

theorem dict_refines_map_witness:
  "\<exists>d'. store_run dict_step (map (Pair plain_env) [Add 1 ''a'', Replace 5 ''b'', Add 1 ''c'', Tidy 1, Delete 5, Shrink, Fetch 1, Fetch 5]) (dictCreate byte_type)
     = Inr ([Flag True, Flag True, Flag False, Silent, Flag True, Silent, Value (Some ''a''), Value None], d')"
proof -
  let ?d = "dictCreate byte_type :: (nat, string) dict"
  have c: "dict_ok ?d \<and> full ?d \<and> dict_abs ?d = Map.empty \<and> dictSize ?d = 0"
    by (rule dictCreate_ok) (simp add: type_ok_def byte_type_def)
  let ?ops = "map (Pair plain_env) [Add 1 ''a'', Replace 5 ''b'', Add 1 ''c'', Tidy 1, Delete 5, Shrink, Fetch 1, Fetch 5]"
  have "fst (map_run (map snd ?ops) (dict_abs ?d))
      = [Flag True, Flag True, Flag False, Silent, Flag True, Silent, Value (Some ''a''), Value None]"
    using c by (simp add: Let_def)
  moreover have "dictSize ?d + length ?ops \<le> 2 ^ 62" using c by simp
  ultimately show ?thesis using dict_refines_map [of ?d ?ops] c by metis
qed

subsection \<open>Rehashing comes to an end\<close>

lemma rehash_round:
  assumes "dict_ok d"
  shows "\<exists>more d'. dictRehash 100 d = Inr (more, d') \<and> moved d d' \<and> (more \<longleftrightarrow> dictIsRehashing d')
     \<and> (dictIsRehashing d' \<longrightarrow> dictIsRehashing d \<and> length (ht_table (d_ht0 d')) = length (ht_table (d_ht0 d))
          \<and> d_rehashidx d < d_rehashidx d' \<and> d_rehashidx d' < int (length (ht_table (d_ht0 d'))))"
proof -
  obtain more d' where d': "dictRehash 100 d = Inr (more, d')" "moved d d'" "more \<longleftrightarrow> dictIsRehashing d'"
      and r: "dictIsRehashing d' \<Longrightarrow> dictIsRehashing d \<and> length (ht_table (d_ht0 d')) = length (ht_table (d_ht0 d))
          \<and> ht_used (d_ht0 d') \<noteq> 0 \<and> d_rehashidx d < d_rehashidx d'"
    using dictRehash_spec [OF assms, of 100] by auto
  have ok: "dict_ok d'" using d'(2) by (simp add: moved_def)
  have "d_rehashidx d' < int (length (ht_table (d_ht0 d')))" if "dictIsRehashing d'"
    using unmoved_bucket(2) [OF ok that] r [OF that] ht_ok_size [OF dict_okD(2) [OF ok, of False]] by (simp add: ht_at_def)
  with d' r show ?thesis by blast
qed

lemma rehash_rounds_ends:
  assumes "dict_ok d" and "dictIsRehashing d \<longrightarrow> int (length (ht_table (d_ht0 d))) \<le> d_rehashidx d + int (length readings)"
  shows "\<exists>k d'. rehash_rounds ms readings r d = Inr (Some (r + 100 * k, d')) \<and> moved d d' \<and> k \<le> length readings
     \<and> ((\<forall>t \<in> set readings. t \<le> ms) \<longrightarrow> \<not> dictIsRehashing d')"
  using assms
proof (induction readings arbitrary: d r)
  case Nil
  with rehash_round [OF Nil.prems(1)] show ?case by fastforce
next
  case (Cons t readings)
  obtain more d1 where d1: "dictRehash 100 d = Inr (more, d1)" "moved d d1" "more \<longleftrightarrow> dictIsRehashing d1"
      and r: "dictIsRehashing d1 \<Longrightarrow> dictIsRehashing d \<and> length (ht_table (d_ht0 d1)) = length (ht_table (d_ht0 d))
          \<and> d_rehashidx d < d_rehashidx d1"
    using rehash_round [OF Cons.prems(1)] by blast
  show ?case
  proof (cases "dictIsRehashing d1 \<and> t \<le> ms")
    case True
    then have "dict_ok d1" "dictIsRehashing d1 \<longrightarrow> int (length (ht_table (d_ht0 d1))) \<le> d_rehashidx d1 + int (length readings)"
      using d1(2) r Cons.prems(2) by (auto simp: moved_def)
    from Cons.IH [OF this, of "r + 100"] obtain k d2 where "rehash_rounds ms readings (r + 100) d1 = Inr (Some (r + 100 + 100 * k, d2))"
        "moved d1 d2" "k \<le> length readings" "(\<forall>t \<in> set readings. t \<le> ms) \<longrightarrow> \<not> dictIsRehashing d2" by blast
    with True d1 show ?thesis by (intro exI [of _ "Suc k"] exI [of _ d2]) (auto intro: moved_trans)
  next
    case False
    with d1 show ?thesis by (intro exI [of _ "if dictIsRehashing d1 then 1 else 0"] exI [of _ d1]) auto
  qed
qed

text \<open>
  C12. The loop of \<open>dictRehashMilliseconds\<close> ends whatever the clock says: after at most as many rounds as the old
  table has buckets every entry has been moved. It keeps the invariant and the map, and when the time limit is
  never exceeded the dictionary is left with one table.
\<close>

theorem dictRehashMilliseconds_terminates:
  assumes "dict_ok d" and "ht_size (d_ht0 d) \<le> length readings"
  shows "\<exists>k d'. dictRehashMilliseconds ms readings d = Inr (Some (100 * k, d')) \<and> k \<le> length readings
     \<and> dict_ok d' \<and> dict_map d' = dict_map d \<and> ((\<forall>t \<in> set readings. t \<le> ms) \<longrightarrow> \<not> dictIsRehashing d')"
proof -
  have "int (length (ht_table (d_ht0 d))) \<le> d_rehashidx d + int (length readings)" if "dictIsRehashing d"
    using assms that ht_ok_size [OF dict_okD(2) [OF assms(1), of False]] by (simp add: dict_ok_def ht_at_def)
  then obtain k d' where "rehash_rounds ms readings 0 d = Inr (Some (0 + 100 * k, d'))" "moved d d'" "k \<le> length readings"
      "(\<forall>t \<in> set readings. t \<le> ms) \<longrightarrow> \<not> dictIsRehashing d'"
    using rehash_rounds_ends [OF assms(1)] by blast
  then show ?thesis using moved_map [OF _ assms(1)] by (auto simp: dictRehashMilliseconds_def moved_def)
qed

definition small_dict :: "(nat, string) dict" where
  "small_dict = \<lparr>d_type = byte_type,
     d_ht0 = \<lparr>ht_table = [[], [(1, Some ''a''), (5, Some ''b'')], [], []], ht_size = 4, ht_sizemask = 3, ht_used = 2\<rparr>,
     d_ht1 = \<lparr>ht_table = replicate 8 [], ht_size = 8, ht_sizemask = 7, ht_used = 0\<rparr>, d_rehashidx = 0, d_iterators = 0\<rparr>"

lemma small_dict_ok: "dict_ok small_dict"
proof -
  have h: "dictHashKey small_dict = of_nat" by (simp add: small_dict_def dictHashKey_def byte_type_def fun_eq_iff)
  have "ht_ok of_nat (d_ht0 small_dict)"
    unfolding ht_ok_def by (intro disjI2 exI [of _ 2]) (simp add: small_dict_def masked_def less_Suc_eq numeral_eq_Suc)
  moreover have "ht_ok of_nat (d_ht1 small_dict)"
    unfolding ht_ok_def by (intro disjI2 exI [of _ 3]) (simp add: small_dict_def)
  ultimately show ?thesis
    by (simp add: dict_ok_def h) (simp add: small_dict_def type_ok_def byte_type_def entries_def dictIsRehashing_def)
qed

theorem dictRehashMilliseconds_terminates_witness:
  "\<exists>k d'. dictRehashMilliseconds 1 [0, 0, 0, 0] small_dict = Inr (Some (100 * k, d')) \<and> dict_map d' 5 = Some (Some ''b'') \<and> \<not> dictIsRehashing d'"
proof -
  have "dict_map small_dict 5 = Some (Some ''b'')" by (simp add: small_dict_def dict_map_def entries_def)
  moreover have "ht_size (d_ht0 small_dict) \<le> length [0 :: int, 0, 0, 0]" by (simp add: small_dict_def)
  ultimately show ?thesis using dictRehashMilliseconds_terminates [OF small_dict_ok, of "[0, 0, 0, 0]" 1] by auto
qed

end
