(* ===== verification/Dict_Scan.thy ===== *)
theory Dict_Scan
  imports Dict_Map
begin

section \<open>Scanning a dictionary\<close>

text \<open>
  What \<open>dictScan\<close> guarantees while the dictionary changes between the calls. The order of the scan is that of the
  reversed hash values.
\<close>

subsection \<open>Reversing bits\<close>

definition swapped :: "nat \<Rightarrow> nat \<Rightarrow> nat" where
  "swapped s n = (if even (n div s) then n + s else n - s)"

definition alternates :: "nat \<Rightarrow> 64 word \<Rightarrow> bool" where
  "alternates s m \<longleftrightarrow> (\<forall>n < 64. bit m n \<longleftrightarrow> even (n div s))"

lemma bit_swap:
  assumes "alternates s m" and "0 < s" and "n < 64"
  shows "bit ((drop_bit s v AND m) OR (push_bit s v AND NOT m)) n \<longleftrightarrow> bit v (swapped s n)"
proof (cases "even (n div s)")
  case True
  then have "bit m n" using assms by (simp add: alternates_def)
  with True assms(3) show ?thesis by (simp add: bit_simps swapped_def ac_simps)
next
  case False
  then have "\<not> bit m n" "s \<le> n" using assms by (auto simp: alternates_def intro: ccontr)
  with False assms(3) show ?thesis by (auto simp: bit_simps swapped_def)
qed

lemma alternates_half:
  assumes "alternates (2 * s) m" and "0 < s"
  shows "alternates s (m XOR push_bit s m)"
  unfolding alternates_def
proof (intro allI impI)
  fix n :: nat assume n: "n < 64"
  let ?q = "n div s"
  have m: "bit m i \<longleftrightarrow> even (i div s div 2)" if "i < 64" for i
    using that assms(1) by (simp add: alternates_def div_mult2_eq [symmetric] mult.commute)
  show "bit (m XOR push_bit s m) n \<longleftrightarrow> even ?q"
  proof (cases "n < s")
    case True
    then show ?thesis using n m [of n] by (simp add: bit_simps)
  next
    case False
    then have "(n - s) div s = ?q - 1" "0 < ?q" using assms(2) by (simp_all add: le_div_geq div_greater_zero_iff)
    moreover have "even (q div 2) \<noteq> even ((q - 1) div 2) \<longleftrightarrow> even q" if "0 < q" for q :: nat
      using that by presburger
    ultimately show ?thesis using False n m [of n] m [of "n - s"] by (simp add: bit_simps)
  qed
qed

text \<open>Each swap doubles the length of the blocks of the index that are reversed.\<close>

definition mirrored :: "nat \<Rightarrow> nat \<Rightarrow> nat" where
  "mirrored s n = n div s * s + (s - 1 - n mod s)"

lemma swapped_mirrored:
  assumes "0 < s"
  shows "swapped s (mirrored s n) = mirrored (2 * s) n"
proof -
  define q r where "q = n div s" and "r = n mod s"
  have r: "r < s" using assms by (simp add: r_def)
  have d: "(q * s + (s - 1 - r)) div s = q" using assms r by (simp only: div_mult_self3 div_less)
  have "n mod (s * 2) = s * (q mod 2) + r" "n div (s * 2) = q div 2"
    by (simp_all add: mod_mult2_eq div_mult2_eq q_def r_def)
  then have m: "mirrored (2 * s) n = q div 2 * (2 * s) + (2 * s - 1 - (s * (q mod 2) + r))"
    by (simp add: mirrored_def mult.commute)
  show ?thesis
  proof (cases "even q")
    case True
    then obtain p where "q = 2 * p" by (rule evenE)
    then show ?thesis using r d unfolding m swapped_def by (simp add: mirrored_def q_def [symmetric] r_def [symmetric])
  next
    case False
    then obtain p where "q = 2 * p + 1" by (rule oddE)
    then have p: "q mod 2 = 1" "q div 2 = p" "q * s = p * (2 * s) + s" by simp_all
    from False have "swapped s (mirrored s n) = q * s + (s - 1 - r) - s"
      using d by (simp add: swapped_def mirrored_def q_def [symmetric] r_def [symmetric])
    then show ?thesis using r unfolding m p by simp
  qed
qed

lemma mirrored_bound:
  assumes "i \<le> 6" and "n < 64"
  shows "mirrored (2 ^ i) n < 64"
proof -
  have "n div 2 ^ i < 2 ^ (6 - i)" using assms by (simp add: less_mult_imp_div_less power_add [symmetric])
  then have "(n div 2 ^ i + 1) * 2 ^ i \<le> 2 ^ (6 - i) * 2 ^ i" by (intro mult_le_mono1) simp
  also have "\<dots> = 64" using assms(1) by (simp add: power_add [symmetric])
  finally have "(n div 2 ^ i + 1) * 2 ^ i \<le> 64" .
  moreover have "mirrored (2 ^ i) n < (n div 2 ^ i + 1) * 2 ^ i" by (simp add: mirrored_def)
  ultimately show ?thesis by linarith
qed

lemma bit_rev_loop:
  "i \<le> 6 \<Longrightarrow> alternates (2 ^ i) m \<Longrightarrow> n < 64 \<Longrightarrow> bit (rev_loop (2 ^ i) m v) n \<longleftrightarrow> bit v (mirrored (2 ^ i) n)"
proof (induction i arbitrary: m v)
  case 0
  then show ?case by (subst rev_loop.simps) (simp add: mirrored_def)
next
  case (Suc i)
  let ?m = "m XOR push_bit (2 ^ i) m"
  have alt: "alternates (2 ^ i) ?m" using Suc.prems(2) by (intro alternates_half) simp_all
  have "rev_loop (2 ^ Suc i) m v = rev_loop (2 ^ i) ?m ((drop_bit (2 ^ i) v AND ?m) OR (push_bit (2 ^ i) v AND NOT ?m))"
    by (subst rev_loop.simps) (simp add: Let_def)
  then have "bit (rev_loop (2 ^ Suc i) m v) n \<longleftrightarrow> bit v (swapped (2 ^ i) (mirrored (2 ^ i) n))"
    using Suc.IH [OF _ alt Suc.prems(3)] bit_swap [OF alt _ mirrored_bound] Suc.prems(1,3) by simp
  then show ?case by (simp add: swapped_mirrored)
qed

lemma bit_rev_bits:
  assumes "n < 64"
  shows "bit (rev_bits v) n \<longleftrightarrow> bit v (63 - n)"
proof -
  have "alternates (2 ^ 6) (NOT 0)" by (simp add: alternates_def bit_simps)
  then show ?thesis using bit_rev_loop [of 6 "NOT 0" n v] assms by (simp add: rev_bits_def mirrored_def)
qed

subsection \<open>The place of a cursor in the scan\<close>

definition scan_pos :: "64 word \<Rightarrow> nat" where
  "scan_pos v = unat (rev_bits v)"

lemma rev_bits_rev_bits [simp]: "rev_bits (rev_bits v) = v"
  by (rule bit_word_eqI) (simp add: bit_rev_bits)

lemma scan_pos_inj: "scan_pos v = scan_pos w \<longleftrightarrow> v = w"
  unfolding scan_pos_def by (metis rev_bits_rev_bits word_unat_eq_iff)

lemma rev_bits_0: "rev_bits 0 = 0"
  by (rule bit_word_eqI) (simp add: bit_rev_bits)

lemma scan_pos_0 [simp]: "scan_pos v = 0 \<longleftrightarrow> v = 0"
  using scan_pos_inj [of v 0] by (simp add: scan_pos_def rev_bits_0)

lemma scan_pos_less: "scan_pos v < 2 ^ 64"
  unfolding scan_pos_def by (rule order_less_le_trans [OF unsigned_less]) simp

lemma unat_high:
  fixes x :: "64 word"
  shows "unat (push_bit j (drop_bit j x)) = unat x div 2 ^ j * 2 ^ j"
proof -
  have "unat x div 2 ^ j * 2 ^ j \<le> unat x" by simp
  also have "unat x < 2 ^ 64" using unsigned_less [of x] by simp
  finally have "unat x div 2 ^ j * 2 ^ j < 2 ^ 64" .
  moreover have "unat (push_bit j (drop_bit j x)) = unat x div 2 ^ j * 2 ^ j mod 2 ^ 64"
    unfolding unsigned_push_bit_eq unsigned_drop_bit_eq
    unfolding take_bit_eq_mod push_bit_eq_mult drop_bit_eq_div
    using unsigned_less [of x, where ?'a = nat] by simp
  ultimately show ?thesis by simp
qed

text \<open>The low bits of the cursor are the high ones of its place.\<close>

lemma scan_pos_low:
  assumes "k \<le> 64"
  shows "scan_pos (take_bit k v) = scan_pos v div 2 ^ (64 - k) * 2 ^ (64 - k)"
proof -
  have "rev_bits (take_bit k v) = push_bit (64 - k) (drop_bit (64 - k) (rev_bits v))"
    using assms by (intro bit_word_eqI) (auto simp: bit_rev_bits bit_simps)
  then show ?thesis by (simp add: scan_pos_def unat_high)
qed

lemma same_low_bits:
  "k \<le> 64 \<Longrightarrow> take_bit k v = take_bit k w \<longleftrightarrow> scan_pos v div 2 ^ (64 - k) = scan_pos w div 2 ^ (64 - k)"
  by (simp add: scan_pos_inj [symmetric] scan_pos_low)

lemma aligned_cursor:
  "k \<le> 64 \<Longrightarrow> 2 ^ (64 - k) dvd scan_pos v \<Longrightarrow> take_bit k v = v"
  by (simp add: scan_pos_inj [symmetric] scan_pos_low)

lemma word_64_len: "LENGTH(64) = 64"
  by simp

lemma scan_cursor_pos:
  assumes "k \<le> 64"
  shows "scan_pos (scan_cursor (mask k) v) = (scan_pos v div 2 ^ (64 - k) + 1) * 2 ^ (64 - k) mod 2 ^ 64"
proof -
  let ?j = "64 - k"
  have "rev_bits (v OR NOT (mask k)) = push_bit ?j (drop_bit ?j (rev_bits v)) OR mask ?j"
    using assms by (intro bit_word_eqI) (auto simp: bit_rev_bits bit_simps)
  also have "\<dots> = push_bit ?j (drop_bit ?j (rev_bits v)) + mask ?j"
    by (rule disjunctive_add [symmetric]) (auto simp: bit_simps)
  finally have "rev_bits (v OR NOT (mask k)) + 1 = push_bit ?j (drop_bit ?j (rev_bits v)) + 2 ^ ?j"
    by (simp add: mask_eq_exp_minus_1)
  also have "\<dots> = of_nat (unat (rev_bits v) div 2 ^ ?j * 2 ^ ?j + 2 ^ ?j)"
    by (simp add: unat_high [symmetric])
  also have "unat (rev_bits v) div 2 ^ ?j * 2 ^ ?j + 2 ^ ?j = (scan_pos v div 2 ^ ?j + 1) * 2 ^ ?j"
    by (simp only: add_mult_distrib mult_1 scan_pos_def)
  finally have e: "rev_bits (v OR NOT (mask k)) + 1 = of_nat ((scan_pos v div 2 ^ ?j + 1) * 2 ^ ?j)" .
  have "scan_pos (scan_cursor (mask k) v) = unat (rev_bits (v OR NOT (mask k)) + 1)"
    by (simp only: scan_pos_def scan_cursor_def rev_bits_rev_bits)
  then show ?thesis unfolding e unsigned_of_nat take_bit_eq_mod by (simp only: word_64_len of_nat_id)
qed

subsection \<open>The buckets of the larger table\<close>

lemma next_expansion:
  fixes v :: "64 word"
  shows "(((v OR mask k) + 1) AND NOT (mask k)) OR (v AND mask k) = v + 2 ^ k"
proof -
  let ?h = "push_bit k (drop_bit k v)"
  have "v OR mask k = ?h OR mask k" by (rule bit_word_eqI) (auto simp: bit_simps)
  also have "\<dots> = ?h + mask k" by (rule disjunctive_add [symmetric]) (auto simp: bit_simps)
  finally have "(v OR mask k) + 1 = ?h + 2 ^ k" by (simp add: mask_eq_exp_minus_1)
  also have "\<dots> = push_bit k (drop_bit k v + 1)" by (simp add: push_bit_eq_mult algebra_simps)
  finally have "((v OR mask k) + 1) AND NOT (mask k) = push_bit k (drop_bit k v + 1)"
    by (simp, intro bit_word_eqI) (auto simp: bit_simps)
  then have "(((v OR mask k) + 1) AND NOT (mask k)) OR (v AND mask k) = push_bit k (drop_bit k v + 1) OR take_bit k v"
    by (simp add: take_bit_eq_mask)
  also have "\<dots> = push_bit k (drop_bit k v + 1) + take_bit k v"
    by (rule disjunctive_add [symmetric]) (auto simp: bit_simps)
  also have "\<dots> = (?h + take_bit k v) + 2 ^ k" by (simp add: push_bit_eq_mult algebra_simps)
  also have "?h + take_bit k v = v" by (simp add: bits_ident)
  finally show ?thesis .
qed

lemma last_expansion:
  fixes v :: "64 word"
  assumes "k \<le> l" and "l < 64"
  shows "v AND (mask k XOR mask l) = 0 \<longleftrightarrow> unat v mod 2 ^ k = unat v mod 2 ^ l"
proof -
  have "v AND (mask k XOR mask l) = 0 \<longleftrightarrow> take_bit k v = take_bit l v"
    using assms(1) by (auto simp: bit_eq_iff bit_simps)
  also have "\<dots> \<longleftrightarrow> unat (take_bit k v) = unat (take_bit l v)" by (rule word_unat_eq_iff)
  also have "\<dots> \<longleftrightarrow> unat v mod 2 ^ k = unat v mod 2 ^ l" unfolding unsigned_take_bit_eq by (simp only: take_bit_eq_mod)
  finally show ?thesis .
qed

lemma expansion_less:
  assumes "k \<le> l" and "u < 2 ^ k" and "c < 2 ^ (l - k)"
  shows "u + c * 2 ^ k < (2 :: nat) ^ l"
proof -
  have "u + c * 2 ^ k < (c + 1) * 2 ^ k" using assms(2) by simp
  also have "\<dots> \<le> 2 ^ (l - k) * 2 ^ k" using assms(3) by (intro mult_le_mono1) simp
  also have "\<dots> = 2 ^ l" using assms(1) by (simp add: power_add [symmetric])
  finally show ?thesis .
qed

lemma scan_expand_buckets:
  assumes "k \<le> l" and "l < 64" and "u < 2 ^ k" and "length (ht_table t) = 2 ^ l" and "c < 2 ^ (l - k)"
  shows "scan_expand t (mask k) (mask l) (of_nat (u + c * 2 ^ k)) out
     = Some (Inr (out @ concat (map (\<lambda>c. ht_table t ! (u + c * 2 ^ k)) [c ..< 2 ^ (l - k)]), of_nat (u + 2 ^ l)))"
  using assms(5)
proof (induction "2 ^ (l - k) - c" arbitrary: c out)
  case (Suc i)
  have l: "2 ^ (l - k) * 2 ^ k = (2 :: nat) ^ l" using assms(1) by (simp add: power_add [symmetric])
  note in_range = expansion_less [OF assms(1,3)]
  have big: "(2 :: nat) ^ l + 2 ^ k \<le> 2 ^ 64"
    using power_increasing [of l 63 "2 :: nat"] power_increasing [of k 63 "2 :: nat"] assms(1,2) by simp
  have u: "unat (of_nat n :: 64 word) = n" if "n < 2 ^ l + 2 ^ k" for n
    using that big by (simp add: unsigned_of_nat take_bit_nat_eq_self)
  let ?v = "of_nat (u + c * 2 ^ k) :: 64 word"
  have "unat (?v AND mask l) = unat ?v mod 2 ^ l"
    unfolding take_bit_eq_mask [symmetric] unsigned_take_bit_eq by (simp only: take_bit_eq_mod)
  then have i: "unat (?v AND mask l) = u + c * 2 ^ k"
    using in_range [OF Suc.prems] u [of "u + c * 2 ^ k"] by (simp del: of_nat_add of_nat_mult)
  have n: "?v + 2 ^ k = of_nat (u + Suc c * 2 ^ k)" by simp
  have r: "[c ..< 2 ^ (l - k)] = c # [Suc c ..< 2 ^ (l - k)]" using Suc.prems by (rule upt_conv_Cons)
  have step: "scan_expand t (mask k) (mask l) ?v out =
      (let v = of_nat (u + Suc c * 2 ^ k); b = ht_table t ! (u + c * 2 ^ k) in
       if v AND (mask k XOR mask l) = 0 then Some (Inr (out @ b, v)) else scan_expand t (mask k) (mask l) v (out @ b))"
    by (subst scan_expand.simps) (simp only: i next_expansion n read_bucket_ok assms(4) in_range [OF Suc.prems] sum.case Let_def)
  show ?case
  proof (cases "Suc c < 2 ^ (l - k)")
    case True
    have w: "unat (of_nat (u + Suc c * 2 ^ k) :: 64 word) = u + Suc c * 2 ^ k" using in_range [OF True] by (intro u) simp
    have "(u + Suc c * 2 ^ k) mod 2 ^ k = u" using assms(3) by (simp only: mod_mult_self1 mod_less)
    then have "of_nat (u + Suc c * 2 ^ k) AND (mask k XOR mask l :: 64 word) \<noteq> 0"
      unfolding last_expansion [OF assms(1,2)] w using mod_less [OF in_range [OF True]] by simp
    with Suc.hyps(1) [of "Suc c"] Suc.hyps(2) True show ?thesis unfolding step r by (simp add: Let_def del: of_nat_add of_nat_Suc of_nat_mult)
  next
    case False
    with Suc.prems have c: "Suc c = 2 ^ (l - k)" by simp
    have "unat (of_nat (u + 2 ^ l) :: 64 word) = u + 2 ^ l" using assms(3) by (intro u) simp
    moreover have "(u + 2 ^ l) mod 2 ^ k = (u + 2 ^ l) mod (2 :: nat) ^ l"
      using in_range [of 0] mod_mult_self1 [of u "2 ^ (l - k)" "2 ^ k"] assms(3) unfolding l by simp
    ultimately have "of_nat (u + 2 ^ l) AND (mask k XOR mask l :: 64 word) = 0" unfolding last_expansion [OF assms(1,2)] by simp
    then show ?thesis unfolding step r c l by (simp add: Let_def del: of_nat_add)
  qed
qed simp

subsection \<open>One call\<close>

definition scan_size :: "('k, 'v) dict \<Rightarrow> nat" where
  "scan_size d = (if dictIsRehashing d then min (ht_size (d_ht0 d)) (ht_size (d_ht1 d)) else ht_size (d_ht0 d))"

lemma masked_take:
  "ht_sizemask t = 2 ^ k - 1 \<Longrightarrow> (of_nat (ht_sizemask t) :: 64 word) = mask k \<and> masked h t = unat (take_bit k h)"
  by (simp add: mask_eq_exp_minus_1 masked_def take_bit_eq_mask)

lemma ht_ok_pow2:
  assumes "ht_ok hash t" and "ht_table t \<noteq> []"
  obtains k where "k < 64" "ht_size t = 2 ^ k" "ht_sizemask t = 2 ^ k - 1" "length (ht_table t) = 2 ^ k"
  using assms by (auto simp: ht_ok_def)

lemma ht_ok_at:
  assumes "ht_ok hash t" and "ht_table t \<noteq> []" and "e \<in> set (concat (ht_table t))"
  shows "e \<in> set (ht_table t ! masked (hash (fst e)) t)"
proof -
  obtain b where "b \<in> set (ht_table t)" "e \<in> set b" using assms(3) by auto
  then obtain i where "i < length (ht_table t)" "e \<in> set (ht_table t ! i)" by (metis in_set_conv_nth)
  then show ?thesis using ht_ok_bucket [OF assms(1)] by metis
qed

lemma bucket_entries: "i < length (ht_table t) \<Longrightarrow> set (ht_table t ! i) \<subseteq> set (concat (ht_table t))"
  using nth_mem by fastforce

text \<open>The expansions of the cursor in the larger table hold every entry whose hash has the low bits of the cursor.\<close>

lemma expansions_complete:
  assumes "ht_ok hash t" and "length (ht_table t) = 2 ^ l" and "ht_sizemask t = 2 ^ l - 1" and "k \<le> l" and "u < 2 ^ k"
    and "e \<in> set (concat (ht_table t))" and "unat (take_bit k (hash (fst e))) = u"
  shows "e \<in> set (concat (map (\<lambda>c. ht_table t ! (u + c * 2 ^ k)) [0 ..< 2 ^ (l - k)]))"
proof -
  let ?i = "masked (hash (fst e)) t"
  have ne: "ht_table t \<noteq> []" using assms(2) by auto
  have i: "?i < 2 ^ l" using masked_less [OF assms(1) ne] assms(2) by simp
  have "take_bit k (take_bit l (hash (fst e))) = take_bit k (hash (fst e))" using assms(4) by simp
  then have "unat (take_bit l (hash (fst e))) mod 2 ^ k = u" using assms(7)
    by (metis take_bit_eq_mod unsigned_take_bit_eq)
  then have "?i = u + ?i div 2 ^ k * 2 ^ k" using masked_take [OF assms(3)] by (metis add.commute div_mult_mod_eq)
  moreover have "?i div 2 ^ k < 2 ^ (l - k)"
    using i assms(4) by (intro less_mult_imp_div_less) (simp add: power_add [symmetric])
  ultimately show ?thesis using ht_ok_at [OF assms(1) ne assms(6)] by (auto intro!: bexI [of _ "?i div 2 ^ k"])
qed

text \<open>The cursor a call returns depends on the low bits of the one it is given.\<close>

lemma scan_cursor_low: "take_bit k v = take_bit k w \<Longrightarrow> scan_cursor (mask k) v = scan_cursor (mask k) w"
proof -
  assume e: "take_bit k v = take_bit k w"
  have "x OR NOT (mask k) = take_bit k x OR NOT (mask k)" for x :: "64 word"
    by (rule bit_word_eqI) (auto simp: bit_simps)
  then show ?thesis using e by (metis scan_cursor_def)
qed

definition emits :: "64 word \<Rightarrow> nat \<Rightarrow> ('k, 'v) dict \<Rightarrow> ('k, 'v) dictEntry list \<Rightarrow> bool" where
  "emits v k d es \<longleftrightarrow> set es \<subseteq> set (entries d)
     \<and> (\<forall>e \<in> set (entries d). take_bit k (dictHashKey d (fst e)) = take_bit k v \<longrightarrow> e \<in> set es)"

lemma scan_plain:
  assumes "dict_ok d" and "dictSize d \<noteq> 0" and "\<not> dictIsRehashing d" and "scan_size d = 2 ^ k"
  shows "\<exists>es. dictScan v d = Some (Inr (es, scan_cursor (mask k) v)) \<and> emits v k d es"
proof -
  let ?t = "d_ht0 d"
  have ok: "ht_ok (dictHashKey d) ?t" and e1: "entries d = concat (ht_table ?t)"
    using assms(1,3) by (simp_all add: dict_ok_def entries_def)
  have ne: "ht_table ?t \<noteq> []" using table0_entries [OF assms(1)] dictSize_entries [OF assms(1)] assms(2) by auto
  have k: "ht_sizemask ?t = 2 ^ k - 1" using ht_ok_pow2 [OF ok ne] assms(3,4) by (metis scan_size_def)
  let ?i = "unat (take_bit k v)"
  have i: "masked v ?t = ?i" "(of_nat (ht_sizemask ?t) :: 64 word) = mask k" using masked_take [OF k] by simp_all
  have l: "?i < length (ht_table ?t)" using masked_less [OF ok ne, of v] i by simp
  have s: "dictScan v d = Some (Inr (ht_table ?t ! ?i, scan_cursor (mask k) v))"
    using assms(2,3) l i read_bucket_ok [OF l] by (simp add: dictScan_def Let_def take_bit_eq_mask)
  have "e \<in> set (ht_table ?t ! ?i)" if "e \<in> set (entries d)" "take_bit k (dictHashKey d (fst e)) = take_bit k v" for e
    using ht_ok_at [OF ok ne, of e] that masked_take [OF k, of "dictHashKey d (fst e)"] unfolding e1 by simp
  then show ?thesis using s bucket_entries [OF l] by (intro exI [of _ "ht_table ?t ! ?i"]) (simp add: emits_def e1)
qed

text \<open>Both tables in the order of their sizes.\<close>

definition scan_tables :: "('k, 'v) dict \<Rightarrow> ('k, 'v) dictht \<times> ('k, 'v) dictht" where
  "scan_tables d = (if ht_size (d_ht0 d) > ht_size (d_ht1 d) then (d_ht1 d, d_ht0 d) else (d_ht0 d, d_ht1 d))"

lemma scan_tables_ok:
  assumes "dict_ok d" and "dictIsRehashing d" and "scan_tables d = (t0, t1)"
  shows "ht_ok (dictHashKey d) t0" "ht_ok (dictHashKey d) t1" "ht_table t0 \<noteq> []" "ht_table t1 \<noteq> []"
    "set (entries d) = set (concat (ht_table t0)) \<union> set (concat (ht_table t1))" "ht_size t0 \<le> ht_size t1" "scan_size d = ht_size t0"
  using assms by (auto simp: dict_ok_def scan_tables_def entries_def scan_size_def split: if_splits)

lemma scan_rehashing:
  assumes "dict_ok d" and "dictSize d \<noteq> 0" and "dictIsRehashing d" and "scan_size d = 2 ^ k" and "take_bit k v = v"
  shows "\<exists>es. dictScan v d = Some (Inr (es, scan_cursor (mask k) v)) \<and> emits v k d es"
proof -
  obtain t0 t1 where t: "scan_tables d = (t0, t1)" by (cases "scan_tables d")
  note ts = scan_tables_ok [OF assms(1,3) t]
  have k: "ht_sizemask t0 = 2 ^ k - 1" "length (ht_table t0) = 2 ^ k" using ht_ok_pow2 [OF ts(1,3)] ts(7) assms(4) by (metis power_inject_exp one_less_numeral_iff semiring_norm(76))+
  obtain l where l: "l < 64" "ht_size t1 = 2 ^ l" "ht_sizemask t1 = 2 ^ l - 1" "length (ht_table t1) = 2 ^ l"
    using ht_ok_pow2 [OF ts(2,4)] by blast
  have kl: "k \<le> l" using ts(6,7) l(2) assms(4) by (metis one_less_numeral_iff power_increasing_iff semiring_norm(76))
  let ?u = "unat v"
  let ?es = "ht_table t0 ! ?u @ concat (map (\<lambda>c. ht_table t1 ! (?u + c * 2 ^ k)) [0 ..< 2 ^ (l - k)])"
  have m: "(of_nat (ht_sizemask t0) :: 64 word) = mask k" "(of_nat (ht_sizemask t1) :: 64 word) = mask l" "masked v t0 = ?u"
    using masked_take [OF k(1), of v] masked_take [OF l(3)] assms(5) by simp_all
  have u: "?u < 2 ^ k" using masked_less [OF ts(1,3), of v] m(3) k(2) by simp
  have "scan_expand t1 (mask k) (mask l) v (ht_table t0 ! ?u) = Some (Inr (?es, of_nat (?u + 2 ^ l)))"
    using scan_expand_buckets [OF kl l(1) u l(4), of 0 "ht_table t0 ! ?u"] by simp
  moreover have "take_bit k (of_nat (?u + 2 ^ l) :: 64 word) = take_bit k v"
  proof -
    have low: "\<not> bit v n" if "k \<le> n" for n using that assms(5) by (metis bit_take_bit_iff not_le)
    have "(of_nat (?u + 2 ^ l) :: 64 word) = v + push_bit l 1" by (simp add: push_bit_eq_mult)
    also have "\<dots> = v OR push_bit l 1" using low kl by (intro disjunctive_add) (auto simp: bit_simps)
    finally show ?thesis using kl by (intro bit_word_eqI) (auto simp: bit_simps)
  qed
  moreover have "v AND mask k = v" using assms(5) by (simp add: take_bit_eq_mask)
  ultimately have s: "dictScan v d = Some (Inr (?es, scan_cursor (mask k) v))"
    using assms(2,3) t m u k(2) scan_cursor_low [of k "of_nat (?u + 2 ^ l)" v]
    by (simp add: dictScan_def scan_tables_def [symmetric] read_bucket_ok)
  have "e \<in> set ?es" if "e \<in> set (entries d)" "take_bit k (dictHashKey d (fst e)) = take_bit k v" for e
  proof -
    have h: "unat (take_bit k (dictHashKey d (fst e))) = ?u" using that(2) assms(5) by simp
    then show ?thesis using that(1) ht_ok_at [OF ts(1,3), of e] masked_take [OF k(1), of "dictHashKey d (fst e)"]
        expansions_complete [OF ts(2) l(4,3) kl u, of e] unfolding ts(5) set_append by auto
  qed
  moreover have "set ?es \<subseteq> set (entries d)"
    using bucket_entries [of ?u t0] bucket_entries [of _ t1] expansion_less [OF kl u] u k(2) l(4) unfolding ts(5) set_append set_concat set_map
    by (auto simp: subset_iff)
  ultimately show ?thesis using s unfolding emits_def by blast
qed

subsection \<open>A whole scan\<close>

text \<open>
  The calls of one scan, each on the dictionary as it is at that moment: what they emit, and whether the cursor
  came back to 0.
\<close>

fun scan_seq :: "64 word \<Rightarrow> ('k, 'v) dict list \<Rightarrow> (('k, 'v) dictEntry list \<times> bool) res option" where
  "scan_seq v [] = Some (Inr ([], False))"
| "scan_seq v (d # ds) =
     (case dictScan v d of
        None \<Rightarrow> None
      | Some (Inl e) \<Rightarrow> Some (Inl e)
      | Some (Inr (es, v')) \<Rightarrow>
          if v' = 0 then Some (Inr (es, True))
          else (case scan_seq v' ds of
                  None \<Rightarrow> None
                | Some r \<Rightarrow> Some (bindE r (\<lambda>(out, ended). Inr (es @ out, ended)))))"

lemma dictScan_call:
  assumes "dict_ok d" and "dictSize d \<noteq> 0" and "\<And>k. scan_size d = 2 ^ k \<Longrightarrow> 2 ^ (64 - k) dvd scan_pos v"
  obtains k es where "k < 64" "scan_size d = 2 ^ k" "dictScan v d = Some (Inr (es, scan_cursor (mask k) v))" "emits v k d es"
proof -
  have "ht_table (d_ht0 d) \<noteq> []" using table0_entries [OF assms(1)] dictSize_entries [OF assms(1)] assms(2) by auto
  then have "\<exists>k < 64. scan_size d = 2 ^ k"
    using assms(1) by (auto simp: scan_size_def dict_ok_def ht_ok_def min_def)
  then obtain k where k: "k < 64" "scan_size d = 2 ^ k" by blast
  have "take_bit k v = v" using assms(3) [OF k(2)] k(1) by (intro aligned_cursor) simp_all
  then show ?thesis
    using that [OF k] scan_plain [OF assms(1,2) _ k(2), of v] scan_rehashing [OF assms(1,2) _ k(2), of v] by blast
qed

text \<open>A call moves the cursor to the next place, past the keys it emits, or has come to the end.\<close>

lemma scan_advance:
  assumes "k < 64" and "2 ^ (64 - k) dvd scan_pos v" and "v' = scan_cursor (mask k) v"
  shows "v' = 0 \<Longrightarrow> scan_pos v div 2 ^ (64 - k) = 2 ^ k - 1"
    and "v' \<noteq> 0 \<Longrightarrow> scan_pos v' = scan_pos v + 2 ^ (64 - k)"
proof -
  let ?j = "64 - k"
  have e: "(2 :: nat) ^ 64 = 2 ^ k * 2 ^ ?j" using assms(1) by (simp only: power_add [symmetric]) simp
  obtain q where q: "scan_pos v = q * 2 ^ ?j" using assms(2) by (metis dvd_def mult.commute)
  have ql: "q < 2 ^ k" using scan_pos_less [of v] unfolding q e by simp
  have v': "scan_pos v' = (q + 1) * 2 ^ ?j mod (2 ^ k * 2 ^ ?j)"
    using scan_cursor_pos [of k v] assms(1) unfolding assms(3) q e by simp
  show "scan_pos v div 2 ^ ?j = 2 ^ k - 1" if "v' = 0"
  proof -
    have "scan_pos v' = 0" using that by simp
    then have "\<not> (q + 1) * 2 ^ ?j < 2 ^ k * 2 ^ ?j" unfolding v' by auto
    then have "\<not> q + 1 < 2 ^ k" unfolding mult_less_cancel2 by simp
    then show ?thesis using ql unfolding q by simp
  qed
  show "scan_pos v' = scan_pos v + 2 ^ ?j" if "v' \<noteq> 0"
  proof -
    have "scan_pos v' \<noteq> 0" using that by simp
    then have "q + 1 \<noteq> 2 ^ k" unfolding v' by (metis mod_self)
    then have "(q + 1) * 2 ^ ?j < 2 ^ k * 2 ^ ?j" using ql unfolding mult_less_cancel2 by simp
    then show ?thesis unfolding v' q by simp
  qed
qed

lemma not_yet_scanned:
  assumes "k < 64" and "2 ^ (64 - k) dvd scan_pos v" and "v' = scan_cursor (mask k) v" and "scan_pos v \<le> scan_pos h"
    and "take_bit k h \<noteq> take_bit k v"
  shows "v' \<noteq> 0 \<and> scan_pos v' \<le> scan_pos h"
proof -
  let ?j = "64 - k"
  have e: "(2 :: nat) ^ 64 = 2 ^ k * 2 ^ ?j" using assms(1) by (simp only: power_add [symmetric]) simp
  have "scan_pos h div 2 ^ ?j < 2 ^ k" using scan_pos_less [of h] unfolding e by (rule less_mult_imp_div_less)
  moreover have lt: "scan_pos v div 2 ^ ?j < scan_pos h div 2 ^ ?j"
    using div_le_mono [OF assms(4), of "2 ^ ?j"] same_low_bits [of k h v] assms(1,5) by simp
  ultimately have v': "v' \<noteq> 0" using scan_advance(1) [OF assms(1-3)] by auto
  have "scan_pos v + 2 ^ ?j = (scan_pos v div 2 ^ ?j + 1) * 2 ^ ?j" using assms(2) by simp
  also have "\<dots> \<le> scan_pos h div 2 ^ ?j * 2 ^ ?j" using lt by (intro mult_le_mono1) simp
  also have "\<dots> \<le> scan_pos h" by simp
  finally show ?thesis using v' scan_advance(2) [OF assms(1-3) v'] by simp
qed

lemma scan_seq_spec:
  assumes "\<forall>d \<in> set ds. dict_ok d \<and> dictHashKey d = hash \<and> scan_size d \<le> 2 ^ K" and "K < 64" and "sorted (map scan_size ds)"
    and "\<And>d k. d \<in> set ds \<Longrightarrow> scan_size d = 2 ^ k \<Longrightarrow> 2 ^ (64 - k) dvd scan_pos v" and "2 ^ 64 \<le> scan_pos v + length ds * 2 ^ (64 - K)"
  shows "\<exists>out. scan_seq v ds = Some (Inr (out, True)) \<and> set out \<subseteq> (\<Union>d \<in> set ds. set (entries d))
     \<and> (\<forall>x. (\<forall>d \<in> set ds. x \<in> fst ` set (entries d)) \<longrightarrow> scan_pos v \<le> scan_pos (hash x) \<longrightarrow> x \<in> fst ` set out)"
  using assms(1,3-5)
proof (induction ds arbitrary: v)
  case Nil
  then show ?case using scan_pos_less [of v] by simp
next
  case (Cons d ds)
  show ?case
  proof (cases "dictSize d = 0")
    case True
    then have "entries d = []" using dictSize_entries [of d] Cons.prems(1) by simp
    with True show ?thesis by (simp add: dictScan_def)
  next
    case False
    have d: "dict_ok d" "dictHashKey d = hash" "scan_size d \<le> 2 ^ K" using Cons.prems(1) by simp_all
    obtain k es where k: "k < 64" "scan_size d = 2 ^ k" and s: "dictScan v d = Some (Inr (es, scan_cursor (mask k) v))" and es: "emits v k d es"
      using dictScan_call [OF d(1) False] Cons.prems(3) [of d] by (metis list.set_intros(1))
    define v' where "v' = scan_cursor (mask k) v"
    have al: "2 ^ (64 - k) dvd scan_pos v" using Cons.prems(3) [of d] k(2) by simp
    note later = not_yet_scanned [OF k(1) al v'_def]
    have now: "x \<in> fst ` set es" if "x \<in> fst ` set (entries d)" "take_bit k (hash x) = take_bit k v" for x
      using that es d(2) by (force simp: emits_def)
    show ?thesis
    proof (cases "v' = 0")
      case True
      then show ?thesis using s es now later by (auto simp: v'_def emits_def)
    next
      case False
      note v' = scan_advance(2) [OF k(1) al v'_def False]
      have kK: "k \<le> K" using d(3) k(2) by simp
      then have "2 ^ (64 - K) \<le> (2 :: nat) ^ (64 - k)" by (intro power_increasing) simp_all
      moreover have "length (d # ds) * 2 ^ (64 - K) = 2 ^ (64 - K) + length ds * 2 ^ (64 - K)" by simp
      ultimately have "2 ^ 64 \<le> scan_pos v' + length ds * 2 ^ (64 - K)" using Cons.prems(4) v' by linarith
      moreover have "2 ^ (64 - i) dvd scan_pos v'" if "d' \<in> set ds" "scan_size d' = 2 ^ i" for d' i
      proof -
        have "k \<le> i" using Cons.prems(2) that k(2) by auto
        then have "(2 :: nat) ^ (64 - i) dvd 2 ^ (64 - k)" by (intro le_imp_power_dvd) simp
        then show ?thesis using Cons.prems(3) [of d' i] that unfolding v' by simp
      qed
      ultimately obtain out where out: "scan_seq v' ds = Some (Inr (out, True))" "set out \<subseteq> (\<Union>d \<in> set ds. set (entries d))"
          and rest: "\<And>x. \<forall>d \<in> set ds. x \<in> fst ` set (entries d) \<Longrightarrow> scan_pos v' \<le> scan_pos (hash x) \<Longrightarrow> x \<in> fst ` set out"
        using Cons.IH [of v'] Cons.prems(1,2) by auto
      have "x \<in> fst ` set (es @ out)" if "\<forall>d \<in> set (d # ds). x \<in> fst ` set (entries d)" "scan_pos v \<le> scan_pos (hash x)" for x
        using that now [of x] rest [of x] later [OF that(2)] by (cases "take_bit k (hash x) = take_bit k v") auto
      moreover have "scan_seq v (d # ds) = Some (Inr (es @ out, True))" using s out(1) False by (simp add: v'_def)
      moreover have "set (es @ out) \<subseteq> (\<Union>d \<in> set (d # ds). set (entries d))" using es out(2) by (auto simp: emits_def)
      ultimately show ?thesis by blast
    qed
  qed
qed

lemma dict_map_dom: "x \<in> dom (dict_map d) \<longleftrightarrow> x \<in> fst ` set (entries d)"
  by (simp add: dict_map_def dom_map_of_conv_image_fst)

text \<open>
  C11. A scan misses nothing while the tables do not shrink: let a dictionary be scanned from cursor 0, one call on
  each of its successive states, which may differ by any additions, deletions and steps of rehashing as long as
  the smaller of the two tables never gets smaller. Then the cursor comes back to 0 within as many calls as the
  largest such table has buckets, no call faults or loops, every key present at every call is emitted, and only
  entries of the dictionary are.
\<close>

theorem dictScan_complete:
  assumes "\<forall>d \<in> set ds. dict_ok d \<and> d_type d = type \<and> scan_size d \<le> 2 ^ K" and "K < 64" and "sorted (map scan_size ds)"
    and "2 ^ K \<le> length ds"
  shows "\<exists>out. scan_seq 0 ds = Some (Inr (out, True)) \<and> set out \<subseteq> (\<Union>d \<in> set ds. set (entries d))
     \<and> (\<forall>x. (\<forall>d \<in> set ds. x \<in> dom (dict_map d)) \<longrightarrow> x \<in> fst ` set out)"
proof -
  have "(2 :: nat) ^ 64 = 2 ^ K * 2 ^ (64 - K)" using assms(2) by (simp only: power_add [symmetric]) simp
  also have "\<dots> \<le> length ds * 2 ^ (64 - K)" using assms(4) by (rule mult_le_mono1)
  finally have "2 ^ 64 \<le> scan_pos 0 + length ds * 2 ^ (64 - K)" by simp
  moreover have "\<forall>d \<in> set ds. dict_ok d \<and> dictHashKey d = hashFunction type \<and> scan_size d \<le> 2 ^ K"
    using assms(1) by (auto simp: dictHashKey_def fun_eq_iff)
  moreover have z: "scan_pos 0 = 0" by simp
  ultimately show ?thesis using scan_seq_spec [of ds "hashFunction type" K 0] assms(2,3) unfolding dict_map_dom by (simp add: z)
qed

theorem dictScan_complete_witness:
  "\<exists>out. scan_seq 0 (replicate 4 small_dict) = Some (Inr (out, True)) \<and> 5 \<in> fst ` set out"
proof -
  have "5 \<in> dom (dict_map small_dict)" by (simp add: small_dict_def dict_map_def entries_def)
  moreover have "scan_size small_dict \<le> 2 ^ 2" by (simp add: small_dict_def scan_size_def dictIsRehashing_def)
  moreover have "d_type small_dict = byte_type" by (simp add: small_dict_def)
  ultimately show ?thesis
    using dictScan_complete [of "replicate 4 small_dict" byte_type 2] small_dict_ok by (simp del: domIff) blast
qed

subsection \<open>A table that shrinks during the scan\<close>

definition wide_dict :: "(nat, string) dict" where
  "wide_dict = \<lparr>d_type = byte_type,
     d_ht0 = \<lparr>ht_table = (replicate 16 [])[0 := [(0, Some ''a'')], 4 := [(4, Some ''b'')]], ht_size = 16, ht_sizemask = 15, ht_used = 2\<rparr>,
     d_ht1 = dictReset, d_rehashidx = - 1, d_iterators = 0\<rparr>"

lemma wide_dict_entries: "entries wide_dict = [(0, Some ''a''), (4, Some ''b'')]"
  by code_simp

lemma wide_dict_ok: "dict_ok wide_dict"
proof -
  have h: "dictHashKey wide_dict = of_nat" by (simp add: wide_dict_def dictHashKey_def byte_type_def fun_eq_iff)
  have "ht_used (d_ht0 wide_dict) = length (concat (ht_table (d_ht0 wide_dict)))" by code_simp
  then have "ht_ok of_nat (d_ht0 wide_dict)"
    unfolding ht_ok_def by (intro disjI2 exI [of _ 4]) (auto simp: wide_dict_def masked_def nth_list_update split: if_splits)
  then show ?thesis
    by (simp add: dict_ok_def h wide_dict_entries) (simp add: wide_dict_def type_ok_def byte_type_def dictIsRehashing_def)
qed

lemma scan_pos_pow2: "i < 64 \<Longrightarrow> scan_pos (2 ^ i) = 2 ^ (63 - i)"
proof -
  assume i: "i < 64"
  have "rev_bits (2 ^ i) = 2 ^ (63 - i)"
    using i by (intro bit_word_eqI) (auto simp: bit_rev_bits bit_simps)
  also have "\<dots> = of_nat (2 ^ (63 - i))" by simp
  finally have e: "rev_bits (2 ^ i) = of_nat (2 ^ (63 - i))" .
  have "(2 :: nat) ^ (63 - i) < 2 ^ 64" by (rule power_strict_increasing) simp_all
  then show ?thesis unfolding scan_pos_def e unsigned_of_nat word_64_len of_nat_id by (rule take_bit_nat_eq_self)
qed

text \<open>The cursors of a scan of 4 buckets are 0, 2, 1 and 3.\<close>

lemma scan_pos_small: "scan_pos 8 = 2 ^ 60" "scan_pos 2 = 2 ^ 62" "scan_pos 1 = 2 ^ 63" "scan_pos 3 = 3 * 2 ^ 62"
proof -
  show "scan_pos 8 = 2 ^ 60" "scan_pos 2 = 2 ^ 62" "scan_pos 1 = 2 ^ 63"
    using scan_pos_pow2 [of 3] scan_pos_pow2 [of 1] scan_pos_pow2 [of 0] by simp_all
  have r: "rev_bits (2 ^ i OR 2 ^ j) = 2 ^ (63 - i) OR 2 ^ (63 - j)" if "i < 64" "j < 64" for i j
    using that by (intro bit_word_eqI) (auto simp: bit_rev_bits bit_simps)
  show "scan_pos 3 = 3 * 2 ^ 62" using r [of 0 1] by (simp add: scan_pos_def)
qed

lemma small_cursors: "scan_cursor (mask 4) 0 = 8" "scan_cursor (mask 2) 0 = 2" "scan_cursor (mask 2) 2 = 1" "scan_cursor (mask 2) 1 = 3"
  "scan_cursor (mask 2) 3 = 0"
proof -
  have z: "scan_pos 0 = 0" by simp
  show "scan_cursor (mask 4) 0 = 8" "scan_cursor (mask 2) 0 = 2" "scan_cursor (mask 2) 2 = 1" "scan_cursor (mask 2) 1 = 3"
  "scan_cursor (mask 2) 3 = 0" unfolding scan_pos_inj [symmetric] scan_cursor_pos [of 4, simplified] scan_cursor_pos [of 2, simplified] z scan_pos_small by simp_all
qed

definition narrowing_dict :: "(nat, string) dict" where
  "narrowing_dict = snd (dictResize plain_env wide_dict)"

lemma narrowing_dict_eq:
  "narrowing_dict = wide_dict\<lparr>d_ht1 := \<lparr>ht_table = replicate 4 [], ht_size = 4, ht_sizemask = 3, ht_used = 0\<rparr>, d_rehashidx := 0\<rparr>"
  by (simp add: narrowing_dict_def dictResize_def dictExpand_def dictNextPower_def next_power.simps plain_env_def wide_dict_def
      dictIsRehashing_def)

lemma narrowing_call:
  assumes "u < 4" and "c < 4" and "unat (of_nat (u + c * 4) AND mask 2 :: 64 word) = u"
    and "take_bit 2 (of_nat (u + 16) :: 64 word) = take_bit 2 (of_nat u)"
  shows "dictScan (of_nat (u + c * 4)) narrowing_dict
     = Some (Inr (concat (map (\<lambda>c. ht_table (d_ht0 wide_dict) ! (u + c * 4)) [c ..< 4]), scan_cursor (mask 2) (of_nat u)))"
proof -
  have "scan_expand (d_ht0 wide_dict) (mask 2) (mask 4) (of_nat (u + c * 4)) []
      = Some (Inr (concat (map (\<lambda>c. ht_table (d_ht0 wide_dict) ! (u + c * 4)) [c ..< 4]), of_nat (u + 16)))"
    using scan_expand_buckets [of 2 4 u "d_ht0 wide_dict" c "[]"] assms by (simp add: wide_dict_def)
  then show ?thesis using scan_cursor_low [OF assms(4)] assms(1,3) unfolding dictScan_def narrowing_dict_eq
    by (simp add: wide_dict_def dictSize_def dictIsRehashing_def read_bucket_def mask_numeral)
qed

text \<open>
  C35. A scan can miss a key that is present all the time, against what the comment above the function promises:
  a dictionary of 16 buckets is resized to 4 after the first call of a scan. The cursor 8 has a bit that the
  smaller mask does not cover, so the loop over the expansions in the larger table starts at bucket 8 and leaves
  out bucket 4; the scan ends without the key of that bucket.
\<close>

theorem dictScan_misses_when_shrinking:
  "dict_ok wide_dict \<and> dict_ok narrowing_dict \<and> dict_map wide_dict 4 = Some (Some ''b'') \<and> dict_map narrowing_dict 4 = Some (Some ''b'')
   \<and> scan_seq 0 (wide_dict # replicate 4 narrowing_dict) = Some (Inr ([(0, Some ''a'')], True))"
proof -
  have m: "moved wide_dict narrowing_dict" unfolding narrowing_dict_def by (rule dictResize_spec [OF wide_dict_ok]) (rule prod.collapse [symmetric])
  have w: "dict_map wide_dict 4 = Some (Some ''b'')" by (simp add: dict_map_def wide_dict_entries)
  have "dictScan 0 wide_dict = Some (Inr ([(0, Some ''a'')], 8))"
    using small_cursors(1) by (simp add: dictScan_def wide_dict_def dictSize_def dictIsRehashing_def read_bucket_def mask_numeral)
  moreover have "dictScan 8 narrowing_dict = Some (Inr ([], 2))" "dictScan 2 narrowing_dict = Some (Inr ([], 1))"
      "dictScan 1 narrowing_dict = Some (Inr ([], 3))" "dictScan 3 narrowing_dict = Some (Inr ([], 0))"
    using narrowing_call [of 0 2] narrowing_call [of 2 0] narrowing_call [of 1 0] narrowing_call [of 3 0] small_cursors
    by (simp_all add: mask_numeral wide_dict_def upt_rec)
  ultimately have "scan_seq 0 (wide_dict # replicate 4 narrowing_dict) = Some (Inr ([(0, Some ''a'')], True))"
    by (simp add: numeral_eq_Suc)
  then show ?thesis using m w moved_map [OF m wide_dict_ok] wide_dict_ok by (simp add: moved_def Let_def)
qed

end
