(* ===== verification/Spec2Isabelle.thy ===== *)
theory Spec2Isabelle
  imports Crdt_Gc Crdt_Conversation Crdt_Cron_Theorems Dict_Scan
begin

text \<open>
  A verification development for the CRDT replication layer of a Redis server. Every instance owns a group id
  (gid, 1 to 15), stamps its writes with a vector clock and replicates to its peers, each of which it also
  follows; concurrent writes are resolved by comparing clocks, and tombstones are kept until every peer has
  seen the deletion. The development is a shallow embedding: a C function is a HOL function of the same
  name, a structure is a record, an enumeration a datatype. A function that can fault (failed assertion, access out of
  bounds, null or dangling pointer, uninitialised read) returns a value of the type \<^typ>\<open>'a res\<close>, whose left
  summand is the fault; mutable state is passed and returned. Loops are total recursive functions, each with
  its termination proved. Two loops are not: the sampling loop of a collection cycle takes fuel, the size of the
  dictionary plus one, which is shown to be enough, and the loop over the buckets of the larger table in a scan
  (\<^verbatim>\<open>scan_expand\<close>) is a partial function whose value \<^term>\<open>None\<close> stands for not returning, and is shown to
  return. What the code asks from outside (whether a write to a socket
  succeeded, the bytes received, the clock, the order in which a dictionary is scanned) is an argument of the
  definition that uses it.

  Theories and sources (all paths below \<^verbatim>\<open>src/src\<close>):

  \<^item> \<^verbatim>\<open>Crdt_Prelude\<close>: the fault type and its sequencing, shared lemmas on lists, options, words.
  \<^item> \<^verbatim>\<open>Vector_Clock\<close> and the theories that start with its name: \<^verbatim>\<open>ctrip_vector_clock.[ch]\<close>. Clocks are lists of
    64-bit units (gid, flag, 56-bit time). \<^verbatim>\<open>_Facts\<close>, \<^verbatim>\<open>_Lattice\<close>, \<^verbatim>\<open>_Ops\<close> show that the merge loops compute pointwise
    maxima and minima and never leave their arrays, \<^verbatim>\<open>_Theorems\<close> collects the properties, \<^verbatim>\<open>_Text\<close> has the printers
    and parsers and their round trip. The locales \<^verbatim>\<open>state_join\<close> and \<^verbatim>\<open>clock_meet\<close> derive convergence from the laws
    of the merges.
  \<^item> \<^verbatim>\<open>Num_Text\<close>, \<^verbatim>\<open>Sds_Strings\<close>: number conversion of \<^verbatim>\<open>util.c\<close>, string operations of \<^verbatim>\<open>sds.c\<close>.
  \<^item> \<^verbatim>\<open>Xpipe_Proxy\<close>: \<^verbatim>\<open>xpipe_proxy.c\<close>, \<^verbatim>\<open>proxy.c\<close>.
  \<^item> \<^verbatim>\<open>Crdt_Server\<close>: the state of \<^verbatim>\<open>crdtServer\<close>, the process clocks (\<^verbatim>\<open>ctrip.c\<close>, \<^verbatim>\<open>module.c\<close>) and offline peers.
  \<^item> \<^verbatim>\<open>Crdt_Gc\<close>: \<^verbatim>\<open>ctrip_crdt_gc.c\<close>. A collection cycle returns and removes only tombstones that the process and
    every active peer have passed.
  \<^item> \<^verbatim>\<open>Client_Output\<close>, \<^verbatim>\<open>Resp_Parser\<close>: the two directions of \<^verbatim>\<open>networking.c\<close>. Replies are never lost or reordered
    (locale \<^verbatim>\<open>byte_sink\<close>), and the parser reads every admissible command back however it is cut into reads.
  \<^item> \<^verbatim>\<open>Repl_Backlog\<close>, \<^verbatim>\<open>Repl_Stream\<close>: the circular backlog and command propagation (\<^verbatim>\<open>replication.c\<close>,
    \<^verbatim>\<open>ctrip_crdt_replication.c\<close>). The backlog refines the end of an append-only stream (locale \<^verbatim>\<open>bounded_log\<close>).
  \<^item> \<^verbatim>\<open>Crdt_Peer\<close>, \<^verbatim>\<open>Crdt_Peer_Inv\<close>, \<^verbatim>\<open>Crdt_Peer_Steps\<close>, \<^verbatim>\<open>Crdt_Peer_Theorems\<close>: the table of peers and the
    operations on it, an invariant, its preservation by each operation, and the properties. \<^verbatim>\<open>peer_step\<close> is the
    transition system of all operations.
  \<^item> \<^verbatim>\<open>Crdt_Handshake\<close>, \<^verbatim>\<open>Crdt_Handshake_Theorems\<close>: \<^verbatim>\<open>crdtSyncWithMaster\<close> and what it calls, as a list of guarded
    stages in the order of the code; the protocol completes, and what goes wrong on its error paths.
  \<^item> \<^verbatim>\<open>Repl_Master\<close>, \<^verbatim>\<open>Repl_Master_Theorems\<close>: the side that serves a stream, in \<^verbatim>\<open>replication.c\<close>, with the parent
    side of the snapshots of \<^verbatim>\<open>rdb.c\<close> and the release of an attached client in \<^verbatim>\<open>networking.c\<close>: \<^verbatim>\<open>SYNC\<close>,
    \<^verbatim>\<open>CRDT.PSYNC\<close>, \<^verbatim>\<open>REPLCONF\<close>, starting a snapshot for the clients that wait and sending its file. The file is
    delivered whole and in order, whatever pieces the socket takes.
  \<^item> \<^verbatim>\<open>Crdt_Cron\<close>, \<^verbatim>\<open>Crdt_Cron_Theorems\<close>: \<^verbatim>\<open>crdtReplicationCron\<close>, part by part. The pass over the peers acts on
    every slot by itself; the snapshot for waiting peers covers what each of them lacks.
  \<^item> \<^verbatim>\<open>Dict\<close>, \<^verbatim>\<open>Dict_Map\<close>, \<^verbatim>\<open>Dict_Scan\<close>: \<^verbatim>\<open>dict.c\<close>, the tables that hold keys and tombstones, with buckets as lists.
    Every mix of operations and rehashing steps answers as a map (locale \<^verbatim>\<open>map_store\<close>), rehashing ends, a scan
    over a changing dictionary ends and misses nothing as long as the tables do not shrink, and can miss
    keys when they do.
  \<^item> \<^verbatim>\<open>Crdt_Resume\<close>, \<^verbatim>\<open>Crdt_Conversation\<close> and this theory: the composition of the handshake of one instance with
    the parser, the command handlers and the backlog of another, and of the collector with the reachable peer
    tables. \<^verbatim>\<open>talk\<close> lets the two instances exchange what they write until the link is up.

  Not modelled: memory management except where a pointer may dangle, logging and statistics. The event
  loop, sockets, files, child processes and threads (\<^verbatim>\<open>ae*.c\<close>, \<^verbatim>\<open>anet.c\<close>, \<^verbatim>\<open>bio.c\<close>, \<^verbatim>\<open>rio.c\<close>) are pure I/O. The contents
  of a snapshot (\<^verbatim>\<open>rdb.c\<close>, \<^verbatim>\<open>ctrip_crdt_rdb.c\<close>) are written and read by the CRDT data types, which live in a loadable
  module that is not part of the sources and appear as parameters of the operations that call them. The
  replica side of \<^verbatim>\<open>replication.c\<close> serves replicas that are not peers. Iterators and random sampling of
  dictionaries, the native data types with their encodings, scripting, publish and subscribe, transactions,
  eviction, configuration, the append-only file, cluster, sentinel and the command line tools are the server
  that the replication layer was built into; they neither read nor change the clocks, the streams or the peers.
\<close>

section \<open>Properties that span components\<close>



text \<open>
  A peer that reconnects resumes the stream without losing or repeating a byte. The line in which the
  handshake asks for the stream is read by the other instance as the command it is; if that instance still has
  the id and the offset, it queues exactly the bytes after the last one the peer has applied, and its answer
  makes the handshake take up the cached link, at the same offset, as the link of the peer.
\<close>

theorem peer_resumes_stream:
  assumes "smooth env" and "cached_master p = Some c" and "plain_word (mc_replid c)"
    and "length (mc_replid c) = CONFIG_RUN_ID_SIZE" and "0 \<le> mc_reploff c" and "mc_reploff c < LLONG_MAX"
    and "repl_backlog (w_crdt w) \<noteq> None"
    and "backlog_holds crdtServer bs" and "replid crdtServer = mc_replid c"
    and "repl_backlog_off crdtServer \<le> mc_reploff c + 1" and "mc_reploff c \<le> master_repl_offset crdtServer"
    and "ready (n, cl)" and "CLIENT_SLAVE \<notin> c_flags cl" and "SLAVE_CAPA_PSYNC2 \<in> c_slave_capa cl"
    and "SLAVE_CAPA_BACKSTREAM \<notin> c_slave_capa cl" and "length (queued cl) + length bs < out_cap"
  shows "\<exists>cl1 line server' crdt' n' cl' h m.
       processInlineBuffer (n, cl\<lparr>c_querybuf := sync_text (psync_request p)\<rparr>) = Inr (True, n, cl1)
     \<and> masterTryPartialResynchronization True (server, crdtServer) (n, cl1) True = Inr (Some (line, server', crdt'), n', cl')
     \<and> queued cl' = queued cl @ drop (nat (mc_reploff c + 1 - repl_backlog_off crdtServer)) bs
     \<and> hs_event env s line (waiting s p w sent REPL_STATE_RECEIVE_PSYNC) = Inr h
     \<and> repl_state (hs_peer h) = REPL_STATE_CONNECTED \<and> master (hs_peer h) = Some m
     \<and> mc_replid m = mc_replid c \<and> mc_reploff m = mc_reploff c"
proof -
  let ?cl = "cl\<lparr>c_querybuf := [], c_argv := psync_request p\<rparr>"
  have argv: "psync_request p = [''CRDT.PSYNC'', mc_replid c, show_int (mc_reploff c + 1)]"
    using assms(2) by (simp add: psync_request_def)
  have parse: "processInlineBuffer (n, cl\<lparr>c_querybuf := sync_text (psync_request p)\<rparr>) = Inr (True, n, ?cl)"
    using psync_request_plain [OF assms(2,3,5)] assms(13) argv by (intro processInlineBuffer_command) simp_all
  have rdy: "ready (n, ?cl)" and q: "queued ?cl = queued cl"
    using assms(12) by simp_all
  have off: "string2ll (show_int (mc_reploff c + 1)) = Some (mc_reploff c + 1)"
    using assms(5,6) by (intro string2ll_show_int) simp_all
  have id: "psync_id_ok crdtServer (mc_replid c) (mc_reploff c + 1)"
    using assms(9) by (simp add: psync_id_ok_def strcaseeq_refl)
  obtain server' crdt' n' cl' where psync:
      "masterTryPartialResynchronization True (server, crdtServer) (n, ?cl) True
         = Inr (Some (''+CONTINUE '' @ mc_replid c @ crlf, server', crdt'), n', cl')"
      "queued cl' = queued cl @ drop (nat (mc_reploff c + 1 - repl_backlog_off crdtServer)) bs"
    using psync_accepted [OF _ assms(8) rdy, where is_crdt = True and server = server and crdtServer = crdtServer
        and k = "mc_reploff c + 1"] assms(9-11,14-16) argv off id q
    by simp blast
  obtain h where h: "hs_event env s (''+CONTINUE '' @ mc_replid c @ crlf) (waiting s p w sent REPL_STATE_RECEIVE_PSYNC) = Inr h"
      "repl_state (hs_peer h) = REPL_STATE_CONNECTED"
      "master (hs_peer h) = Some (c\<lparr>mc_fd := repl_transfer_s p, mc_closing := False, mc_authenticated := True,
          mc_lastinteraction := unixtime s\<rparr>)"
    using continue_event [OF assms(1,2) run_id_plain [OF assms(3,4)] assms(7), of s "[]" sent, unfolded append_Nil2] by blast
  show ?thesis
    by (intro exI conjI, rule parse, rule psync(1), rule psync(2), rule h(1), rule h(2), rule h(3)) simp_all
qed

theorem peer_resumes_stream_witness:
  "\<exists>cl1 line server' crdt' n' cl' h m.
       processInlineBuffer (blank_net, blank_client\<lparr>c_slave_capa := {SLAVE_CAPA_PSYNC2}, c_querybuf := sync_text (psync_request waiting_peer)\<rparr>)
         = Inr (True, blank_net, cl1)
     \<and> masterTryPartialResynchronization True (sample_stream, far_stream) (blank_net, cl1) True
         = Inr (Some (line, server', crdt'), n', cl')
     \<and> queued cl' = ''def''
     \<and> hs_event calm_env sample_server line (waiting sample_server waiting_peer sample_world [] REPL_STATE_RECEIVE_PSYNC) = Inr h
     \<and> repl_state (hs_peer h) = REPL_STATE_CONNECTED \<and> master (hs_peer h) = Some m
     \<and> mc_replid m = mc_replid kept_link \<and> mc_reploff m = mc_reploff kept_link"
proof -
  let ?cl = "blank_client\<lparr>c_slave_capa := {SLAVE_CAPA_PSYNC2}\<rparr>"
  have env: "smooth calm_env" and peer: "cached_master waiting_peer = Some kept_link"
    by (simp_all add: smooth_def calm_env_def waiting_peer_def)
  have word: "plain_word (mc_replid kept_link)" by code_simp
  have off: "mc_reploff kept_link = 70" and len: "length (mc_replid kept_link) = CONFIG_RUN_ID_SIZE"
    by (simp_all add: kept_link_def sample_link_def)
  have w: "repl_backlog (w_crdt sample_world) \<noteq> None" by (simp add: sample_world_def sample_stream_def)
  have holds: "backlog_holds far_stream ''cdef''" by code_simp
  have far: "replid far_stream = mc_replid kept_link" "repl_backlog_off far_stream = 70" "master_repl_offset far_stream = 73"
    by (simp_all add: far_stream_def)
  have cl: "ready (blank_net, ?cl)" "CLIENT_SLAVE \<notin> c_flags ?cl" "queued ?cl = []"
    by (simp_all add: ready_def blank_defs writable_def getClientType_def obuf_wf_def list_bytes_def queued_def)
  have cap: "length (queued ?cl) + length ''cdef'' < out_cap" unfolding cl(3) by (simp add: out_cap_def)
  from peer_resumes_stream [OF env peer word len _ _ w holds far(1) _ _ cl(1,2) _ _ cap, of sample_stream sample_server "[]"]
  show ?thesis unfolding far off cl(3) by simp
qed

end
